(* ===== verification/Prelude.thy ===== *)
theory Prelude
  imports Main "HOL-Library.State_Monad" "HOL-Library.Word"
begin

text \<open>
  Shared vocabulary of the taskflow development.

  \<^item> A Go function that returns \<open>(v, err)\<close> and has effects is a value of
    \<open>('s, 'e + 'a) state\<close> (\<open>HOL-Library.State_Monad\<close>): it threads the state and
    returns \<open>Inl e\<close> for a non-nil error. \<open>check_err\<close> is the idiom
    \<open>if err != nil { return err }\<close>.
  \<^item> The locale \<open>io_preorder\<close> holds the rules with which a reflexive and transitive
    relation between the states before and after a call is carried through a whole
    function body; invariants, frame conditions and histories are instances of it.
  \<^item> \<open>update_where\<close>, \<open>first_by\<close> and the lemmas after them are the list facts the SQL
    statements are proved with.
\<close>

named_theorems io_rules
  \<comment> \<open>introduction rules that carry a state relation through a function body\<close>
named_theorems db_simps
  \<comment> \<open>equations that evaluate a store operation in a state without faults\<close>

subsection \<open>Fallible, stateful calls\<close>

abbreviation ret :: "'a \<Rightarrow> ('s, 'a) state" where
  "ret \<equiv> State_Monad.return"

abbreviation fail :: "'e \<Rightarrow> ('s, 'e + 'a) state" where
  "fail e \<equiv> State_Monad.return (Inl e)"

abbreviation ok :: "'a \<Rightarrow> ('s, 'e + 'a) state" where
  "ok x \<equiv> State_Monad.return (Inr x)"

definition check_err :: "('s, 'e + 'a) state \<Rightarrow> ('a \<Rightarrow> ('s, 'e + 'b) state) \<Rightarrow> ('s, 'e + 'b) state" where
  "check_err m k = do { r \<leftarrow> m; case r of Inl e \<Rightarrow> fail e | Inr x \<Rightarrow> k x }"

definition lift_result :: "'e + 'a \<Rightarrow> ('s, 'e + 'a) state" where
  "lift_result r = ret r"

lemma run_check_err [db_simps]:
  "run_state (check_err m k) s =
     (case run_state m s of (Inl e, s') \<Rightarrow> (Inl e, s') | (Inr x, s') \<Rightarrow> run_state (k x) s')"
  by (auto simp: check_err_def split: prod.splits sum.splits)

lemma run_lift_result [simp]: "run_state (lift_result r) s = (r, s)"
  by (simp add: lift_result_def)

lemma check_err_fail [simp]: "check_err (fail e) k = fail e"
  by (rule state_ext) (simp add: run_check_err)

lemma check_err_ok [simp]: "check_err (ok x) k = k x"
  by (rule state_ext) (simp add: run_check_err)

lemma check_err_lift [simp]:
  "check_err (lift_result (Inl e)) k = fail e" "check_err (lift_result (Inr x)) k = k x"
  by (simp_all add: lift_result_def)

lemma check_err_assoc:
  "check_err (check_err m f) g = check_err m (\<lambda>x. check_err (f x) g)"
  by (rule state_ext) (simp add: run_check_err split: prod.splits sum.splits)

text \<open>
  A loop over a list in which each iteration may change the state; the loop of
  \<open>PromoteOnce\<close> never stops early (every error is a \<open>continue\<close>), while
  \<open>for_each_err\<close> returns at the first error.
\<close>

primrec for_each :: "('a \<Rightarrow> ('s, 'b) state) \<Rightarrow> 'a list \<Rightarrow> ('s, 'b list) state" where
  "for_each f [] = ret []"
| "for_each f (x # xs) = do { y \<leftarrow> f x; ys \<leftarrow> for_each f xs; ret (y # ys) }"

primrec for_each_err :: "('a \<Rightarrow> ('s, 'e + 'b) state) \<Rightarrow> 'a list \<Rightarrow> ('s, 'e + 'b list) state" where
  "for_each_err f [] = ok []"
| "for_each_err f (x # xs) =
     check_err (f x) (\<lambda>y. check_err (for_each_err f xs) (\<lambda>ys. ok (y # ys)))"

subsection \<open>Relations carried through a body\<close>

definition io_rel :: "('s \<Rightarrow> 's \<Rightarrow> bool) \<Rightarrow> ('s, 'a) state \<Rightarrow> bool" where
  "io_rel R m \<longleftrightarrow> (\<forall>s. R s (snd (run_state m s)))"

lemma io_relI: "(\<And>s. R s (snd (run_state m s))) \<Longrightarrow> io_rel R m"
  by (simp add: io_rel_def)

lemma io_relD: "io_rel R m \<Longrightarrow> run_state m s = (a, s') \<Longrightarrow> R s s'"
  by (metis io_rel_def snd_conv)

locale io_preorder =
  fixes R :: "'s \<Rightarrow> 's \<Rightarrow> bool"
  assumes R_refl: "R s s"
    and R_trans: "R s t \<Longrightarrow> R t u \<Longrightarrow> R s u"
begin

lemma io_ret: "io_rel R (ret x)"
  by (simp add: io_rel_def R_refl)

lemma io_lift: "io_rel R (lift_result x)"
  by (simp add: io_rel_def R_refl)

lemma io_bind: "io_rel R m \<Longrightarrow> (\<And>x. io_rel R (f x)) \<Longrightarrow> io_rel R (State_Monad.bind m f)"
  by (auto simp: io_rel_def split: prod.splits intro: R_trans)

lemma io_check_err: "io_rel R m \<Longrightarrow> (\<And>x. io_rel R (k x)) \<Longrightarrow> io_rel R (check_err m k)"
  unfolding check_err_def by (rule io_bind) (auto split: sum.splits intro: io_ret)

lemma io_sum: "(\<And>e. io_rel R (f e)) \<Longrightarrow> (\<And>x. io_rel R (g x)) \<Longrightarrow> io_rel R (case r of Inl e \<Rightarrow> f e | Inr x \<Rightarrow> g x)"
  by (cases r) simp_all

lemma io_option: "io_rel R f \<Longrightarrow> (\<And>x. io_rel R (g x)) \<Longrightarrow> io_rel R (case r of None \<Rightarrow> f | Some x \<Rightarrow> g x)"
  by (cases r) simp_all

lemma io_prod: "(\<And>x y. io_rel R (f x y)) \<Longrightarrow> io_rel R (case p of (x, y) \<Rightarrow> f x y)"
  by (cases p) simp

lemma io_if: "(b \<Longrightarrow> io_rel R f) \<Longrightarrow> (\<not> b \<Longrightarrow> io_rel R g) \<Longrightarrow> io_rel R (if b then f else g)"
  by simp

lemma io_let: "io_rel R (f x) \<Longrightarrow> io_rel R (let y = x in f y)"
  by simp

lemma io_for_each: "(\<And>x. x \<in> set xs \<Longrightarrow> io_rel R (f x)) \<Longrightarrow> io_rel R (for_each f xs)"
  by (induction xs) (auto intro!: io_ret io_bind)

lemma io_for_each_err: "(\<And>x. x \<in> set xs \<Longrightarrow> io_rel R (f x)) \<Longrightarrow> io_rel R (for_each_err f xs)"
  by (induction xs) (auto intro!: io_ret io_check_err)

lemmas io_body = io_bind io_check_err io_sum io_option io_prod io_if io_let io_ret io_lift
  io_for_each io_for_each_err

end

subsection \<open>Signed words\<close>

lemma sint_eq_iff: "sint a = sint b \<longleftrightarrow> a = b" for a b :: "'a::len word"
  by (metis scast_id scast_eq)

subsection \<open>Rows of a table\<close>

definition update_where :: "('a \<Rightarrow> bool) \<Rightarrow> ('a \<Rightarrow> 'a) \<Rightarrow> 'a list \<Rightarrow> 'a list" where
  "update_where p f xs = map (\<lambda>x. if p x then f x else x) xs"

definition rows_affected :: "('a \<Rightarrow> bool) \<Rightarrow> 'a list \<Rightarrow> nat" where
  "rows_affected p xs = length (filter p xs)"

definition first_by :: "('a \<Rightarrow> 'k::linorder) \<Rightarrow> 'a list \<Rightarrow> 'a option" where
  "first_by k xs = (case sort_key k xs of [] \<Rightarrow> None | x # _ \<Rightarrow> Some x)"

lemma update_where_Nil [simp]: "update_where p f [] = []"
  by (simp add: update_where_def)

lemma update_where_Cons [simp]:
  "update_where p f (x # xs) = (if p x then f x else x) # update_where p f xs"
  by (simp add: update_where_def)

lemma length_update_where [simp]: "length (update_where p f xs) = length xs"
  by (simp add: update_where_def)

lemma set_update_where: "set (update_where p f xs) = (\<lambda>x. if p x then f x else x) ` set xs"
  by (simp add: update_where_def)

lemma in_update_where:
  "y \<in> set (update_where p f xs) \<longleftrightarrow> (\<exists>x\<in>set xs. y = (if p x then f x else x))"
  by (auto simp: set_update_where)

text \<open>An update that keeps a column keeps the list of its values.\<close>

lemma map_update_where:
  "(\<And>x. x \<in> set xs \<Longrightarrow> p x \<Longrightarrow> k (f x) = k x) \<Longrightarrow> map k (update_where p f xs) = map k xs"
  by (induction xs) auto

lemma update_where_none: "(\<And>x. x \<in> set xs \<Longrightarrow> \<not> p x) \<Longrightarrow> update_where p f xs = xs"
  by (induction xs) auto

lemma rows_affected_eq_0: "rows_affected p xs = 0 \<longleftrightarrow> (\<forall>x\<in>set xs. \<not> p x)"
  by (simp add: rows_affected_def filter_empty_conv)

lemma first_by_None [simp]: "first_by k xs = None \<longleftrightarrow> xs = []"
  by (cases "sort_key k xs") (auto simp: first_by_def dest: arg_cong [where f = set])

lemma first_by_in: "first_by k xs = Some x \<Longrightarrow> x \<in> set xs"
  by (auto simp: first_by_def split: list.splits dest: arg_cong [where f = set])

lemma first_by_least: "first_by k xs = Some x \<Longrightarrow> y \<in> set xs \<Longrightarrow> k x \<le> k y"
proof -
  assume first: "first_by k xs = Some x" and y: "y \<in> set xs"
  from first obtain rest where sorted: "sort_key k xs = x # rest"
    by (auto simp: first_by_def split: list.splits)
  have "sorted (map k (x # rest))"
    using sorted sorted_sort_key [of k xs] by simp
  moreover have "y \<in> set (x # rest)"
    using sorted y by (metis set_sort)
  ultimately show ?thesis by auto
qed

lemma first_by_Nil [simp]: "first_by k [] = None"
  by (simp add: first_by_def)

lemma first_by_single [simp]: "first_by k [x] = Some x"
  by (simp add: first_by_def)

lemma first_by_Cons:
  "first_by k (a # xs) = (case first_by k xs of None \<Rightarrow> Some a | Some h \<Rightarrow> Some (if k a \<le> k h then a else h))"
  by (cases "sort_key k xs") (simp_all add: first_by_def)

lemma first_by_snoc:
  "first_by k (xs @ [x]) = (case first_by k xs of None \<Rightarrow> Some x | Some h \<Rightarrow> Some (if k h \<le> k x then h else x))"
  by (induction xs) (auto simp: first_by_Cons split: option.splits)

text \<open>In a table with distinct keys at most one row has a given key.\<close>

lemma distinct_key_unique:
  "distinct (map k xs) \<Longrightarrow> x \<in> set xs \<Longrightarrow> y \<in> set xs \<Longrightarrow> k x = k y \<Longrightarrow> x = y"
  by (auto simp: distinct_map inj_on_def)

lemma find_key:
  assumes "distinct (map k xs)" and "x \<in> set xs"
  shows "List.find (\<lambda>y. k y = k x) xs = Some x"
  using assms by (induction xs) (auto simp: rev_image_eqI)

lemma find_SomeD: "List.find p xs = Some x \<Longrightarrow> x \<in> set xs \<and> p x"
  by (metis find_Some_iff nth_mem)

lemma find_NoneD: "List.find p xs = None \<Longrightarrow> x \<in> set xs \<Longrightarrow> \<not> p x"
  by (simp add: find_None_iff)

lemma filter_key_distinct:
  assumes "distinct (map k xs)" and "x \<in> set xs"
  shows "filter (\<lambda>y. k y = k x) xs = [x]"
  using assms by (induction xs) (auto simp: filter_empty_conv rev_image_eqI)

lemma rows_affected_key:
  assumes "distinct (map k xs)" and "x \<in> set xs"
  shows "rows_affected (\<lambda>y. k y = k x) xs = 1"
  using filter_key_distinct [OF assms] by (simp add: rows_affected_def)

end
