(* ===== verification/Model.thy ===== *)
theory Model
  imports Prelude Complex_Main
begin

text \<open>
  The domain types of \<open>src/internal/model/model.go\<close>, the values that travel through
  \<open>encoding/json\<close>, and the errors every package exchanges.

  Timestamps are integers, nanoseconds since the epoch (the unit of Go's
  \<open>time.Duration\<close>); a \<open>time.Duration\<close> itself is a 64-bit word read with \<open>sint\<close>, and
  Go's \<open>int16\<close> and \<open>int32\<close> fields are 16-bit and 32-bit words read with \<open>sint\<close>.
  A nil pointer or a SQL NULL is \<open>None\<close>.
\<close>

type_synonym uid = string
type_synonym time = int
type_synonym int16 = "16 word"
type_synonym int32 = "32 word"
type_synonym duration = "64 word"

subsection \<open>JSON values and maps\<close>

text \<open>
  \<open>map[string]any\<close>: \<open>None\<close> is the nil map. \<open>GOpaque\<close> stands for a Go value that has no JSON
  form (a channel, a function), which only a handler's result can contain.
\<close>

datatype gval =
    GNil
  | GBool bool
  | GNum rat
  | GStr string
  | GArr "gval list"
  | GObj "(string \<times> gval) list"
  | GOpaque

type_synonym gomap = "(string \<times> gval) list option"

definition gomap_get :: "gomap \<Rightarrow> string \<Rightarrow> gval option" where
  "gomap_get m k = (case m of None \<Rightarrow> None | Some kvs \<Rightarrow> map_of kvs k)"

fun marshalable :: "gval \<Rightarrow> bool" where
  "marshalable GOpaque = False"
| "marshalable (GArr vs) = (\<forall>v\<in>set vs. marshalable v)"
| "marshalable (GObj kvs) = (\<forall>kv\<in>set kvs. marshalable (snd kv))"
| "marshalable _ = True"

subsection \<open>Errors\<close>

datatype err =
    ErrNoRows                 \<comment> \<open>\<open>pgx.ErrNoRows\<close>\<close>
  | ErrNotFound               \<comment> \<open>\<open>store.ErrNotFound\<close>\<close>
  | ErrIdempotencyConflict    \<comment> \<open>\<open>store.ErrIdempotencyConflict\<close>\<close>
  | PgError string            \<comment> \<open>\<open>pgconn.PgError\<close> with its SQLSTATE code\<close>
  | ErrConn                   \<comment> \<open>a driver error: connection lost, context over\<close>
  | ErrDeadlineExceeded       \<comment> \<open>\<open>context.DeadlineExceeded\<close>\<close>
  | ErrCanceled               \<comment> \<open>\<open>context.Canceled\<close>\<close>
  | ErrJSON                   \<comment> \<open>an error of \<open>encoding/json\<close>\<close>
  | ErrNew string             \<comment> \<open>\<open>errors.New(msg)\<close>\<close>
  | ErrWrap string err        \<comment> \<open>\<open>fmt.Errorf("msg: %w", err)\<close>\<close>

text \<open>\<open>errors.Is\<close> and \<open>errors.As\<close> follow the chain of wrapped errors.\<close>

fun errors_Is :: "err \<Rightarrow> err \<Rightarrow> bool" where
  "errors_Is (ErrWrap m e) t = (ErrWrap m e = t \<or> errors_Is e t)"
| "errors_Is e t = (e = t)"

fun errors_As_PgError :: "err \<Rightarrow> string option" where
  "errors_As_PgError (ErrWrap m e) = errors_As_PgError e"
| "errors_As_PgError (PgError code) = Some code"
| "errors_As_PgError _ = None"

text \<open>\<open>err.Error()\<close>, the text that \<open>FailRun\<close> stores.\<close>

fun Error :: "err \<Rightarrow> string" where
  "Error ErrNoRows = ''no rows in result set''"
| "Error ErrNotFound = ''store: not found''"
| "Error ErrIdempotencyConflict = ''store: idempotency key already used''"
| "Error (PgError code) = ''SQLSTATE '' @ code"
| "Error ErrConn = ''connection error''"
| "Error ErrDeadlineExceeded = ''context deadline exceeded''"
| "Error ErrCanceled = ''context canceled''"
| "Error ErrJSON = ''json error''"
| "Error (ErrNew msg) = msg"
| "Error (ErrWrap msg e) = msg @ '': '' @ Error e"

definition json_Marshal :: "gomap \<Rightarrow> err + gval" where
  "json_Marshal m = (case m of
     None \<Rightarrow> Inr GNil
   | Some kvs \<Rightarrow> if marshalable (GObj kvs) then Inr (GObj kvs) else Inl ErrJSON)"

definition json_Unmarshal :: "gval \<Rightarrow> err + gomap" where
  "json_Unmarshal v = (case v of
     GNil \<Rightarrow> Inr None
   | GObj kvs \<Rightarrow> Inr (Some kvs)
   | _ \<Rightarrow> Inl ErrJSON)"

lemma json_roundtrip: "json_Marshal m = Inr v \<Longrightarrow> json_Unmarshal v = Inr m"
  by (auto simp: json_Marshal_def json_Unmarshal_def split: option.splits if_splits)

subsection \<open>Jobs, runs, workers\<close>

datatype job_status = JobStatusActive | JobStatusPaused | JobStatusArchived

fun job_status_string :: "job_status \<Rightarrow> string" where
  "job_status_string JobStatusActive = ''active''"
| "job_status_string JobStatusPaused = ''paused''"
| "job_status_string JobStatusArchived = ''archived''"

datatype run_status =
    RunStatusPending
  | RunStatusLeased
  | RunStatusRunning
  | RunStatusSucceeded
  | RunStatusFailed
  | RunStatusDead

text \<open>
  The columns of a \<open>jobs\<close> row. The payload is \<open>gval\<close> in the table (JSONB) and \<open>gomap\<close> in the
  \<open>Job\<close> struct, which adds the dependency list read from \<open>job_dependencies\<close>.
\<close>

record 'p job_row =
  job_ID :: uid
  job_Name :: string
  job_Payload :: 'p
  job_CronExpr :: "string option"
  job_Priority :: int16
  job_MaxAttempts :: int16
  job_TimeoutSeconds :: int32
  job_Status :: job_status
  job_IdempotencyKey :: "string option"
  job_CreatedAt :: time
  job_UpdatedAt :: time

record job = "gomap job_row" +
  job_DependsOn :: "uid list"

text \<open>The columns of a \<open>job_runs\<close> row; the result is \<open>gval option\<close> in the table and \<open>gomap\<close> in \<open>JobRun\<close>.\<close>

record 'r job_run =
  run_ID :: uid
  run_JobID :: uid
  run_Status :: run_status
  run_Attempt :: int16
  run_Priority :: int16
  run_ScheduledAt :: time
  run_LeasedBy :: "string option"
  run_LeasedAt :: "time option"
  run_LeaseExpiresAt :: "time option"
  run_StartedAt :: "time option"
  run_FinishedAt :: "time option"
  run_Result :: 'r
  run_Error :: "string option"
  run_CreatedAt :: time

type_synonym JobRun = "gomap job_run"
type_synonym run_row = "gval option job_run"

datatype worker_status = WorkerStatusAlive | WorkerStatusDead

record worker =
  worker_ID :: string
  worker_Hostname :: string
  worker_Status :: worker_status
  worker_LastHeartbeat :: time
  worker_StartedAt :: time

record dead_letter =
  dl_ID :: uid
  dl_JobRunID :: uid
  dl_Reason :: string
  dl_Payload :: gval
  dl_CreatedAt :: time

record new_job_input =
  in_Name :: string
  in_Payload :: gomap
  in_CronExpr :: "string option"
  in_Priority :: int16
  in_MaxAttempts :: int16
  in_TimeoutSeconds :: int32
  in_IdempotencyKey :: "string option"
  in_DependsOn :: "string list"

text \<open>
  What \<open>encoding/json\<close> writes for a \<open>JobRun\<close> is given by the struct that it decodes to again: the tag
  \<open>omitempty\<close> leaves an empty result out, and it comes back as the nil map. The text of a \<open>Job\<close> decodes to the
  same job; its payload has no such tag and an empty list of dependencies is a nil slice.
\<close>

fun omit_empty :: "gomap \<Rightarrow> gomap" where
  "omit_empty (Some []) = None"
| "omit_empty m = m"

definition run_json :: "JobRun \<Rightarrow> JobRun" where
  "run_json r = r\<lparr>run_Result := omit_empty (run_Result r)\<rparr>"

lemma omit_empty_twice [simp]: "omit_empty (omit_empty m) = omit_empty m"
  by (cases m rule: omit_empty.cases) simp_all

lemma run_json_fields [simp]:
  "run_json (run_json r) = run_json r" "run_ID (run_json r) = run_ID r" "run_Status (run_json r) = run_Status r"
  by (simp_all add: run_json_def)

text \<open>A run that can still be executed: the states \<open>HasActiveRun\<close> asks for.\<close>

fun active_status :: "run_status \<Rightarrow> bool" where
  "active_status RunStatusPending = True"
| "active_status RunStatusLeased = True"
| "active_status RunStatusRunning = True"
| "active_status _ = False"

subsection \<open>The lease queue's order\<close>

text \<open>
  \<open>ORDER BY priority DESC, scheduled_at ASC\<close> as a linear order, so that the library's
  sorting and minimum lemmas apply to it.
\<close>

datatype queue_key = QueueKey (key_priority: int) (key_scheduled: time)

instantiation queue_key :: linorder
begin

definition less_eq_queue_key :: "queue_key \<Rightarrow> queue_key \<Rightarrow> bool" where
  "less_eq_queue_key a b \<longleftrightarrow> key_priority b < key_priority a \<or>
     key_priority a = key_priority b \<and> key_scheduled a \<le> key_scheduled b"

definition less_queue_key :: "queue_key \<Rightarrow> queue_key \<Rightarrow> bool" where
  "less_queue_key a b \<longleftrightarrow> key_priority b < key_priority a \<or>
     key_priority a = key_priority b \<and> key_scheduled a < key_scheduled b"

instance
  by standard (auto simp: less_eq_queue_key_def less_queue_key_def queue_key.expand)

end

definition queue_key_of :: "'r job_run \<Rightarrow> queue_key" where
  "queue_key_of r = QueueKey (sint (run_Priority r)) (run_ScheduledAt r)"

end
