(* ===== verification/Float64.thy ===== *)
theory Float64
  imports Model "HOL-Library.Log_Nat"
begin

text \<open>
  Go's \<open>float64\<close> as far as the code computes with it: a finite value is the rational it denotes,
  an operation rounds the exact result to 53 significant bits, half to even, and the conversion to
  \<open>int64\<close> truncates. (Overflow to infinity does not occur on the values the code multiplies;
  an out-of-range conversion gives the smallest integer, as on amd64 and arm64.)
\<close>

definition pow2 :: "int \<Rightarrow> rat" where
  "pow2 e = (if 0 \<le> e then 2 ^ nat e else 1 / 2 ^ nat (- e))"

definition round_half_even :: "rat \<Rightarrow> int" where
  "round_half_even x =
     (let f = \<lfloor>x\<rfloor>; d = x - of_int f
      in if d < 1 / 2 then f else if 1 / 2 < d then f + 1 else if even f then f else f + 1)"

text \<open>The exponent of the last of the 53 bits; denormals stop at the smallest one.\<close>

definition float64_ulp :: "rat \<Rightarrow> int" where
  "float64_ulp x = (case quotient_of x of (p, q) \<Rightarrow>
     let k = int (floorlog 2 (nat \<bar>p\<bar>)) - int (floorlog 2 (nat q))
     in max (-1074) ((if pow2 k \<le> \<bar>x\<bar> then k else k - 1) - 52))"

definition float64_round :: "rat \<Rightarrow> rat" where
  "float64_round x = of_int (round_half_even (x / pow2 (float64_ulp x))) * pow2 (float64_ulp x)"

definition rat_trunc :: "rat \<Rightarrow> int" where
  "rat_trunc x = (if 0 \<le> x then \<lfloor>x\<rfloor> else \<lceil>x\<rceil>)"

definition int64_of_float :: "rat \<Rightarrow> duration" where
  "int64_of_float x = (if - (2 ^ 63) \<le> rat_trunc x \<and> rat_trunc x < 2 ^ 63 then word_of_int (rat_trunc x) else - (2 ^ 63))"

lemma pow2_pos: "0 < pow2 e"
  by (simp add: pow2_def)

lemma round_half_even_int [simp]: "round_half_even (of_int n) = n"
  by (simp add: round_half_even_def Let_def)

lemma float64_round_exact:
  assumes "x / pow2 (float64_ulp x) = of_int n"
  shows "float64_round x = x"
proof -
  have "float64_round x = of_int n * pow2 (float64_ulp x)"
    by (simp only: float64_round_def assms round_half_even_int)
  also have "\<dots> = x" using assms pow2_pos [of "float64_ulp x"] by (simp add: field_simps)
  finally show ?thesis .
qed

lemma floorlog_le: "n < 2 ^ k \<Longrightarrow> floorlog 2 n \<le> k"
  by (simp add: floorlog_leI)

text \<open>Integers below two to the 53rd are represented exactly.\<close>

lemma float64_round_int:
  assumes "\<bar>n\<bar> < 2 ^ 53"
  shows "float64_round (of_int n) = of_int n"
proof (rule float64_round_exact)
  let ?e = "float64_ulp (of_int n)"
  have "floorlog 2 (nat \<bar>n\<bar>) \<le> 53" using assms by (intro floorlog_le) (simp add: nat_less_iff)
  moreover have "floorlog 2 1 = 1" by (simp add: floorlog_def)
  ultimately have e: "?e \<le> 0"
    by (auto simp: float64_ulp_def Let_def quotient_of_int split: if_splits)
  have "(of_int n :: rat) / pow2 ?e = of_int (n * 2 ^ nat (- ?e))"
    using e by (cases "?e = 0") (simp_all add: pow2_def)
  then show "(of_int n :: rat) / pow2 ?e = of_int (n * 2 ^ nat (- ?e))" .
qed

lemma int64_of_float_int:
  assumes "\<bar>n\<bar> < 2 ^ 63"
  shows "sint (int64_of_float (of_int n)) = n"
proof -
  have "sint (word_of_int n :: duration) = n"
    unfolding sint_sbintrunc' using assms by (simp add: signed_take_bit_int_eq_self abs_less_iff)
  then show ?thesis using assms by (simp add: int64_of_float_def rat_trunc_def abs_less_iff)
qed

subsection \<open>Order\<close>

lemma pow2_powi: "pow2 e = power_int 2 e"
  by (simp add: pow2_def power_int_def field_simps)

lemma pow2_add: "pow2 (a + b) = pow2 a * pow2 b"
  by (simp add: pow2_powi power_int_add)

lemma pow2_diff: "pow2 (a - b) = pow2 a / pow2 b"
  by (simp add: pow2_powi power_int_diff)

lemma pow2_mono: "a \<le> b \<Longrightarrow> pow2 a \<le> pow2 b"
  by (simp add: pow2_powi power_int_increasing)

lemma pow2_nat: "pow2 (int n) = 2 ^ n"
  by (simp add: pow2_def)

lemma pow2_split: "a \<le> b \<Longrightarrow> pow2 b = of_int (2 ^ nat (b - a)) * pow2 a"
  using pow2_add [of "b - a" a] by (simp add: pow2_def [of "b - a"])

lemma round_half_even_ge: "of_int n \<le> x \<Longrightarrow> n \<le> round_half_even x"
  by (drule le_floor_iff [THEN iffD2]) (auto simp: round_half_even_def Let_def)

lemma round_half_even_le:
  assumes "x \<le> of_int n"
  shows "round_half_even x \<le> n"
proof -
  have "\<lfloor>x\<rfloor> < n \<or> x = of_int n" using assms by (metis floor_less_iff less_le)
  then show ?thesis by (auto simp: round_half_even_def Let_def)
qed

lemma round_half_even_mono: "x \<le> y \<Longrightarrow> round_half_even x \<le> round_half_even y"
proof (cases "\<lfloor>x\<rfloor> = \<lfloor>y\<rfloor>")
  case True
  then show "x \<le> y \<Longrightarrow> ?thesis" by (auto simp: round_half_even_def Let_def)
next
  case False
  assume "x \<le> y"
  then have "\<lfloor>x\<rfloor> + 1 \<le> \<lfloor>y\<rfloor>" using False floor_mono [of x y] by linarith
  moreover have "round_half_even x \<le> \<lfloor>x\<rfloor> + 1" "\<lfloor>y\<rfloor> \<le> round_half_even y"
    by (auto simp: round_half_even_def Let_def)
  ultimately show ?thesis by linarith
qed

text \<open>The exponent of a positive value: 53 bits fit between its last and its first bit.\<close>

lemma float64_ulp_bounds:
  assumes "0 < x"
  shows "float64_ulp x = -1074 \<or> pow2 (float64_ulp x + 52) \<le> x" and "x < pow2 (float64_ulp x + 53)"
    and "-1074 \<le> float64_ulp x"
proof -
  obtain p q where pq: "quotient_of x = (p, q)" by (cases "quotient_of x")
  have q: "0 < q" and x: "x = of_int p / of_int q" using quotient_of_denom_pos [OF pq] quotient_of_div [OF pq] by simp_all
  then have p: "0 < p" using assms by (simp add: zero_less_divide_iff)
  define a b where "a = floorlog 2 (nat p)" and "b = floorlog 2 (nat q)"
  define k where "k = int a - int b"
  define e where "e = (if pow2 k \<le> x then k else k - 1)"
  have ulp: "float64_ulp x = max (-1074) (e - 52)"
    using p q assms by (simp add: float64_ulp_def pq Let_def a_def b_def k_def e_def)
  have "2 ^ (a - 1) \<le> nat p \<and> nat p < 2 ^ a" "2 ^ (b - 1) \<le> nat q \<and> nat q < 2 ^ b"
    using floorlog_bounds [of "nat p" 2] floorlog_bounds [of "nat q" 2] p q by (simp_all add: a_def b_def)
  then have "rat_of_nat (2 ^ (a - 1)) \<le> rat_of_nat (nat p)" "rat_of_nat (nat p) < rat_of_nat (2 ^ a)"
    "rat_of_nat (2 ^ (b - 1)) \<le> rat_of_nat (nat q)" "rat_of_nat (nat q) < rat_of_nat (2 ^ b)"
    by (simp_all only: of_nat_le_iff of_nat_less_iff)
  then have pb: "pow2 (int (a - 1)) \<le> of_int p" "of_int p < pow2 (int a)"
    and qb: "pow2 (int (b - 1)) \<le> of_int q" "of_int q < pow2 (int b)"
    using p q unfolding pow2_nat by (simp_all only: of_nat_power of_nat_numeral of_nat_nat less_imp_le)
  have ab: "1 \<le> a" "1 \<le> b" using p q by (simp_all add: a_def b_def floorlog_def Suc_le_eq)
  have "pow2 (int (a - 1) - int b) \<le> x" unfolding pow2_diff x by (rule frac_le) (use pb qb p q in simp_all)
  moreover have "int (a - 1) - int b = k - 1" using ab by (simp add: k_def)
  ultimately have lower: "pow2 (k - 1) \<le> x" by simp
  have "x < pow2 (int a - int (b - 1))" unfolding pow2_diff x by (rule frac_less) (use pb qb p pow2_pos in simp_all)
  moreover have "int a - int (b - 1) = k + 1" using ab by (simp add: k_def)
  ultimately have upper: "x < pow2 (k + 1)" by simp
  show "-1074 \<le> float64_ulp x" by (simp add: ulp)
  show "float64_ulp x = -1074 \<or> pow2 (float64_ulp x + 52) \<le> x"
    using lower by (auto simp: ulp e_def max_def split: if_splits)
  have "x < pow2 (e + 1)" using upper by (simp add: e_def)
  also have "\<dots> \<le> pow2 (float64_ulp x + 53)" by (rule pow2_mono) (simp add: ulp)
  finally show "x < pow2 (float64_ulp x + 53)" .
qed

lemma float64_round_0 [simp]: "float64_round 0 = 0"
  using float64_round_int [of 0] by simp

lemma float64_round_le_multiple:
  assumes "x \<le> of_int n * pow2 (float64_ulp x)"
  shows "float64_round x \<le> of_int n * pow2 (float64_ulp x)"
proof -
  have "x / pow2 (float64_ulp x) \<le> of_int n" using assms pow2_pos by (simp add: pos_divide_le_eq)
  from round_half_even_le [OF this] show ?thesis
    unfolding float64_round_def by (intro mult_right_mono) (simp_all add: pow2_pos less_imp_le)
qed

lemma float64_round_ge_multiple:
  assumes "of_int n * pow2 (float64_ulp x) \<le> x"
  shows "of_int n * pow2 (float64_ulp x) \<le> float64_round x"
proof -
  have "of_int n \<le> x / pow2 (float64_ulp x)" using assms pow2_pos by (simp add: pos_le_divide_eq)
  from round_half_even_ge [OF this] show ?thesis
    unfolding float64_round_def by (intro mult_right_mono) (simp_all add: pow2_pos less_imp_le)
qed

lemma float64_round_nonneg: "0 \<le> x \<Longrightarrow> 0 \<le> float64_round x"
  using float64_round_ge_multiple [of 0 x] by simp

text \<open>Rounding keeps the order of positive values.\<close>

lemma float64_round_mono:
  assumes "0 \<le> x" and "x \<le> y"
  shows "float64_round x \<le> float64_round y"
proof (cases "x = 0")
  case True
  then show ?thesis using float64_round_nonneg assms by simp
next
  case False
  then have x: "0 < x" and y: "0 < y" using assms by simp_all
  note bx = float64_ulp_bounds [OF x] and by' = float64_ulp_bounds [OF y]
  have le: "float64_ulp x \<le> float64_ulp y"
  proof (rule ccontr)
    assume less: "\<not> float64_ulp x \<le> float64_ulp y"
    then have "pow2 (float64_ulp y + 53) \<le> pow2 (float64_ulp x + 52)" by (intro pow2_mono) simp
    also have "\<dots> \<le> x" using bx(1) less by'(3) by auto
    finally show False using by'(2) assms(2) by simp
  qed
  show ?thesis
  proof (cases "float64_ulp x = float64_ulp y")
    case True
    then have "x / pow2 (float64_ulp x) \<le> y / pow2 (float64_ulp y)"
      using assms(2) pow2_pos by (simp add: divide_right_mono less_imp_le)
    from round_half_even_mono [OF this] show ?thesis
      unfolding float64_round_def True by (intro mult_right_mono) (simp_all add: pow2_pos less_imp_le)
  next
    case False
    then have less: "float64_ulp x < float64_ulp y" using le by simp
    have "pow2 (float64_ulp x + 53) = of_int (2 ^ 53) * pow2 (float64_ulp x)" by (subst add.commute, subst pow2_add) (simp add: pow2_def)
    then have "float64_round x \<le> pow2 (float64_ulp x + 53)"
      using float64_round_le_multiple [of x "2 ^ 53"] bx(2) by simp
    also have "\<dots> \<le> pow2 (float64_ulp y + 52)" using less by (intro pow2_mono) simp
    also have big: "pow2 (float64_ulp y + 52) = of_int (2 ^ 52) * pow2 (float64_ulp y)" by (subst add.commute, subst pow2_add) (simp add: pow2_def)
    also have "\<dots> \<le> float64_round y"
      using float64_round_ge_multiple [of "2 ^ 52" y] by'(1) less bx(3) big by auto
    finally show ?thesis .
  qed
qed

lemma float64_round_one_le: "1 \<le> x \<Longrightarrow> 1 \<le> float64_round x"
  using float64_round_mono [of 1 x] float64_round_int [of 1] by simp

end
