(* ===== verification/Database.thy ===== *)
theory Database
  imports Model
begin

text \<open>
  The schema of \<open>src/migrations/0001_init.sql\<close> and what the driver does with a statement.

  \<open>db\<close> holds the five tables as lists of rows in insertion order. \<open>world\<close> is the state an
  operation of the store runs in: the primary's tables, the tables a read replica shows
  (when one is configured), the open transaction, the clock, and the environment that is
  not part of the repository:
  \<^item> \<open>uuid_gen\<close>, \<open>uuid_next\<close>: the values \<open>gen_random_uuid()\<close> returns;
  \<^item> \<open>uuid_in\<close>: Postgres' text-to-UUID conversion, \<open>None\<close> where it is a syntax error;
  \<^item> \<open>row_locked\<close>: the \<open>job_runs\<close> rows some other transaction holds locked;
  \<^item> \<open>script\<close>: what happens to the next driver calls, each one delivered, lost before it
    reached the server or answered by a reply that never arrived, and how much time passes.
    An empty script is a connection without faults.
\<close>

record db =
  jobs :: "gval job_row list"
  job_dependencies :: "(uid \<times> uid) list"
  job_runs :: "run_row list"
  workers :: "worker list"
  dead_letters :: "dead_letter list"

definition empty_db :: db where
  "empty_db = \<lparr>jobs = [], job_dependencies = [], job_runs = [], workers = [], dead_letters = []\<rparr>"

datatype fault = Delivered | Lost_request | Lost_reply

record world =
  primary :: db
  replica :: "db option"
  tx_saved :: "(db \<times> time) option"
  clock :: time
  uuid_gen :: "nat \<Rightarrow> uid"
  uuid_next :: nat
  uuid_in :: "string \<Rightarrow> uid option"
  row_locked :: "uid \<Rightarrow> bool"
  script :: "(fault \<times> nat) list"

subsection \<open>Driver calls and transactions\<close>

definition deliver :: "world \<Rightarrow> fault \<times> world" where
  "deliver w = (case script w of
     [] \<Rightarrow> (Delivered, w)
   | (flt, dt) # rest \<Rightarrow> (flt, w\<lparr>script := rest, clock := clock w + int dt\<rparr>))"

definition driver_call :: "(world \<Rightarrow> (err + 'a) \<times> world) \<Rightarrow> (world, err + 'a) state" where
  "driver_call stmt = State (\<lambda>w. case deliver w of
     (Delivered, w') \<Rightarrow> stmt w'
   | (Lost_request, w') \<Rightarrow> (Inl ErrConn, w')
   | (Lost_reply, w') \<Rightarrow> (Inl ErrConn, snd (stmt w')))"

text \<open>
  \<open>pool.Begin\<close>: the snapshot is what a rollback restores, its time is \<open>now()\<close> in the whole
  transaction. \<open>tx.Commit\<close> closes the transaction; a lost reply leaves it committed.
  \<open>defer tx.Rollback(ctx)\<close> undoes a transaction that is still open.
\<close>

definition tx_begin :: "(world, err + unit) state" where
  "tx_begin = State (\<lambda>w. case deliver w of
     (Delivered, w') \<Rightarrow> (Inr (), w'\<lparr>tx_saved := Some (primary w', clock w')\<rparr>)
   | (_, w') \<Rightarrow> (Inl ErrConn, w'))"

definition tx_commit :: "(world, err + unit) state" where
  "tx_commit = driver_call (\<lambda>w. (Inr (), w\<lparr>tx_saved := None\<rparr>))"

definition tx_rollback :: "(world, unit) state" where
  "tx_rollback = State (\<lambda>w. ((), case tx_saved w of
     None \<Rightarrow> w
   | Some (d, _) \<Rightarrow> w\<lparr>primary := d, tx_saved := None\<rparr>))"

definition defer_rollback :: "(world, 'a) state \<Rightarrow> (world, 'a) state" where
  "defer_rollback body = do { r \<leftarrow> body; tx_rollback; ret r }"

definition sql_now :: "world \<Rightarrow> time" where
  "sql_now w = (case tx_saved w of None \<Rightarrow> clock w | Some (_, t) \<Rightarrow> t)"

text \<open>Where a query runs: the pool of the primary, the replica's pool, or a transaction.\<close>

datatype querier = OnPool | OnReplica | OnTx

definition querier_db :: "querier \<Rightarrow> world \<Rightarrow> db" where
  "querier_db q w = (case q of
     OnReplica \<Rightarrow> (case replica w of Some d \<Rightarrow> d | None \<Rightarrow> primary w)
   | _ \<Rightarrow> primary w)"

text \<open>A statement with a UUID parameter fails with 22P02 when the text is no UUID.\<close>

definition with_uuid :: "string \<Rightarrow> (uid \<Rightarrow> world \<Rightarrow> (err + 'a) \<times> world) \<Rightarrow> world \<Rightarrow> (err + 'a) \<times> world" where
  "with_uuid s stmt w = (case uuid_in w s of
     None \<Rightarrow> (Inl (PgError ''22P02''), w)
   | Some u \<Rightarrow> stmt u w)"

text \<open>\<open>DEFAULT gen_random_uuid()\<close>\<close>

definition fresh_uuid :: "world \<Rightarrow> uid \<times> world" where
  "fresh_uuid w = (uuid_gen w (uuid_next w), w\<lparr>uuid_next := Suc (uuid_next w)\<rparr>)"

definition write_db :: "(db \<Rightarrow> db) \<Rightarrow> world \<Rightarrow> world" where
  "write_db f w = w\<lparr>primary := f (primary w)\<rparr>"

subsection \<open>Statements that change rows\<close>

text \<open>The columns every INSERT INTO jobs leaves to their defaults are filled in here.\<close>

definition new_job_row :: "uid \<Rightarrow> time \<Rightarrow> new_job_input \<Rightarrow> gval \<Rightarrow> gval job_row" where
  "new_job_row u now i payloadRaw =
     \<lparr>job_ID = u, job_Name = in_Name i, job_Payload = payloadRaw, job_CronExpr = in_CronExpr i,
      job_Priority = in_Priority i, job_MaxAttempts = in_MaxAttempts i,
      job_TimeoutSeconds = in_TimeoutSeconds i, job_Status = JobStatusActive,
      job_IdempotencyKey = in_IdempotencyKey i, job_CreatedAt = now, job_UpdatedAt = now\<rparr>"

definition new_run_row :: "uid \<Rightarrow> time \<Rightarrow> uid \<Rightarrow> int16 \<Rightarrow> time \<Rightarrow> run_row" where
  "new_run_row u now jobID priority scheduledAt =
     \<lparr>run_ID = u, run_JobID = jobID, run_Status = RunStatusPending, run_Attempt = 0,
      run_Priority = priority, run_ScheduledAt = scheduledAt, run_LeasedBy = None,
      run_LeasedAt = None, run_LeaseExpiresAt = None, run_StartedAt = None,
      run_FinishedAt = None, run_Result = None, run_Error = None, run_CreatedAt = now\<rparr>"

text \<open>The constraints of the schema: primary keys, UNIQUE, REFERENCES.\<close>

definition job_insertable :: "gval job_row \<Rightarrow> db \<Rightarrow> bool" where
  "job_insertable row d \<longleftrightarrow>
     (\<forall>r\<in>set (jobs d). job_ID r \<noteq> job_ID row) \<and>
     (job_IdempotencyKey row = None \<or> (\<forall>r\<in>set (jobs d). job_IdempotencyKey r \<noteq> job_IdempotencyKey row))"

definition job_exists :: "uid \<Rightarrow> db \<Rightarrow> bool" where
  "job_exists u d \<longleftrightarrow> u \<in> job_ID ` set (jobs d)"

definition run_exists :: "uid \<Rightarrow> db \<Rightarrow> bool" where
  "run_exists u d \<longleftrightarrow> u \<in> run_ID ` set (job_runs d)"

definition insert_job :: "new_job_input \<Rightarrow> gval \<Rightarrow> (world, err + gval job_row) state" where
  "insert_job i payloadRaw = driver_call (\<lambda>w. case fresh_uuid w of (u, w') \<Rightarrow>
     let row = new_job_row u (sql_now w) i payloadRaw in
     if job_insertable row (primary w')
     then (Inr row, write_db (\<lambda>d. d\<lparr>jobs := jobs d @ [row]\<rparr>) w')
     else (Inl (PgError ''23505''), w'))"

definition insert_dependency :: "uid \<Rightarrow> string \<Rightarrow> (world, err + unit) state" where
  "insert_dependency jobID dep = driver_call (with_uuid dep (\<lambda>u w.
     if (jobID, u) \<in> set (job_dependencies (primary w)) then (Inl (PgError ''23505''), w)
     else if \<not> (job_exists jobID (primary w) \<and> job_exists u (primary w)) then (Inl (PgError ''23503''), w)
     else (Inr (), write_db (\<lambda>d. d\<lparr>job_dependencies := job_dependencies d @ [(jobID, u)]\<rparr>) w)))"

definition insert_run :: "string \<Rightarrow> int16 \<Rightarrow> time \<Rightarrow> (world, err + run_row) state" where
  "insert_run jobID priority scheduledAt = driver_call (with_uuid jobID (\<lambda>j w.
     case fresh_uuid w of (u, w') \<Rightarrow>
     let row = new_run_row u (sql_now w) j priority scheduledAt in
     if run_exists u (primary w') then (Inl (PgError ''23505''), w')
     else if \<not> job_exists j (primary w') then (Inl (PgError ''23503''), w')
     else (Inr row, write_db (\<lambda>d. d\<lparr>job_runs := job_runs d @ [row]\<rparr>) w')))"

definition insert_dead_letter :: "string \<Rightarrow> string \<Rightarrow> gval \<Rightarrow> (world, err + unit) state" where
  "insert_dead_letter runID reason payload = driver_call (with_uuid runID (\<lambda>r w.
     case fresh_uuid w of (u, w') \<Rightarrow>
     if u \<in> dl_ID ` set (dead_letters (primary w')) then (Inl (PgError ''23505''), w')
     else if \<not> run_exists r (primary w') then (Inl (PgError ''23503''), w')
     else (Inr (), write_db (\<lambda>d. d\<lparr>dead_letters := dead_letters d @
       [\<lparr>dl_ID = u, dl_JobRunID = r, dl_Reason = reason, dl_Payload = payload, dl_CreatedAt = sql_now w\<rparr>]\<rparr>) w')))"

text \<open>\<open>UPDATE job_runs SET ... WHERE p\<close>; the result is the number of rows it touched.\<close>

definition update_runs :: "(run_row \<Rightarrow> bool) \<Rightarrow> (run_row \<Rightarrow> run_row) \<Rightarrow> world \<Rightarrow> (err + nat) \<times> world" where
  "update_runs p f w =
     (Inr (rows_affected p (job_runs (primary w))),
      write_db (\<lambda>d. d\<lparr>job_runs := update_where p f (job_runs d)\<rparr>) w)"

definition update_jobs :: "(gval job_row \<Rightarrow> bool) \<Rightarrow> (gval job_row \<Rightarrow> gval job_row) \<Rightarrow> world \<Rightarrow> (err + nat) \<times> world" where
  "update_jobs p f w =
     (Inr (rows_affected p (jobs (primary w))),
      write_db (\<lambda>d. d\<lparr>jobs := update_where p f (jobs d)\<rparr>) w)"

end
