(* ===== verification/Store.thy ===== *)
theory Store
  imports Database "HOL-Library.List_Lexorder" "HOL-Library.Char_ord"
begin

text \<open>
  \<open>PostgresStore\<close> of \<open>src/internal/store/postgres.go\<close>, one definition per method and
  per helper, in the order of the file. Every SQL statement of a method is one driver call,
  so a method can fail between any two of its statements; the \<open>script\<close> of the world says
  where. Reads go through \<open>readPool\<close>. \<open>ORDER BY\<close> is a stable sort of the rows in insertion
  order, which fixes the order of rows with equal keys that SQL leaves open.
\<close>

subsection \<open>Rows to structs\<close>

definition wrap_err :: "string \<Rightarrow> err + 'a \<Rightarrow> err + 'a" where
  "wrap_err msg r = (case r of Inl e \<Rightarrow> Inl (ErrWrap msg e) | Inr x \<Rightarrow> Inr x)"

lemma wrap_err_simps [simp]: "wrap_err msg (Inl e) = Inl (ErrWrap msg e)" "wrap_err msg (Inr x) = Inr x"
  by (simp_all add: wrap_err_def)

definition job_of_row :: "gval job_row \<Rightarrow> gomap \<Rightarrow> uid list \<Rightarrow> job" where
  "job_of_row r payload deps =
     \<lparr>job_ID = job_ID r, job_Name = job_Name r, job_Payload = payload, job_CronExpr = job_CronExpr r,
      job_Priority = job_Priority r, job_MaxAttempts = job_MaxAttempts r,
      job_TimeoutSeconds = job_TimeoutSeconds r, job_Status = job_Status r,
      job_IdempotencyKey = job_IdempotencyKey r, job_CreatedAt = job_CreatedAt r,
      job_UpdatedAt = job_UpdatedAt r, job_DependsOn = deps\<rparr>"

definition run_of_row :: "run_row \<Rightarrow> gomap \<Rightarrow> JobRun" where
  "run_of_row r res =
     \<lparr>run_ID = run_ID r, run_JobID = run_JobID r, run_Status = run_Status r,
      run_Attempt = run_Attempt r, run_Priority = run_Priority r, run_ScheduledAt = run_ScheduledAt r,
      run_LeasedBy = run_LeasedBy r, run_LeasedAt = run_LeasedAt r,
      run_LeaseExpiresAt = run_LeaseExpiresAt r, run_StartedAt = run_StartedAt r,
      run_FinishedAt = run_FinishedAt r, run_Result = res, run_Error = run_Error r,
      run_CreatedAt = run_CreatedAt r\<rparr>"

definition readPool :: "world \<Rightarrow> querier" where
  "readPool w = (if replica w \<noteq> None then OnReplica else OnPool)"

definition on_readPool :: "(querier \<Rightarrow> (world, 'a) state) \<Rightarrow> (world, 'a) state" where
  "on_readPool m = do { w \<leftarrow> State_Monad.get; m (readPool w) }"

text \<open>\<open>QueryRow(...).Scan(...)\<close>: the first row of the result, or \<open>pgx.ErrNoRows\<close>.\<close>

definition row_result :: "'a option \<Rightarrow> err + 'a" where
  "row_result r = (case r of None \<Rightarrow> Inl ErrNoRows | Some x \<Rightarrow> Inr x)"

definition fetchDependencies :: "querier \<Rightarrow> string \<Rightarrow> (world, err + uid list) state" where
  "fetchDependencies q jobID = driver_call (with_uuid jobID (\<lambda>u w.
     (Inr (map snd (filter (\<lambda>e. fst e = u) (job_dependencies (querier_db q w)))), w)))"

definition scanJobRow :: "querier \<Rightarrow> (world, err + gval job_row) state \<Rightarrow> (world, err + job) state" where
  "scanJobRow q row =
     check_err row (\<lambda>r.
     check_err (lift_result (wrap_err ''unmarshal payload'' (json_Unmarshal (job_Payload r)))) (\<lambda>payload.
     check_err (fetchDependencies q (job_ID r)) (\<lambda>deps.
     ok (job_of_row r payload deps))))"

definition fetchJob :: "querier \<Rightarrow> string \<Rightarrow> (world, err + job) state" where
  "fetchJob q jobID = scanJobRow q (driver_call (with_uuid jobID (\<lambda>u w.
     (row_result (List.find (\<lambda>r. job_ID r = u) (jobs (querier_db q w))), w))))"

definition fetchJobByIdempotencyKey :: "querier \<Rightarrow> string \<Rightarrow> (world, err + job) state" where
  "fetchJobByIdempotencyKey q key = scanJobRow q (driver_call (\<lambda>w.
     (row_result (List.find (\<lambda>r. job_IdempotencyKey r = Some key) (jobs (querier_db q w))), w)))"

definition scanRun :: "run_row \<Rightarrow> err + JobRun" where
  "scanRun r = (case run_Result r of
     None \<Rightarrow> Inr (run_of_row r None)
   | Some raw \<Rightarrow> (case json_Unmarshal raw of
       Inl e \<Rightarrow> Inl (ErrWrap ''unmarshal result'' e)
     | Inr m \<Rightarrow> Inr (run_of_row r m)))"

definition scanRunRow :: "(world, err + run_row) state \<Rightarrow> (world, err + JobRun) state" where
  "scanRunRow row = check_err row (\<lambda>r. lift_result (scanRun r))"

definition fetchRun :: "querier \<Rightarrow> string \<Rightarrow> (world, err + JobRun) state" where
  "fetchRun q runID = scanRunRow (driver_call (with_uuid runID (\<lambda>u w.
     (row_result (List.find (\<lambda>r. run_ID r = u) (job_runs (querier_db q w))), w))))"

subsection \<open>Jobs\<close>

definition CreateJob :: "new_job_input \<Rightarrow> (world, err + job) state" where
  "CreateJob i =
     check_err (lift_result (wrap_err ''marshal payload'' (json_Marshal (in_Payload i)))) (\<lambda>payloadRaw.
     check_err tx_begin (\<lambda>_. defer_rollback (do {
       r \<leftarrow> insert_job i payloadRaw;
       case r of
         Inl e \<Rightarrow> if errors_As_PgError e = Some ''23505'' then fail ErrIdempotencyConflict
                  else fail (ErrWrap ''insert job'' e)
       | Inr row \<Rightarrow>
           check_err (lift_result (wrap_err ''unmarshal payload'' (json_Unmarshal (job_Payload row)))) (\<lambda>payload.
           check_err (for_each_err (\<lambda>dep. do {
               d \<leftarrow> insert_dependency (job_ID row) dep;
               ret (wrap_err ''insert dependency'' d) }) (in_DependsOn i)) (\<lambda>_.
           check_err tx_commit (\<lambda>_.
           ok (job_of_row row payload (in_DependsOn i)))))
     })))"

definition not_found :: "(world, err + 'a) state \<Rightarrow> (world, err + 'a) state" where
  \<comment> \<open>\<open>if errors.Is(err, pgx.ErrNoRows) { return nil, ErrNotFound }; return nil, err\<close>\<close>
  "not_found m = do { r \<leftarrow> m; case r of
     Inl e \<Rightarrow> if errors_Is e ErrNoRows then fail ErrNotFound else fail e
   | Inr x \<Rightarrow> ok x }"

definition GetJob :: "string \<Rightarrow> (world, err + job) state" where
  "GetJob jobID = on_readPool (\<lambda>q. not_found (fetchJob q jobID))"

definition GetJobByIdempotencyKey :: "string \<Rightarrow> (world, err + job) state" where
  "GetJobByIdempotencyKey key = on_readPool (\<lambda>q. not_found (fetchJobByIdempotencyKey q key))"

text \<open>\<open>LIMIT\<close> and \<open>OFFSET\<close>; a negative value is an error of the server.\<close>

definition limit_offset :: "int \<Rightarrow> int \<Rightarrow> 'a list \<Rightarrow> err + 'a list" where
  "limit_offset limit offset xs =
     (if limit < 0 then Inl (PgError ''2201W'')
      else if offset < 0 then Inl (PgError ''2201X'')
      else Inr (take (nat limit) (drop (nat offset) xs)))"

definition select_jobs :: "job_status option \<Rightarrow> db \<Rightarrow> gval job_row list" where
  "select_jobs status d = sort_key (\<lambda>r. - job_CreatedAt r)
     (filter (\<lambda>r. case status of None \<Rightarrow> True | Some s \<Rightarrow> job_Status r = s) (jobs d))"

definition ListJobs :: "job_status option \<Rightarrow> int \<Rightarrow> int \<Rightarrow> (world, err + job list) state" where
  "ListJobs status limit offset = on_readPool (\<lambda>q.
     check_err (driver_call (\<lambda>w. (limit_offset limit offset (select_jobs status (querier_db q w)), w))) (\<lambda>rows.
     check_err (for_each_err (\<lambda>r. lift_result (case json_Unmarshal (job_Payload r) of
         Inl e \<Rightarrow> Inl (ErrWrap ''unmarshal payload'' e)
       | Inr p \<Rightarrow> Inr (r, p))) rows) (\<lambda>scanned.
     for_each_err (\<lambda>(r, p). check_err (fetchDependencies q (job_ID r)) (\<lambda>deps.
       ok (job_of_row r p deps))) scanned)))"

definition affected_or_not_found :: "(world, err + nat) state \<Rightarrow> (world, err + unit) state" where
  \<comment> \<open>\<open>if tag.RowsAffected() == 0 { return ErrNotFound }; return nil\<close>\<close>
  "affected_or_not_found m = check_err m (\<lambda>n. if n = 0 then fail ErrNotFound else ok ())"

definition UpdateJobStatus :: "string \<Rightarrow> job_status \<Rightarrow> (world, err + unit) state" where
  "UpdateJobStatus jobID status = affected_or_not_found (driver_call (with_uuid jobID (\<lambda>u w.
     update_jobs (\<lambda>r. job_ID r = u) (\<lambda>r. r\<lparr>job_Status := status, job_UpdatedAt := sql_now w\<rparr>) w)))"

definition ListDependencies :: "string \<Rightarrow> (world, err + uid list) state" where
  "ListDependencies jobID = on_readPool (\<lambda>q. fetchDependencies q jobID)"

subsection \<open>Runs: promotion\<close>

definition latest_run :: "uid \<Rightarrow> db \<Rightarrow> run_row option" where
  "latest_run j d = first_by (\<lambda>r. - run_CreatedAt r) (filter (\<lambda>r. run_JobID r = j) (job_runs d))"

definition LatestRunForJob :: "string \<Rightarrow> (world, err + JobRun) state" where
  "LatestRunForJob jobID = on_readPool (\<lambda>q. not_found (scanRunRow (driver_call (with_uuid jobID (\<lambda>u w.
     (row_result (latest_run u (querier_db q w)), w))))))"

definition has_active_run :: "uid \<Rightarrow> db \<Rightarrow> bool" where
  "has_active_run j d = list_ex (\<lambda>r. run_JobID r = j \<and> active_status (run_Status r)) (job_runs d)"

definition HasActiveRun :: "string \<Rightarrow> (world, err + bool) state" where
  "HasActiveRun jobID = on_readPool (\<lambda>q. driver_call (with_uuid jobID (\<lambda>u w.
     (Inr (has_active_run u (querier_db q w)), w))))"

definition CreateRun :: "string \<Rightarrow> int16 \<Rightarrow> time \<Rightarrow> (world, err + JobRun) state" where
  "CreateRun jobID priority scheduledAt = scanRunRow (insert_run jobID priority scheduledAt)"

subsection \<open>Runs: the lease lifecycle\<close>

text \<open>
  The candidate of \<open>SELECT ... WHERE status = 'pending' AND scheduled_at <= now() ORDER BY
  priority DESC, scheduled_at ASC LIMIT 1 FOR UPDATE SKIP LOCKED\<close>.
\<close>

definition lease_candidate :: "time \<Rightarrow> (uid \<Rightarrow> bool) \<Rightarrow> db \<Rightarrow> run_row option" where
  "lease_candidate now locked d = first_by queue_key_of
     (filter (\<lambda>r. run_Status r = RunStatusPending \<and> run_ScheduledAt r \<le> now \<and> \<not> locked (run_ID r)) (job_runs d))"

definition lease_row :: "string \<Rightarrow> duration \<Rightarrow> time \<Rightarrow> run_row \<Rightarrow> run_row" where
  "lease_row workerID leaseDuration now r = r\<lparr>run_Status := RunStatusLeased, run_LeasedBy := Some workerID,
     run_LeasedAt := Some now, run_LeaseExpiresAt := Some (now + sint leaseDuration), run_Attempt := run_Attempt r + 1\<rparr>"

text \<open>
  \<open>attempt = attempt + 1\<close> on a SMALLINT: the statement fails with 22003 where the sum
  would leave the 16 bits.
\<close>

definition update_lease :: "string \<Rightarrow> string \<Rightarrow> duration \<Rightarrow> (world, err + nat) state" where
  "update_lease runID workerID leaseDuration = driver_call (with_uuid runID (\<lambda>u w.
     if list_ex (\<lambda>r. run_ID r = u \<and> sint (run_Attempt r) = 32767) (job_runs (primary w))
     then (Inl (PgError ''22003''), w)
     else update_runs (\<lambda>r. run_ID r = u) (lease_row workerID leaseDuration (sql_now w)) w))"

definition LeaseNextRun :: "string \<Rightarrow> duration \<Rightarrow> (world, err + (JobRun \<times> job) option) state" where
  "LeaseNextRun workerID leaseDuration =
     check_err tx_begin (\<lambda>_. defer_rollback (do {
       sel \<leftarrow> driver_call (\<lambda>w. (row_result (map_option (\<lambda>r. (run_ID r, run_JobID r))
                (lease_candidate (sql_now w) (row_locked w) (primary w))), w));
       case sel of
         Inl e \<Rightarrow> if errors_Is e ErrNoRows then ok None else fail e
       | Inr (runID, jobID) \<Rightarrow>
           check_err (update_lease runID workerID leaseDuration) (\<lambda>_.
           check_err (fetchRun OnTx runID) (\<lambda>run.
           check_err (fetchJob OnTx jobID) (\<lambda>job.
           check_err tx_commit (\<lambda>_.
           ok (Some (run, job))))))
     }))"

definition ExtendLease :: "string \<Rightarrow> string \<Rightarrow> duration \<Rightarrow> (world, err + unit) state" where
  "ExtendLease runID workerID ext = affected_or_not_found (driver_call (with_uuid runID (\<lambda>u w.
     update_runs (\<lambda>r. run_ID r = u \<and> run_LeasedBy r = Some workerID)
       (\<lambda>r. r\<lparr>run_LeaseExpiresAt := Some (sql_now w + sint ext)\<rparr>) w)))"

definition mark_running_row :: "time \<Rightarrow> run_row \<Rightarrow> run_row" where
  "mark_running_row now r = r\<lparr>run_Status := RunStatusRunning, run_StartedAt := Some now\<rparr>"

definition MarkRunning :: "string \<Rightarrow> (world, err + unit) state" where
  "MarkRunning runID = affected_or_not_found (driver_call (with_uuid runID (\<lambda>u w.
     update_runs (\<lambda>r. run_ID r = u) (mark_running_row (sql_now w)) w)))"

definition complete_row :: "gval \<Rightarrow> time \<Rightarrow> run_row \<Rightarrow> run_row" where
  "complete_row raw now r = r\<lparr>run_Status := RunStatusSucceeded, run_FinishedAt := Some now, run_Result := Some raw\<rparr>"

definition CompleteRun :: "string \<Rightarrow> gomap \<Rightarrow> (world, err + unit) state" where
  "CompleteRun runID result =
     check_err (lift_result (wrap_err ''marshal result'' (json_Marshal result))) (\<lambda>raw.
     affected_or_not_found (driver_call (with_uuid runID (\<lambda>u w.
       update_runs (\<lambda>r. run_ID r = u) (complete_row raw (sql_now w)) w))))"

definition requeue_row :: "duration \<Rightarrow> string \<Rightarrow> time \<Rightarrow> run_row \<Rightarrow> run_row" where
  "requeue_row backoff errMsg now r = r\<lparr>run_Status := RunStatusPending, run_ScheduledAt := now + sint backoff,
     run_Error := Some errMsg, run_LeasedBy := None, run_LeasedAt := None, run_LeaseExpiresAt := None\<rparr>"

definition fail_row :: "string \<Rightarrow> time \<Rightarrow> run_row \<Rightarrow> run_row" where
  "fail_row errMsg now r = r\<lparr>run_Status := RunStatusFailed, run_FinishedAt := Some now, run_Error := Some errMsg\<rparr>"

definition FailRun :: "string \<Rightarrow> string \<Rightarrow> bool \<Rightarrow> duration \<Rightarrow> (world, err + unit) state" where
  "FailRun runID errMsg requeue backoff = affected_or_not_found (driver_call (with_uuid runID (\<lambda>u w.
     if requeue then update_runs (\<lambda>r. run_ID r = u) (requeue_row backoff errMsg (sql_now w)) w
     else update_runs (\<lambda>r. run_ID r = u) (fail_row errMsg (sql_now w)) w)))"

text \<open>The dead letter's payload: \<open>{"result": run.Result, "error": run.Error}\<close>.\<close>

definition dead_letter_payload :: "JobRun \<Rightarrow> gomap" where
  "dead_letter_payload run = Some
     [(''result'', case run_Result run of None \<Rightarrow> GNil | Some kvs \<Rightarrow> GObj kvs),
      (''error'', case run_Error run of None \<Rightarrow> GNil | Some m \<Rightarrow> GStr m)]"

definition MarkDead :: "string \<Rightarrow> string \<Rightarrow> (world, err + unit) state" where
  "MarkDead runID reason =
     check_err tx_begin (\<lambda>_. defer_rollback (
       check_err (not_found (fetchRun OnTx runID)) (\<lambda>run.
       check_err (lift_result (wrap_err ''marshal dead letter payload'' (json_Marshal (dead_letter_payload run)))) (\<lambda>payloadRaw.
       check_err (insert_dead_letter runID reason payloadRaw) (\<lambda>_.
       check_err (driver_call (with_uuid runID (\<lambda>u.
         update_runs (\<lambda>r. run_ID r = u) (\<lambda>r. r\<lparr>run_Status := RunStatusDead\<rparr>)))) (\<lambda>_.
       tx_commit))))))"

definition lease_expired :: "time \<Rightarrow> run_row \<Rightarrow> bool" where
  "lease_expired now r \<longleftrightarrow> run_Status r \<in> {RunStatusLeased, RunStatusRunning} \<and>
     (case run_LeaseExpiresAt r of None \<Rightarrow> False | Some t \<Rightarrow> t < now)"

definition reclaim_row :: "run_row \<Rightarrow> run_row" where
  "reclaim_row r = r\<lparr>run_Status := RunStatusPending, run_LeasedBy := None, run_LeasedAt := None,
     run_LeaseExpiresAt := None\<rparr>"

definition ReclaimExpiredLeases :: "(world, err + nat) state" where
  "ReclaimExpiredLeases = driver_call (\<lambda>w. update_runs (lease_expired (sql_now w)) reclaim_row w)"

definition GetRun :: "string \<Rightarrow> (world, err + JobRun) state" where
  "GetRun runID = on_readPool (\<lambda>q. not_found (fetchRun q runID))"

definition select_runs :: "uid \<Rightarrow> db \<Rightarrow> run_row list" where
  "select_runs j d = sort_key (\<lambda>r. - run_CreatedAt r) (filter (\<lambda>r. run_JobID r = j) (job_runs d))"

definition ListJobRuns :: "string \<Rightarrow> int \<Rightarrow> (world, err + JobRun list) state" where
  "ListJobRuns jobID limit = on_readPool (\<lambda>q.
     check_err (driver_call (with_uuid jobID (\<lambda>u w. (limit_offset limit 0 (select_runs u (querier_db q w)), w)))) (\<lambda>rows.
     for_each_err (\<lambda>r. lift_result (scanRun r)) rows))"

definition pending_runs :: "db \<Rightarrow> nat" where
  "pending_runs d = length (filter (\<lambda>r. run_Status r = RunStatusPending) (job_runs d))"

definition CountPendingRuns :: "(world, err + nat) state" where
  "CountPendingRuns = on_readPool (\<lambda>q. driver_call (\<lambda>w. (Inr (pending_runs (querier_db q w)), w)))"

subsection \<open>Workers\<close>

definition upsert_worker :: "string \<Rightarrow> string \<Rightarrow> time \<Rightarrow> worker list \<Rightarrow> worker list" where
  "upsert_worker workerID hostname now ws =
     (if list_ex (\<lambda>x. worker_ID x = workerID) ws
      then update_where (\<lambda>x. worker_ID x = workerID)
        (\<lambda>x. x\<lparr>worker_Hostname := hostname, worker_LastHeartbeat := now, worker_Status := WorkerStatusAlive\<rparr>) ws
      else ws @ [\<lparr>worker_ID = workerID, worker_Hostname = hostname, worker_Status = WorkerStatusAlive,
                  worker_LastHeartbeat = now, worker_StartedAt = now\<rparr>])"

definition UpsertWorkerHeartbeat :: "string \<Rightarrow> string \<Rightarrow> (world, err + unit) state" where
  "UpsertWorkerHeartbeat workerID hostname = driver_call (\<lambda>w.
     (Inr (), write_db (\<lambda>d. d\<lparr>workers := upsert_worker workerID hostname (sql_now w) (workers d)\<rparr>) w))"

definition ListWorkers :: "(world, err + worker list) state" where
  "ListWorkers = on_readPool (\<lambda>q. driver_call (\<lambda>w. (Inr (sort_key worker_ID (workers (querier_db q w))), w)))"

end
