(* ===== verification/Store_Laws.thy ===== *)
theory Store_Laws
  imports Store
begin

text \<open>
  What every operation of the store keeps, under every pattern of lost requests and
  replies. \<open>table_invariant\<close> is the interface between the statements and the
  predicates on the tables: a predicate that each kind of statement keeps is kept by every
  operation of the store, also by one that fails half way and is rolled back. It extends
  \<open>run_table_invariant\<close>, the part of the contract that every operation but \<open>CreateJob\<close> needs,
  and is interpreted on the schema's integrity, the identifiers and the growth of the history.
\<close>

subsection \<open>Invariants through driver calls and transactions\<close>

text \<open>
  \<open>P n d\<close> speaks of the tables \<open>d\<close> when \<open>n\<close> identifiers have been generated; \<open>both\<close> asks
  for it of the primary and of the snapshot an open transaction would restore.
\<close>

definition both :: "(nat \<Rightarrow> uid) \<Rightarrow> (nat \<Rightarrow> db \<Rightarrow> bool) \<Rightarrow> world \<Rightarrow> bool" where
  "both gen P w \<longleftrightarrow> uuid_gen w = gen \<and> P (uuid_next w) (primary w) \<and>
     (case tx_saved w of None \<Rightarrow> True | Some (d, _) \<Rightarrow> P (uuid_next w) d)"

abbreviation keeps :: "('s \<Rightarrow> bool) \<Rightarrow> ('s, 'a) state \<Rightarrow> bool" where
  "keeps I \<equiv> io_rel (\<lambda>s t. I s \<longrightarrow> I t)"

interpretation keep: io_preorder "\<lambda>s t. I s \<longrightarrow> I t" for I :: "'s \<Rightarrow> bool"
  by unfold_locales auto

declare keep.io_body [io_rules]

lemma keepsD: "keeps I m \<Longrightarrow> run_state m s = (a, s') \<Longrightarrow> I s \<Longrightarrow> I s'"
  using io_relD by fastforce

lemma keeps_snd: "keeps I m \<Longrightarrow> I s \<Longrightarrow> I (snd (run_state m s))"
  by (simp add: io_rel_def)

lemma deliver_fields:
  assumes "deliver w = (flt, w')"
  shows "primary w' = primary w" "tx_saved w' = tx_saved w" "replica w' = replica w"
    "uuid_gen w' = uuid_gen w" "uuid_next w' = uuid_next w" "uuid_in w' = uuid_in w"
    "row_locked w' = row_locked w" "clock w \<le> clock w'"
  using assms by (auto simp: deliver_def split: list.splits)

lemma both_deliver: "deliver w = (flt, w') \<Longrightarrow> both gen P w' = both gen P w"
  by (auto simp: both_def deliver_fields split: option.splits)

lemma keeps_driver_call:
  assumes "\<And>w. both gen P w \<Longrightarrow> both gen P (snd (stmt w))"
  shows "keeps (both gen P) (driver_call stmt)"
proof (rule io_relI)
  fix w
  show "both gen P w \<longrightarrow> both gen P (snd (run_state (driver_call stmt) w))"
    using assms by (auto simp: driver_call_def both_deliver split: prod.splits fault.splits)
qed

lemma keeps_read: "(\<And>w. snd (stmt w) = w) \<Longrightarrow> keeps (both gen P) (driver_call stmt)"
  by (rule keeps_driver_call) simp

lemma keeps_with_uuid:
  assumes "\<And>u w. both gen P w \<Longrightarrow> both gen P (snd (stmt u w))"
  shows "keeps (both gen P) (driver_call (with_uuid s stmt))"
  by (rule keeps_driver_call) (auto simp: with_uuid_def assms split: option.splits)

lemma keeps_tx_begin [io_rules]: "keeps (both gen P) tx_begin"
  by (rule io_relI) (auto simp: tx_begin_def both_def deliver_fields split: prod.splits fault.splits option.splits)

lemma keeps_tx_commit [io_rules]: "keeps (both gen P) tx_commit"
  unfolding tx_commit_def by (rule keeps_driver_call) (auto simp: both_def split: option.splits)

lemma keeps_tx_rollback [io_rules]: "keeps (both gen P) tx_rollback"
  by (rule io_relI) (auto simp: tx_rollback_def both_def split: option.splits)

lemma keeps_defer_rollback [io_rules]: "keeps (both gen P) m \<Longrightarrow> keeps (both gen P) (defer_rollback m)"
  unfolding defer_rollback_def by (intro io_rules)

subsection \<open>The interface between statements and invariants\<close>

text \<open>A JSONB column holds what \<open>json.Marshal\<close> wrote into it.\<close>

definition json_column :: "gval \<Rightarrow> bool" where
  "json_column v \<longleftrightarrow> v = GNil \<or> (case v of GObj kvs \<Rightarrow> marshalable v | _ \<Rightarrow> False)"

text \<open>
  The contract of every \<open>UPDATE job_runs\<close> of the store: a run keeps its identity, its job
  and its creation time, its result is written by \<open>json.Marshal\<close>, and its attempt counter
  stays or grows by one without leaving the 16 bits.
\<close>

definition run_change :: "run_row \<Rightarrow> run_row \<Rightarrow> bool" where
  "run_change r r' \<longleftrightarrow> run_ID r' = run_ID r \<and> run_JobID r' = run_JobID r \<and>
     run_CreatedAt r' = run_CreatedAt r \<and> run_Priority r' = run_Priority r \<and>
     (run_Result r' = run_Result r \<or> (\<exists>v. run_Result r' = Some v \<and> json_column v)) \<and>
     (run_Attempt r' = run_Attempt r \<or> sint (run_Attempt r) < 32767 \<and> run_Attempt r' = run_Attempt r + 1)"

definition job_change :: "gval job_row \<Rightarrow> gval job_row \<Rightarrow> bool" where
  "job_change r r' \<longleftrightarrow> (\<exists>s t. r' = r\<lparr>job_Status := s, job_UpdatedAt := t\<rparr>)"

lemma json_Marshal_column: "json_Marshal m = Inr v \<Longrightarrow> json_column v"
  by (auto simp: json_Marshal_def json_column_def split: option.splits if_splits)

lemma json_column_Unmarshal: "json_column v \<Longrightarrow> \<exists>m. json_Unmarshal v = Inr m \<and> json_Marshal m = Inr v"
  by (auto simp: json_column_def json_Unmarshal_def json_Marshal_def split: gval.splits)

lemma sint_attempt_le: "sint (a::int16) \<le> 32767"
  using sint_lt [of a] by simp

lemma sint_attempt_Suc: "sint (a::int16) < 32767 \<Longrightarrow> sint (a + 1) = sint a + 1"
  using sint_ge [of a] by (simp add: sint_word_ariths signed_take_bit_int_eq_self)

lemma job_changeI: "job_change r (r\<lparr>job_Status := s, job_UpdatedAt := t\<rparr>)"
  unfolding job_change_def by blast

lemma run_change_refl: "run_change r r"
  by (simp add: run_change_def)

lemma run_change_rows [simp]:
  "sint (run_Attempt r) \<noteq> 32767 \<Longrightarrow> run_change r (lease_row x ld t r)"
  "run_change r (mark_running_row t r)"
  "json_column v \<Longrightarrow> run_change r (complete_row v t r)"
  "run_change r (requeue_row bo m t r)"
  "run_change r (fail_row m t r)"
  "run_change r (reclaim_row r)"
  "run_change r (r\<lparr>run_Status := st\<rparr>)"
  "run_change r (r\<lparr>run_LeaseExpiresAt := le\<rparr>)"
  using sint_attempt_le [of "run_Attempt r"]
  by (auto simp: run_change_def lease_row_def mark_running_row_def complete_row_def requeue_row_def
      fail_row_def reclaim_row_def)

locale run_table_invariant =
  fixes gen :: "nat \<Rightarrow> uid" and P :: "nat \<Rightarrow> db \<Rightarrow> bool"
  assumes P_later: "P n d \<Longrightarrow> P (Suc n) d"
    and P_insert_run: "P n d \<Longrightarrow> \<not> run_exists (gen n) d \<Longrightarrow> job_exists j d \<Longrightarrow>
        P (Suc n) (d\<lparr>job_runs := job_runs d @ [new_run_row (gen n) t j p sch]\<rparr>)"
    and P_update_jobs: "P n d \<Longrightarrow> (\<And>r. job_change r (f r)) \<Longrightarrow> P n (d\<lparr>jobs := update_where p' f (jobs d)\<rparr>)"
    and P_update_runs: "P n d \<Longrightarrow> (\<And>r. r \<in> set (job_runs d) \<Longrightarrow> q r \<Longrightarrow> run_change r (g r)) \<Longrightarrow>
        P n (d\<lparr>job_runs := update_where q g (job_runs d)\<rparr>)"
    and P_insert_dead_letter: "P n d \<Longrightarrow> dl_ID l \<notin> dl_ID ` set (dead_letters d) \<Longrightarrow> run_exists (dl_JobRunID l) d \<Longrightarrow>
        dl_ID l = gen n \<Longrightarrow> P (Suc n) (d\<lparr>dead_letters := dead_letters d @ [l]\<rparr>)"
    and P_upsert_worker: "P n d \<Longrightarrow> P n (d\<lparr>workers := upsert_worker x h t (workers d)\<rparr>)"
begin

lemma both_write_db:
  "both gen P w \<Longrightarrow> P (uuid_next w) (f (primary w)) \<Longrightarrow> both gen P (write_db f w)"
  by (auto simp: both_def write_db_def split: option.splits)

lemma both_primary: "both gen P w \<Longrightarrow> P (uuid_next w) (primary w)"
  by (simp add: both_def)

lemma both_gen: "both gen P w \<Longrightarrow> uuid_gen w = gen"
  by (simp add: both_def)

lemma both_fresh: "both gen P w \<Longrightarrow> both gen P (w\<lparr>uuid_next := Suc (uuid_next w)\<rparr>)"
  by (auto simp: both_def intro: P_later split: option.splits)

text \<open>A statement that draws a fresh identifier and writes a row under it.\<close>

lemma both_write_fresh:
  "both gen P w \<Longrightarrow> P (Suc (uuid_next w)) (f (primary w)) \<Longrightarrow>
     both gen P (write_db f (w\<lparr>uuid_next := Suc (uuid_next w)\<rparr>))"
  by (rule both_write_db) (simp_all add: both_fresh)

lemma both_update_runs:
  assumes "both gen P w" and "\<And>r. r \<in> set (job_runs (primary w)) \<Longrightarrow> q r \<Longrightarrow> run_change r (g r)"
  shows "both gen P (snd (update_runs q g w))"
  using assms by (auto simp: update_runs_def intro!: both_write_db P_update_runs dest: both_primary)

lemma keeps_insert_run: "keeps (both gen P) (insert_run j p sch)"
  unfolding insert_run_def
  by (rule keeps_with_uuid)
     (auto simp: fresh_uuid_def Let_def both_fresh both_gen intro!: both_write_fresh P_insert_run dest: both_primary)

lemma keeps_insert_dead_letter: "keeps (both gen P) (insert_dead_letter r reason v)"
  unfolding insert_dead_letter_def
  by (rule keeps_with_uuid)
     (auto simp: fresh_uuid_def both_fresh both_gen intro!: both_write_fresh P_insert_dead_letter dest: both_primary)

lemma keeps_update_runs:
  assumes "\<And>u w r. r \<in> set (job_runs (primary w)) \<Longrightarrow> q u w r \<Longrightarrow> run_change r (g u w r)"
  shows "keeps (both gen P) (driver_call (with_uuid s (\<lambda>u w. update_runs (q u w) (g u w) w)))"
  by (rule keeps_with_uuid) (auto intro!: both_update_runs assms)

lemma keeps_fetch [io_rules]:
  "keeps (both gen P) (fetchDependencies q j)" "keeps (both gen P) (fetchJob q j)"
  "keeps (both gen P) (fetchJobByIdempotencyKey q key)" "keeps (both gen P) (fetchRun q r)"
  unfolding fetchDependencies_def fetchJob_def fetchJobByIdempotencyKey_def fetchRun_def scanJobRow_def
    scanRunRow_def
  by (intro io_rules keeps_with_uuid keeps_read; simp)+

lemma keeps_get [io_rules]: "keeps (both gen P) State_Monad.get"
  by (rule io_relI) simp

lemma keeps_on_readPool [io_rules]: "(\<And>q. keeps (both gen P) (m q)) \<Longrightarrow> keeps (both gen P) (on_readPool m)"
  unfolding on_readPool_def by (intro io_rules)

lemma keeps_not_found [io_rules]: "keeps (both gen P) m \<Longrightarrow> keeps (both gen P) (not_found m)"
  unfolding not_found_def by (intro io_rules)

lemma keeps_affected [io_rules]: "keeps (both gen P) m \<Longrightarrow> keeps (both gen P) (affected_or_not_found m)"
  unfolding affected_or_not_found_def by (intro io_rules)

lemma keeps_reads:
  "keeps (both gen P) (GetJob j)" "keeps (both gen P) (GetJobByIdempotencyKey key)"
  "keeps (both gen P) (ListJobs st l off)" "keeps (both gen P) (ListDependencies j)"
  "keeps (both gen P) (LatestRunForJob j)" "keeps (both gen P) (HasActiveRun j)"
  "keeps (both gen P) (GetRun r)" "keeps (both gen P) (ListJobRuns j l)"
  "keeps (both gen P) CountPendingRuns" "keeps (both gen P) ListWorkers"
  unfolding GetJob_def GetJobByIdempotencyKey_def ListJobs_def ListDependencies_def LatestRunForJob_def
    HasActiveRun_def GetRun_def ListJobRuns_def CountPendingRuns_def ListWorkers_def scanRunRow_def
  by (intro io_rules keeps_with_uuid keeps_read; simp)+

lemma keeps_UpdateJobStatus: "keeps (both gen P) (UpdateJobStatus j s)"
  unfolding UpdateJobStatus_def
  by (intro io_rules keeps_with_uuid)
     (auto simp: update_jobs_def job_changeI intro!: both_write_db P_update_jobs dest: both_primary)

lemma keeps_CreateRun: "keeps (both gen P) (CreateRun j p sch)"
  unfolding CreateRun_def scanRunRow_def by (intro io_rules keeps_insert_run)

lemma keeps_update_lease: "keeps (both gen P) (update_lease r x ld)"
  unfolding update_lease_def
  by (rule keeps_with_uuid) (auto simp: list_ex_iff intro!: both_update_runs)

lemma keeps_LeaseNextRun: "keeps (both gen P) (LeaseNextRun x ld)"
  unfolding LeaseNextRun_def by (intro io_rules keeps_update_lease keeps_read) simp

lemma keeps_CompleteRun: "keeps (both gen P) (CompleteRun r result)"
proof (cases "json_Marshal result")
  case (Inl e)
  then show ?thesis by (simp add: CompleteRun_def wrap_err_def lift_result_def io_rules)
next
  case (Inr v)
  then have "json_column v" by (rule json_Marshal_column)
  with Inr show ?thesis
    unfolding CompleteRun_def wrap_err_def lift_result_def
    by (simp) (intro io_rules keeps_update_runs; simp)
qed

lemma keeps_run_updates:
  "keeps (both gen P) (ExtendLease r x d)" "keeps (both gen P) (MarkRunning r)"
  "keeps (both gen P) (FailRun r m rq bo)" "keeps (both gen P) (MarkDead r reason)"
  "keeps (both gen P) ReclaimExpiredLeases"
  unfolding ExtendLease_def MarkRunning_def FailRun_def MarkDead_def ReclaimExpiredLeases_def
  by (intro io_rules keeps_with_uuid keeps_driver_call keeps_insert_dead_letter;
      auto intro!: both_update_runs)+

lemma keeps_UpsertWorkerHeartbeat: "keeps (both gen P) (UpsertWorkerHeartbeat x h)"
  unfolding UpsertWorkerHeartbeat_def
  by (rule keeps_driver_call) (auto intro!: both_write_db P_upsert_worker dest: both_primary)

lemmas keeps_all_but_CreateJob = keeps_reads keeps_UpdateJobStatus keeps_CreateRun
  keeps_LeaseNextRun keeps_CompleteRun keeps_run_updates keeps_UpsertWorkerHeartbeat

end

text \<open>With the two statements that only \<open>CreateJob\<close> issues.\<close>

locale table_invariant = run_table_invariant +
  assumes P_insert_job: "P n d \<Longrightarrow> job_insertable row d \<Longrightarrow> json_column (job_Payload row) \<Longrightarrow> job_ID row = gen n \<Longrightarrow>
        P (Suc n) (d\<lparr>jobs := jobs d @ [row]\<rparr>)"
    and P_insert_dependency: "P n d \<Longrightarrow> (j, u) \<notin> set (job_dependencies d) \<Longrightarrow> job_exists j d \<Longrightarrow> job_exists u d \<Longrightarrow>
        P n (d\<lparr>job_dependencies := job_dependencies d @ [(j, u)]\<rparr>)"
begin

lemma keeps_insert_job:
  assumes "json_column v"
  shows "keeps (both gen P) (insert_job i v)"
  unfolding insert_job_def
  by (rule keeps_driver_call)
     (auto simp: fresh_uuid_def Let_def both_fresh new_job_row_def both_gen assms
        intro!: both_write_fresh P_insert_job dest: both_primary)

lemma keeps_insert_dependency: "keeps (both gen P) (insert_dependency j dep)"
  unfolding insert_dependency_def
  by (rule keeps_with_uuid) (auto intro!: both_write_db P_insert_dependency dest: both_primary)

lemma keeps_CreateJob: "keeps (both gen P) (CreateJob i)"
proof (cases "json_Marshal (in_Payload i)")
  case (Inl e)
  then show ?thesis by (simp add: CreateJob_def wrap_err_def lift_result_def io_rules)
next
  case (Inr v)
  then have "json_column v" by (rule json_Marshal_column)
  with Inr show ?thesis
    unfolding CreateJob_def wrap_err_def lift_result_def
    by (simp) (intro io_rules keeps_insert_job keeps_insert_dependency)
qed

lemmas keeps_store = keeps_CreateJob keeps_all_but_CreateJob

end

subsection \<open>Integrity of the schema\<close>

definition integrity :: "db \<Rightarrow> bool" where
  "integrity d \<longleftrightarrow>
     distinct (map job_ID (jobs d)) \<and>
     distinct (filter (\<lambda>k. k \<noteq> None) (map job_IdempotencyKey (jobs d))) \<and>
     (\<forall>r\<in>set (jobs d). json_column (job_Payload r)) \<and>
     distinct (job_dependencies d) \<and>
     (\<forall>(j, u)\<in>set (job_dependencies d). job_exists j d \<and> job_exists u d) \<and>
     distinct (map run_ID (job_runs d)) \<and>
     (\<forall>r\<in>set (job_runs d). job_exists (run_JobID r) d \<and> 0 \<le> sint (run_Attempt r) \<and>
        (\<forall>v. run_Result r = Some v \<longrightarrow> json_column v)) \<and>
     distinct (map worker_ID (workers d)) \<and>
     distinct (map dl_ID (dead_letters d)) \<and>
     (\<forall>l\<in>set (dead_letters d). run_exists (dl_JobRunID l) d)"

lemma integrity_jobs: "integrity d \<Longrightarrow> distinct (map job_ID (jobs d))"
  and integrity_runs: "integrity d \<Longrightarrow> distinct (map run_ID (job_runs d))"
  and integrity_deps: "integrity d \<Longrightarrow> (j, u) \<in> set (job_dependencies d) \<Longrightarrow> job_exists j d \<and> job_exists u d"
  and integrity_payload: "integrity d \<Longrightarrow> r \<in> set (jobs d) \<Longrightarrow> json_column (job_Payload r)"
  and integrity_run: "integrity d \<Longrightarrow> x \<in> set (job_runs d) \<Longrightarrow>
      job_exists (run_JobID x) d \<and> 0 \<le> sint (run_Attempt x) \<and> (\<forall>v. run_Result x = Some v \<longrightarrow> json_column v)"
  by (auto simp: integrity_def)

lemma exists_updates [simp]:
  "job_exists u (d\<lparr>job_dependencies := x1\<rparr>) = job_exists u d" "job_exists u (d\<lparr>job_runs := x2\<rparr>) = job_exists u d"
  "job_exists u (d\<lparr>workers := x3\<rparr>) = job_exists u d" "job_exists u (d\<lparr>dead_letters := x4\<rparr>) = job_exists u d"
  "run_exists u (d\<lparr>job_dependencies := x1\<rparr>) = run_exists u d" "run_exists u (d\<lparr>jobs := x5\<rparr>) = run_exists u d"
  "run_exists u (d\<lparr>workers := x3\<rparr>) = run_exists u d" "run_exists u (d\<lparr>dead_letters := x4\<rparr>) = run_exists u d"
  by (simp_all add: job_exists_def run_exists_def)

lemma exists_append [simp]:
  "job_exists u (d\<lparr>jobs := jobs d @ [row]\<rparr>) \<longleftrightarrow> job_exists u d \<or> u = job_ID row"
  "run_exists u (d\<lparr>job_runs := job_runs d @ [x]\<rparr>) \<longleftrightarrow> run_exists u d \<or> u = run_ID x"
  by (auto simp: job_exists_def run_exists_def)

lemma job_change_fields:
  "job_change r r' \<Longrightarrow> job_ID r' = job_ID r \<and> job_IdempotencyKey r' = job_IdempotencyKey r \<and>
     job_Payload r' = job_Payload r \<and> job_CreatedAt r' = job_CreatedAt r"
  by (auto simp: job_change_def)

lemma job_exists_update_where:
  "(\<And>r. job_change r (f r)) \<Longrightarrow> job_exists u (d\<lparr>jobs := update_where p f (jobs d)\<rparr>) = job_exists u d"
proof -
  assume change: "\<And>r. job_change r (f r)"
  have "map job_ID (update_where p f (jobs d)) = map job_ID (jobs d)"
    by (rule map_update_where) (simp add: change job_change_fields)
  then have "job_ID ` set (update_where p f (jobs d)) = job_ID ` set (jobs d)"
    by (metis list.set_map)
  then show ?thesis by (simp add: job_exists_def)
qed

lemma run_exists_update_where:
  assumes "\<And>r. r \<in> set (job_runs d) \<Longrightarrow> q r \<Longrightarrow> run_ID (g r) = run_ID r"
  shows "run_exists u (d\<lparr>job_runs := update_where q g (job_runs d)\<rparr>) = run_exists u d"
proof -
  have "map run_ID (update_where q g (job_runs d)) = map run_ID (job_runs d)"
    by (rule map_update_where) (rule assms)
  then have "run_ID ` set (update_where q g (job_runs d)) = run_ID ` set (job_runs d)"
    by (metis list.set_map)
  then show ?thesis by (simp add: run_exists_def)
qed

lemma run_change_attempt:
  "run_change r r' \<Longrightarrow> sint (run_Attempt r) \<le> sint (run_Attempt r')"
  by (auto simp: run_change_def sint_attempt_Suc)

lemma integrity_insert_job:
  assumes "integrity d" and "job_insertable row d" and "json_column (job_Payload row)"
  shows "integrity (d\<lparr>jobs := jobs d @ [row]\<rparr>)"
  using assms unfolding integrity_def job_insertable_def
  by (cases "job_IdempotencyKey row") (auto simp: image_iff)

lemma integrity_insert_run:
  assumes "integrity d" and "\<not> run_exists u d" and "job_exists j d"
  shows "integrity (d\<lparr>job_runs := job_runs d @ [new_run_row u t j p sch]\<rparr>)"
proof -
  have "u \<notin> run_ID ` set (job_runs d)" using assms(2) by (simp add: run_exists_def)
  then show ?thesis using assms unfolding integrity_def by (auto simp: new_run_row_def)
qed

lemma integrity_update_jobs:
  assumes "integrity d" and change: "\<And>r. job_change r (f r)"
  shows "integrity (d\<lparr>jobs := update_where p f (jobs d)\<rparr>)"
proof -
  have same: "job_ID (f r) = job_ID r" "job_IdempotencyKey (f r) = job_IdempotencyKey r"
    "job_Payload (f r) = job_Payload r" for r
    using change [of r] by (auto dest: job_change_fields)
  have "map job_ID (update_where p f (jobs d)) = map job_ID (jobs d)"
    "map job_IdempotencyKey (update_where p f (jobs d)) = map job_IdempotencyKey (jobs d)"
    by (simp_all add: map_update_where same)
  then show ?thesis using assms(1) unfolding integrity_def
    by (auto simp: job_exists_update_where [OF change] in_update_where same)
qed

lemma integrity_update_runs:
  assumes "integrity d" and change: "\<And>r. r \<in> set (job_runs d) \<Longrightarrow> q r \<Longrightarrow> run_change r (g r)"
  shows "integrity (d\<lparr>job_runs := update_where q g (job_runs d)\<rparr>)"
proof -
  have ids: "map run_ID (update_where q g (job_runs d)) = map run_ID (job_runs d)"
    by (rule map_update_where) (use change in \<open>simp add: run_change_def\<close>)
  have row: "job_exists (run_JobID x) d \<and> 0 \<le> sint (run_Attempt x) \<and> (\<forall>v. run_Result x = Some v \<longrightarrow> json_column v)"
    if "x \<in> set (update_where q g (job_runs d))" for x
  proof -
    from that obtain r where r: "r \<in> set (job_runs d)" and x: "x = (if q r then g r else r)"
      by (auto simp: in_update_where)
    have rc: "run_change r x" using change [OF r] x by (simp add: run_change_refl)
    moreover note integrity_run [OF assms(1) r] run_change_attempt [OF rc]
    ultimately show ?thesis by (force simp: run_change_def)
  qed
  have "run_exists u (d\<lparr>job_runs := update_where q g (job_runs d)\<rparr>) = run_exists u d" for u
    by (rule run_exists_update_where) (use change in \<open>simp add: run_change_def\<close>)
  with assms(1) ids row show ?thesis unfolding integrity_def by simp
qed

lemma upsert_worker_ids:
  "map worker_ID (upsert_worker x h n ws) =
     (if x \<in> worker_ID ` set ws then map worker_ID ws else map worker_ID ws @ [x])"
proof -
  have "map worker_ID (update_where (\<lambda>y. worker_ID y = x)
      (\<lambda>y. y\<lparr>worker_Hostname := h, worker_LastHeartbeat := n, worker_Status := WorkerStatusAlive\<rparr>) ws) =
      map worker_ID ws"
    by (rule map_update_where) simp
  then show ?thesis by (auto simp: upsert_worker_def list_ex_iff)
qed

interpretation schema: table_invariant gen "\<lambda>_. integrity" for gen
proof unfold_locales
  fix d :: db and j u assume "integrity d" "(j, u) \<notin> set (job_dependencies d)" "job_exists j d" "job_exists u d"
  then show "integrity (d\<lparr>job_dependencies := job_dependencies d @ [(j, u)]\<rparr>)"
    unfolding integrity_def by auto
next
  fix d :: db and l :: dead_letter assume "integrity d" "dl_ID l \<notin> dl_ID ` set (dead_letters d)" "run_exists (dl_JobRunID l) d"
  then show "integrity (d\<lparr>dead_letters := dead_letters d @ [l]\<rparr>)"
    unfolding integrity_def by auto
next
  fix d :: db and x h and n :: time assume "integrity d"
  then show "integrity (d\<lparr>workers := upsert_worker x h n (workers d)\<rparr>)"
    unfolding integrity_def by (auto simp: upsert_worker_ids)
qed (simp_all add: integrity_insert_job integrity_insert_run integrity_update_jobs integrity_update_runs)

end
