(* ===== verification/Store_History.thy ===== *)
theory Store_History
  imports Store_Laws
begin

text \<open>
  Sequences of store operations. \<open>store_step\<close> is one call of any method of
  \<open>PostgresStore\<close> by any service, under any faults, or a step of the environment (time
  passes, the replica catches up, rows get locked and unlocked, connections break or heal).
  The invariants of \<open>Store_Laws\<close> hold of every state such a sequence reaches.
\<close>

subsection \<open>No operation leaves a transaction open\<close>

abbreviation tx_closed :: "world \<Rightarrow> bool" where
  "tx_closed w \<equiv> tx_saved w = None"

lemma closed_driver_call:
  assumes "\<And>w. tx_saved (snd (stmt w)) = tx_saved w"
  shows "keeps tx_closed (driver_call stmt)"
  by (rule io_relI) (auto simp: driver_call_def assms deliver_fields split: prod.splits fault.splits)

lemma tx_saved_stmts [simp]:
  "tx_saved (write_db f w) = tx_saved w"
  "tx_saved (snd (update_runs p g w)) = tx_saved w"
  "tx_saved (snd (update_jobs p' g' w)) = tx_saved w"
  by (simp_all add: write_db_def update_runs_def update_jobs_def)

lemma closed_uuid_call:
  "(\<And>u w. tx_saved (snd (stmt u w)) = tx_saved w) \<Longrightarrow> keeps tx_closed (driver_call (with_uuid s stmt))"
  by (rule closed_driver_call) (simp add: with_uuid_def split: option.splits)

text \<open>The rest of a function after \<open>Begin\<close> is closed by the deferred rollback.\<close>

lemma closed_transaction: "keeps tx_closed (check_err tx_begin (\<lambda>_. defer_rollback m))"
  by (rule io_relI)
     (auto simp: run_check_err tx_begin_def defer_rollback_def tx_rollback_def deliver_fields
        split: prod.splits fault.splits option.splits)

lemma closed_get: "keeps tx_closed State_Monad.get"
  by (rule io_relI) simp

lemmas closed_rules = keep.io_body closed_get closed_transaction closed_uuid_call closed_driver_call

lemma closed_store:
  "keeps tx_closed (CreateJob i)" "keeps tx_closed (GetJob j)" "keeps tx_closed (GetJobByIdempotencyKey key)"
  "keeps tx_closed (ListJobs st l off)" "keeps tx_closed (UpdateJobStatus j s)"
  "keeps tx_closed (ListDependencies j)" "keeps tx_closed (LatestRunForJob j)" "keeps tx_closed (HasActiveRun j)"
  "keeps tx_closed (CreateRun j p sch)" "keeps tx_closed (LeaseNextRun x ld)" "keeps tx_closed (ExtendLease r x d)"
  "keeps tx_closed (MarkRunning r)" "keeps tx_closed (CompleteRun r result)" "keeps tx_closed (FailRun r m rq bo)"
  "keeps tx_closed (MarkDead r reason)" "keeps tx_closed ReclaimExpiredLeases" "keeps tx_closed (GetRun r)"
  "keeps tx_closed (ListJobRuns j l)" "keeps tx_closed CountPendingRuns"
  "keeps tx_closed (UpsertWorkerHeartbeat x h)" "keeps tx_closed ListWorkers"
  unfolding CreateJob_def LeaseNextRun_def MarkDead_def GetJob_def GetJobByIdempotencyKey_def ListJobs_def
    UpdateJobStatus_def ListDependencies_def LatestRunForJob_def HasActiveRun_def CreateRun_def ExtendLease_def
    MarkRunning_def CompleteRun_def FailRun_def ReclaimExpiredLeases_def GetRun_def ListJobRuns_def
    CountPendingRuns_def UpsertWorkerHeartbeat_def ListWorkers_def on_readPool_def not_found_def
    affected_or_not_found_def fetchJob_def fetchJobByIdempotencyKey_def fetchRun_def fetchDependencies_def
    scanJobRow_def scanRunRow_def insert_run_def
  by (intro closed_rules; auto simp: fresh_uuid_def Let_def)+

subsection \<open>Identifiers\<close>

definition ids_issued :: "(nat \<Rightarrow> uid) \<Rightarrow> nat \<Rightarrow> db \<Rightarrow> bool" where
  "ids_issued gen n d \<longleftrightarrow> (\<forall>u. job_exists u d \<or> run_exists u d \<or> u \<in> dl_ID ` set (dead_letters d) \<longrightarrow>
     u \<in> gen ` {..<n})"

interpretation ids: table_invariant gen "ids_issued gen" for gen
proof unfold_locales
  fix n and d :: db and f p' assume "ids_issued gen n d" "\<And>r. job_change r (f r)"
  then show "ids_issued gen n (d\<lparr>jobs := update_where p' f (jobs d)\<rparr>)"
    by (simp add: ids_issued_def job_exists_update_where)
next
  fix n and d :: db and q g
  assume "ids_issued gen n d" and change: "\<And>r. r \<in> set (job_runs d) \<Longrightarrow> q r \<Longrightarrow> run_change r (g r)"
  moreover have "run_exists u (d\<lparr>job_runs := update_where q g (job_runs d)\<rparr>) = run_exists u d" for u
    by (rule run_exists_update_where) (use change in \<open>simp add: run_change_def\<close>)
  ultimately show "ids_issued gen n (d\<lparr>job_runs := update_where q g (job_runs d)\<rparr>)"
    by (simp add: ids_issued_def)
qed (auto simp: ids_issued_def new_run_row_def less_Suc_eq)

subsection \<open>Growth of the history\<close>

definition run_later :: "run_row \<Rightarrow> run_row \<Rightarrow> bool" where
  "run_later r r' \<longleftrightarrow> run_ID r' = run_ID r \<and> run_JobID r' = run_JobID r \<and> run_CreatedAt r' = run_CreatedAt r \<and>
     run_Priority r' = run_Priority r \<and> sint (run_Attempt r) \<le> sint (run_Attempt r')"

definition job_later :: "gval job_row \<Rightarrow> gval job_row \<Rightarrow> bool" where
  "job_later r r' \<longleftrightarrow> (\<exists>s t. r' = r\<lparr>job_Status := s, job_UpdatedAt := t\<rparr>)"

definition grows_by :: "('a \<Rightarrow> 'a \<Rightarrow> bool) \<Rightarrow> 'a list \<Rightarrow> 'a list \<Rightarrow> bool" where
  "grows_by R xs ys \<longleftrightarrow> length xs \<le> length ys \<and> (\<forall>i<length xs. R (xs ! i) (ys ! i))"

definition grows :: "db \<Rightarrow> db \<Rightarrow> bool" where
  "grows d0 d \<longleftrightarrow> grows_by job_later (jobs d0) (jobs d) \<and> grows_by run_later (job_runs d0) (job_runs d) \<and>
     grows_by (=) (job_dependencies d0) (job_dependencies d) \<and> grows_by (=) (dead_letters d0) (dead_letters d)"

lemma grows_by_append: "grows_by R xs ys \<Longrightarrow> grows_by R xs (ys @ [z])"
  by (auto simp: grows_by_def nth_append)

lemma grows_by_update_where:
  assumes "grows_by R xs ys" and "\<And>x y. y \<in> set ys \<Longrightarrow> p y \<Longrightarrow> R x y \<Longrightarrow> R x (f y)"
  shows "grows_by R xs (update_where p f ys)"
  using assms by (auto simp: grows_by_def update_where_def)

lemma grows_by_refl: "(\<And>x. R x x) \<Longrightarrow> grows_by R xs xs"
  by (simp add: grows_by_def)

lemma run_later_refl: "run_later r r"
  by (simp add: run_later_def)

lemma job_later_refl: "job_later r r"
  unfolding job_later_def by (rule exI [of _ "job_Status r"], rule exI [of _ "job_UpdatedAt r"]) simp

lemma grows_refl: "grows d d"
  by (simp add: grows_def grows_by_refl run_later_refl job_later_refl)

lemma run_later_change:
  assumes "run_later r0 r" and "run_change r r'"
  shows "run_later r0 r'"
  using assms run_change_attempt [OF assms(2)] by (auto simp: run_later_def run_change_def)

lemma job_later_change:
  assumes "job_later r0 r" and "job_change r r'"
  shows "job_later r0 r'"
proof -
  from assms obtain s t s' t' where "r' = r0\<lparr>job_Status := s, job_UpdatedAt := t\<rparr>\<lparr>job_Status := s', job_UpdatedAt := t'\<rparr>"
    by (auto simp: job_later_def job_change_def)
  then have "r' = r0\<lparr>job_Status := s', job_UpdatedAt := t'\<rparr>" by simp
  then show ?thesis unfolding job_later_def by blast
qed

interpretation history: table_invariant gen "\<lambda>_. grows d0" for gen d0
  by unfold_locales
     (auto simp: grows_def intro: grows_by_append intro!: grows_by_update_where
        elim: run_later_change job_later_change)

subsection \<open>Sequences of operations\<close>

inductive store_step :: "world \<Rightarrow> world \<Rightarrow> bool" where
  create_job: "store_step w (snd (run_state (CreateJob i) w))"
| get_job: "store_step w (snd (run_state (GetJob j) w))"
| get_job_by_key: "store_step w (snd (run_state (GetJobByIdempotencyKey key) w))"
| list_jobs: "store_step w (snd (run_state (ListJobs st l off) w))"
| update_job_status: "store_step w (snd (run_state (UpdateJobStatus j s) w))"
| list_dependencies: "store_step w (snd (run_state (ListDependencies j) w))"
| latest_run_for_job: "store_step w (snd (run_state (LatestRunForJob j) w))"
| has_active: "store_step w (snd (run_state (HasActiveRun j) w))"
| create_run: "store_step w (snd (run_state (CreateRun j p sch) w))"
| lease_next_run: "store_step w (snd (run_state (LeaseNextRun x ld) w))"
| extend_lease: "store_step w (snd (run_state (ExtendLease r x ext) w))"
| mark_running: "store_step w (snd (run_state (MarkRunning r) w))"
| complete_run: "store_step w (snd (run_state (CompleteRun r res) w))"
| fail_run: "store_step w (snd (run_state (FailRun r m rq bo) w))"
| mark_dead: "store_step w (snd (run_state (MarkDead r reason) w))"
| reclaim: "store_step w (snd (run_state ReclaimExpiredLeases w))"
| get_run: "store_step w (snd (run_state (GetRun r) w))"
| list_job_runs: "store_step w (snd (run_state (ListJobRuns j l) w))"
| count_pending: "store_step w (snd (run_state CountPendingRuns w))"
| heartbeat: "store_step w (snd (run_state (UpsertWorkerHeartbeat x h) w))"
| list_workers: "store_step w (snd (run_state ListWorkers w))"
| environment: "clock w \<le> c \<Longrightarrow> store_step w (w\<lparr>clock := c, script := scr, row_locked := lk\<rparr>)"
| replication: "store_step w (w\<lparr>replica := Some (primary w)\<rparr>)"

abbreviation store_steps :: "world \<Rightarrow> world \<Rightarrow> bool" where
  "store_steps \<equiv> store_step\<^sup>*\<^sup>*"

lemma one_store_step: "store_step w w' \<Longrightarrow> store_steps w w'"
  by (rule r_into_rtranclp)

context table_invariant
begin

lemma step_keeps: "store_step w w' \<Longrightarrow> both gen P w \<Longrightarrow> both gen P w'"
proof (induction rule: store_step.induct)
  case (environment w c scr lk)
  then show ?case by (auto simp: both_def split: option.splits)
next
  case (replication w)
  then show ?case by (auto simp: both_def split: option.splits)
qed (rule keeps_snd, rule keeps_store, assumption)+

lemma steps_keep: "store_steps w w' \<Longrightarrow> both gen P w \<Longrightarrow> both gen P w'"
  by (induction rule: rtranclp_induct) (auto intro: step_keeps)

end

lemma step_closed: "store_step w w' \<Longrightarrow> tx_closed w \<Longrightarrow> tx_closed w'"
proof (induction rule: store_step.induct)
  case (environment w c scr lk)
  then show ?case by simp
next
  case (replication w)
  then show ?case by simp
qed (rule keeps_snd, rule closed_store, assumption)+

lemma steps_closed: "store_steps w w' \<Longrightarrow> tx_closed w \<Longrightarrow> tx_closed w'"
  by (induction rule: rtranclp_induct) (auto intro: step_closed)

lemma both_closed: "tx_closed w \<Longrightarrow> both gen P w \<longleftrightarrow> uuid_gen w = gen \<and> P (uuid_next w) (primary w)"
  by (simp add: both_def)

lemma steps_grow:
  assumes "store_steps w w'" and "tx_closed w"
  shows "grows (primary w) (primary w')"
proof -
  have "both (uuid_gen w) (\<lambda>_. grows (primary w)) w"
    using assms(2) by (simp add: both_closed grows_refl)
  then have "both (uuid_gen w) (\<lambda>_. grows (primary w)) w'"
    by (rule history.steps_keep [OF assms(1)])
  then show ?thesis by (simp add: both_def)
qed

lemma integrity_empty: "integrity empty_db"
  by (simp add: integrity_def empty_db_def)

end
