(* ===== verification/Store_Spec.thy ===== *)
theory Store_Spec
  imports Store_History
begin

text \<open>
  What each operation of the store returns and does when no request or reply is lost.
  \<open>good\<close> collects what the operations rely on: a well-formed primary without a replica, and
  what Postgres documents of UUIDs (\<open>gen_random_uuid()\<close> does not repeat itself, and the text of
  a generated UUID is read back as that UUID). \<open>wf_world\<close> is the part of it that needs neither
  a connection without faults nor the absence of a replica. Every operation keeps both.
\<close>

subsection \<open>What no operation touches\<close>

definition env_frame :: "world \<Rightarrow> world \<Rightarrow> bool" where
  "env_frame w w' \<longleftrightarrow> uuid_gen w' = uuid_gen w \<and> uuid_in w' = uuid_in w \<and> replica w' = replica w \<and>
     row_locked w' = row_locked w \<and> clock w \<le> clock w' \<and> uuid_next w \<le> uuid_next w' \<and>
     (script w = [] \<longrightarrow> script w' = [] \<and> clock w' = clock w)"

interpretation frame: io_preorder env_frame
  by unfold_locales (auto simp: env_frame_def)

lemma frame_driver_call:
  assumes "\<And>w. env_frame w (snd (stmt w))"
  shows "io_rel env_frame (driver_call stmt)"
proof (rule io_relI)
  fix w
  obtain flt w' where dl: "deliver w = (flt, w')" by (cases "deliver w")
  then have "env_frame w w'"
    by (auto simp: env_frame_def deliver_def split: list.splits)
  then show "env_frame w (snd (run_state (driver_call stmt) w))"
    using assms frame.R_trans by (auto simp: driver_call_def dl split: fault.splits)
qed

lemma frame_tx: "io_rel env_frame tx_begin" "io_rel env_frame tx_rollback"
  by (rule io_relI; auto simp: tx_begin_def tx_rollback_def env_frame_def deliver_def
        split: prod.splits fault.splits option.splits list.splits)+

lemma frame_get: "io_rel env_frame State_Monad.get"
  by (rule io_relI) (simp add: frame.R_refl)

lemma frame_stmts [simp]:
  "env_frame w w" "env_frame w (w\<lparr>tx_saved := t\<rparr>)" "env_frame w (write_db f w)"
  "env_frame w (snd (update_runs p g w))" "env_frame w (snd (update_jobs p' g' w))"
  "env_frame w (w\<lparr>uuid_next := Suc (uuid_next w)\<rparr>)"
  "env_frame w (write_db f (w\<lparr>uuid_next := Suc (uuid_next w)\<rparr>))"
  by (simp_all add: env_frame_def write_db_def update_runs_def update_jobs_def)

lemma frame_uuid_call:
  "(\<And>u w. env_frame w (snd (stmt u w))) \<Longrightarrow> io_rel env_frame (driver_call (with_uuid s stmt))"
  by (rule frame_driver_call) (simp add: with_uuid_def split: option.splits)

lemmas frame_rules = frame.io_body frame_get frame_tx frame_uuid_call frame_driver_call

lemma frame_reads:
  "io_rel env_frame (GetJob j)" "io_rel env_frame (GetJobByIdempotencyKey key)"
  "io_rel env_frame (ListJobs st l off)" "io_rel env_frame (ListDependencies j)"
  "io_rel env_frame (LatestRunForJob j)" "io_rel env_frame (HasActiveRun j)" "io_rel env_frame (GetRun r)"
  "io_rel env_frame (ListJobRuns j l)" "io_rel env_frame CountPendingRuns" "io_rel env_frame ListWorkers"
  unfolding GetJob_def GetJobByIdempotencyKey_def ListJobs_def ListDependencies_def LatestRunForJob_def
    HasActiveRun_def GetRun_def ListJobRuns_def CountPendingRuns_def ListWorkers_def on_readPool_def not_found_def
    fetchJob_def fetchJobByIdempotencyKey_def fetchRun_def fetchDependencies_def scanJobRow_def scanRunRow_def
  by (intro frame_rules; simp)+

lemma frame_writes:
  "io_rel env_frame (UpdateJobStatus j s)" "io_rel env_frame (ExtendLease r x d)"
  "io_rel env_frame (MarkRunning r)" "io_rel env_frame (CompleteRun r result)" "io_rel env_frame (FailRun r m rq bo)"
  "io_rel env_frame ReclaimExpiredLeases" "io_rel env_frame (UpsertWorkerHeartbeat x h)"
  unfolding UpdateJobStatus_def ExtendLease_def MarkRunning_def CompleteRun_def FailRun_def
    ReclaimExpiredLeases_def UpsertWorkerHeartbeat_def affected_or_not_found_def
  by (intro frame_rules; simp)+

lemma frame_CreateRun: "io_rel env_frame (CreateRun j p sch)"
  unfolding CreateRun_def scanRunRow_def insert_run_def
  by (intro frame_rules; simp add: fresh_uuid_def Let_def)

lemma frame_transactions:
  "io_rel env_frame (CreateJob i)" "io_rel env_frame (LeaseNextRun x ld)" "io_rel env_frame (MarkDead r reason)"
  unfolding CreateJob_def LeaseNextRun_def MarkDead_def not_found_def fetchJob_def fetchRun_def fetchDependencies_def
    scanJobRow_def scanRunRow_def insert_job_def insert_dependency_def insert_dead_letter_def
    update_lease_def defer_rollback_def tx_commit_def
  by (intro frame_rules; simp add: fresh_uuid_def Let_def)+

lemmas frame_store = frame_reads frame_writes frame_CreateRun frame_transactions

subsection \<open>Well-formed states without faults\<close>

definition wf_world :: "world \<Rightarrow> bool" where
  "wf_world w \<longleftrightarrow> tx_closed w \<and> integrity (primary w) \<and> ids_issued (uuid_gen w) (uuid_next w) (primary w) \<and>
     inj (uuid_gen w) \<and> (\<forall>n. uuid_in w (uuid_gen w n) = Some (uuid_gen w n))"

definition good :: "world \<Rightarrow> bool" where
  "good w \<longleftrightarrow> script w = [] \<and> replica w = None \<and> wf_world w"

lemma wf_kept:
  assumes "wf_world w" and "run_state m w = (r, w')" and "io_rel env_frame m" and "keeps tx_closed m"
    and "\<And>gen. keeps (both gen (\<lambda>_. integrity)) m" and "\<And>gen. keeps (both gen (ids_issued gen)) m"
  shows "wf_world w'"
proof -
  have "both (uuid_gen w) (\<lambda>_. integrity) w \<and> both (uuid_gen w) (ids_issued (uuid_gen w)) w"
    using assms(1) by (simp add: wf_world_def both_def)
  then have "both (uuid_gen w) (\<lambda>_. integrity) w'" and "both (uuid_gen w) (ids_issued (uuid_gen w)) w'"
    using keepsD [OF assms(5) assms(2)] keepsD [OF assms(6) assms(2)] by simp_all
  moreover have "tx_closed w'"
    using assms(1) keepsD [OF assms(4,2)] by (simp add: wf_world_def)
  moreover have "env_frame w w'"
    by (rule io_relD [OF assms(3,2)])
  ultimately show ?thesis
    using assms(1) by (simp add: wf_world_def both_def env_frame_def)
qed

lemma wf_store:
  "wf_world w \<Longrightarrow> run_state (CreateJob i) w = (r1, w') \<Longrightarrow> wf_world w'"
  "wf_world w \<Longrightarrow> run_state (UpdateJobStatus j s) w = (r2, w') \<Longrightarrow> wf_world w'"
  "wf_world w \<Longrightarrow> run_state (CreateRun j p sch) w = (r3, w') \<Longrightarrow> wf_world w'"
  "wf_world w \<Longrightarrow> run_state (LeaseNextRun x ld) w = (r4, w') \<Longrightarrow> wf_world w'"
  "wf_world w \<Longrightarrow> run_state (ExtendLease run x d) w = (r5, w') \<Longrightarrow> wf_world w'"
  "wf_world w \<Longrightarrow> run_state (MarkRunning run) w = (r6, w') \<Longrightarrow> wf_world w'"
  "wf_world w \<Longrightarrow> run_state (CompleteRun run res) w = (r7, w') \<Longrightarrow> wf_world w'"
  "wf_world w \<Longrightarrow> run_state (FailRun run m rq bo) w = (r8, w') \<Longrightarrow> wf_world w'"
  "wf_world w \<Longrightarrow> run_state (MarkDead run reason) w = (r9, w') \<Longrightarrow> wf_world w'"
  "wf_world w \<Longrightarrow> run_state ReclaimExpiredLeases w = (r10, w') \<Longrightarrow> wf_world w'"
  "wf_world w \<Longrightarrow> run_state (UpsertWorkerHeartbeat x h) w = (r11, w') \<Longrightarrow> wf_world w'"
  "wf_world w \<Longrightarrow> run_state (HasActiveRun j) w = (r12, w') \<Longrightarrow> wf_world w'"
  "wf_world w \<Longrightarrow> run_state (GetJob j) w = (r13, w') \<Longrightarrow> wf_world w'"
  "wf_world w \<Longrightarrow> run_state (GetRun run) w = (r14, w') \<Longrightarrow> wf_world w'"
  by (erule (1) wf_kept; rule frame_store closed_store schema.keeps_store ids.keeps_store)+

lemma good_kept:
  assumes "good w" and "run_state m w = (r, w')" and "io_rel env_frame m" and "keeps tx_closed m"
    and "\<And>gen. keeps (both gen (\<lambda>_. integrity)) m" and "\<And>gen. keeps (both gen (ids_issued gen)) m"
  shows "good w'"
  using wf_kept [OF _ assms(2-6)] io_relD [OF assms(3,2)] assms(1) by (simp add: good_def env_frame_def)

lemma good_store:
  "good w \<Longrightarrow> run_state (CreateJob i) w = (r1, w') \<Longrightarrow> good w'"
  "good w \<Longrightarrow> run_state (UpdateJobStatus j s) w = (r2, w') \<Longrightarrow> good w'"
  "good w \<Longrightarrow> run_state (CreateRun j p sch) w = (r3, w') \<Longrightarrow> good w'"
  "good w \<Longrightarrow> run_state (LeaseNextRun x ld) w = (r4, w') \<Longrightarrow> good w'"
  "good w \<Longrightarrow> run_state (ExtendLease run x d) w = (r5, w') \<Longrightarrow> good w'"
  "good w \<Longrightarrow> run_state (MarkRunning run) w = (r6, w') \<Longrightarrow> good w'"
  "good w \<Longrightarrow> run_state (CompleteRun run res) w = (r7, w') \<Longrightarrow> good w'"
  "good w \<Longrightarrow> run_state (FailRun run m rq bo) w = (r8, w') \<Longrightarrow> good w'"
  "good w \<Longrightarrow> run_state (MarkDead run reason) w = (r9, w') \<Longrightarrow> good w'"
  "good w \<Longrightarrow> run_state ReclaimExpiredLeases w = (r10, w') \<Longrightarrow> good w'"
  "good w \<Longrightarrow> run_state (UpsertWorkerHeartbeat x h) w = (r11, w') \<Longrightarrow> good w'"
  by (erule (1) good_kept; rule frame_store closed_store schema.keeps_store ids.keeps_store)+

lemma good_fields:
  assumes "good w"
  shows "script w = []" "tx_saved w = None" "replica w = None" "integrity (primary w)" "sql_now w = clock w"
    "readPool w = OnPool"
  using assms by (simp_all add: good_def wf_world_def sql_now_def readPool_def)

lemma good_uuid:
  assumes "good w" and "job_exists u (primary w) \<or> run_exists u (primary w)"
  shows "uuid_in w u = Some u"
  using assms by (auto simp: good_def wf_world_def ids_issued_def)

lemma good_fresh:
  assumes "good w"
  shows "\<not> job_exists (uuid_gen w (uuid_next w)) (primary w)" "\<not> run_exists (uuid_gen w (uuid_next w)) (primary w)"
    "uuid_gen w (uuid_next w) \<notin> dl_ID ` set (dead_letters (primary w))"
proof -
  have "u \<noteq> uuid_gen w (uuid_next w)"
    if "job_exists u (primary w) \<or> run_exists u (primary w) \<or> u \<in> dl_ID ` set (dead_letters (primary w))" for u
  proof -
    from assms that obtain n where "n < uuid_next w" and "u = uuid_gen w n"
      unfolding good_def wf_world_def ids_issued_def by blast
    moreover have "inj (uuid_gen w)" using assms by (simp add: good_def wf_world_def)
    ultimately show ?thesis by (auto dest: injD)
  qed
  then show "\<not> job_exists (uuid_gen w (uuid_next w)) (primary w)" "\<not> run_exists (uuid_gen w (uuid_next w)) (primary w)"
    "uuid_gen w (uuid_next w) \<notin> dl_ID ` set (dead_letters (primary w))"
    by blast+
qed

subsection \<open>Evaluation without faults\<close>

lemma run_driver_call [db_simps]: "script w = [] \<Longrightarrow> run_state (driver_call stmt) w = stmt w"
  by (simp add: driver_call_def deliver_def)

lemma run_tx_begin [db_simps]:
  "script w = [] \<Longrightarrow> run_state tx_begin w = (Inr (), w\<lparr>tx_saved := Some (primary w, clock w)\<rparr>)"
  by (simp add: tx_begin_def deliver_def)

lemma run_tx_commit [db_simps]: "script w = [] \<Longrightarrow> run_state tx_commit w = (Inr (), w\<lparr>tx_saved := None\<rparr>)"
  by (simp add: tx_commit_def run_driver_call)

lemma run_defer_rollback [db_simps]:
  "run_state (defer_rollback m) w = (case run_state m w of (r, w') \<Rightarrow>
     (r, case tx_saved w' of None \<Rightarrow> w' | Some (d, _) \<Rightarrow> w'\<lparr>primary := d, tx_saved := None\<rparr>))"
  by (simp add: defer_rollback_def tx_rollback_def split: prod.splits)

lemma run_on_readPool [db_simps]: "run_state (on_readPool m) w = run_state (m (readPool w)) w"
  by (simp add: on_readPool_def)

lemma run_not_found [db_simps]:
  "run_state (not_found m) w = (case run_state m w of
     (Inl e, w') \<Rightarrow> (Inl (if errors_Is e ErrNoRows then ErrNotFound else e), w') | (Inr x, w') \<Rightarrow> (Inr x, w'))"
  by (simp add: not_found_def split: prod.splits sum.splits)

lemma run_affected [db_simps]:
  "run_state (affected_or_not_found m) w = (case run_state m w of
     (Inl e, w') \<Rightarrow> (Inl e, w') | (Inr n, w') \<Rightarrow> (if n = 0 then Inl ErrNotFound else Inr (), w'))"
  by (simp add: affected_or_not_found_def run_check_err split: prod.splits sum.splits)

lemma with_uuid_Some [db_simps]: "uuid_in w s = Some u \<Longrightarrow> with_uuid s stmt w = stmt u w"
  by (simp add: with_uuid_def)

lemma with_uuid_None [db_simps]: "uuid_in w s = None \<Longrightarrow> with_uuid s stmt w = (Inl (PgError ''22P02''), w)"
  by (simp add: with_uuid_def)

lemma querier_db_primary [simp]: "querier_db OnPool w = primary w" "querier_db OnTx w = primary w"
  by (simp_all add: querier_db_def)

text \<open>The structs the store returns for rows of the tables.\<close>

definition decode :: "gval \<Rightarrow> gomap" where
  "decode v = (case json_Unmarshal v of Inl _ \<Rightarrow> None | Inr m \<Rightarrow> m)"

definition deps_of :: "uid \<Rightarrow> db \<Rightarrow> uid list" where
  "deps_of j d = map snd (filter (\<lambda>e. fst e = j) (job_dependencies d))"

definition job_view :: "db \<Rightarrow> gval job_row \<Rightarrow> job" where
  "job_view d r = job_of_row r (decode (job_Payload r)) (deps_of (job_ID r) d)"

definition run_view :: "run_row \<Rightarrow> JobRun" where
  "run_view r = run_of_row r (case run_Result r of None \<Rightarrow> None | Some v \<Rightarrow> decode v)"

lemma job_view_fields [simp]:
  "job_ID (job_view d r) = job_ID r" "job_Name (job_view d r) = job_Name r" "job_CronExpr (job_view d r) = job_CronExpr r"
  "job_Priority (job_view d r) = job_Priority r" "job_MaxAttempts (job_view d r) = job_MaxAttempts r"
  "job_TimeoutSeconds (job_view d r) = job_TimeoutSeconds r" "job_Status (job_view d r) = job_Status r"
  "job_CreatedAt (job_view d r) = job_CreatedAt r" "job_DependsOn (job_view d r) = deps_of (job_ID r) d"
  by (simp_all add: job_view_def job_of_row_def)

lemma run_view_fields [simp]:
  "run_ID (run_view r) = run_ID r" "run_JobID (run_view r) = run_JobID r" "run_Status (run_view r) = run_Status r"
  "run_Attempt (run_view r) = run_Attempt r" "run_ScheduledAt (run_view r) = run_ScheduledAt r"
  "run_CreatedAt (run_view r) = run_CreatedAt r" "run_Priority (run_view r) = run_Priority r"
  "run_LeasedBy (run_view r) = run_LeasedBy r" "run_Error (run_view r) = run_Error r"
  by (simp_all add: run_view_def run_of_row_def)

lemma Unmarshal_decode: "json_column v \<Longrightarrow> json_Unmarshal v = Inr (decode v)"
  using json_column_Unmarshal [of v] by (auto simp: decode_def)

lemma scanRun_view: "(\<And>v. run_Result r = Some v \<Longrightarrow> json_column v) \<Longrightarrow> scanRun r = Inr (run_view r)"
  by (auto simp: scanRun_def run_view_def Unmarshal_decode split: option.splits)

lemma scanRun_good: "integrity d \<Longrightarrow> r \<in> set (job_runs d) \<Longrightarrow> scanRun r = Inr (run_view r)"
  by (rule scanRun_view) (auto dest: integrity_run)

text \<open>What a query inside or outside a transaction relies on.\<close>

definition sane :: "world \<Rightarrow> bool" where
  "sane w \<longleftrightarrow> script w = [] \<and> integrity (primary w) \<and>
     (\<forall>u. job_exists u (primary w) \<or> run_exists u (primary w) \<longrightarrow> uuid_in w u = Some u)"

lemma good_sane: "good w \<Longrightarrow> sane w"
  by (simp add: sane_def good_fields good_uuid)

lemma sane_tx [simp]: "sane (w\<lparr>tx_saved := t\<rparr>) = sane w"
  by (simp add: sane_def)

lemma job_in_exists: "r \<in> set (jobs d) \<Longrightarrow> job_exists (job_ID r) d"
  and run_in_exists: "x \<in> set (job_runs d) \<Longrightarrow> run_exists (run_ID x) d"
  by (simp_all add: job_exists_def run_exists_def)

lemma saneD:
  assumes "sane w"
  shows "script w = []" "integrity (primary w)"
    "r \<in> set (jobs (primary w)) \<Longrightarrow> uuid_in w (job_ID r) = Some (job_ID r)"
    "x \<in> set (job_runs (primary w)) \<Longrightarrow> uuid_in w (run_ID x) = Some (run_ID x)"
    "x \<in> set (job_runs (primary w)) \<Longrightarrow> uuid_in w (run_JobID x) = Some (run_JobID x)"
  using assms by (auto simp: sane_def job_in_exists run_in_exists dest: integrity_run)

lemma fetchDependencies_sane:
  assumes "script w = []" and "uuid_in w j = Some u"
  shows "run_state (fetchDependencies q j) w = (Inr (deps_of u (querier_db q w)), w)"
  using assms by (simp add: fetchDependencies_def deps_of_def db_simps)

text \<open>A query for one job: the row that was found, decoded and joined with its dependencies.\<close>

lemma scanJobRow_sane:
  assumes "sane w" and "q \<noteq> OnReplica" and "run_state row w = (row_result res, w)"
    and "\<And>r. res = Some r \<Longrightarrow> r \<in> set (jobs (primary w))"
  shows "run_state (scanJobRow q row) w =
    (case res of None \<Rightarrow> Inl ErrNoRows | Some r \<Rightarrow> Inr (job_view (primary w) r), w)"
proof (cases res)
  case None
  then show ?thesis using assms(3) by (simp add: scanJobRow_def db_simps row_result_def)
next
  case (Some r)
  then have r: "r \<in> set (jobs (primary w))" by (rule assms(4))
  have "querier_db q w = primary w" using assms(2) by (cases q) simp_all
  moreover have "json_Unmarshal (job_Payload r) = Inr (decode (job_Payload r))"
    using r saneD(2) [OF assms(1)] by (intro Unmarshal_decode) (rule integrity_payload)
  ultimately show ?thesis
    using Some assms(3) fetchDependencies_sane [OF saneD(1,3) [OF assms(1)], of r q] r assms(1)
    by (simp add: scanJobRow_def db_simps row_result_def wrap_err_def job_view_def)
qed

lemma fetchJob_sane:
  assumes "sane w" and "q \<noteq> OnReplica" and "uuid_in w j = Some u"
  shows "run_state (fetchJob q j) w =
    (case List.find (\<lambda>r. job_ID r = u) (jobs (primary w)) of
       None \<Rightarrow> Inl ErrNoRows | Some r \<Rightarrow> Inr (job_view (primary w) r), w)"
  unfolding fetchJob_def
proof (rule scanJobRow_sane [OF assms(1,2)])
  show "run_state (driver_call (with_uuid j (\<lambda>u w. (row_result (List.find (\<lambda>r. job_ID r = u) (jobs (querier_db q w))), w)))) w =
      (row_result (List.find (\<lambda>r. job_ID r = u) (jobs (primary w))), w)"
    using saneD(1) [OF assms(1)] assms(2,3) by (cases q) (simp_all add: db_simps)
qed (auto dest: find_SomeD)

lemma fetchRun_sane:
  assumes "sane w" and "q \<noteq> OnReplica" and "uuid_in w i = Some u"
  shows "run_state (fetchRun q i) w =
    (case List.find (\<lambda>r. run_ID r = u) (job_runs (primary w)) of
       None \<Rightarrow> Inl ErrNoRows | Some r \<Rightarrow> Inr (run_view r), w)"
proof -
  have "querier_db q w = primary w" using assms(2) by (cases q) simp_all
  then show ?thesis
    using assms(3) saneD(1) [OF assms(1)] scanRun_good [OF saneD(2) [OF assms(1)]]
    by (auto simp: fetchRun_def scanRunRow_def db_simps row_result_def split: option.splits dest: find_SomeD)
qed

subsection \<open>Reads\<close>

lemma GetJob_good:
  assumes "good w"
  shows "run_state (GetJob j) w = (case uuid_in w j of
      None \<Rightarrow> Inl (PgError ''22P02'')
    | Some u \<Rightarrow> (case List.find (\<lambda>r. job_ID r = u) (jobs (primary w)) of
        None \<Rightarrow> Inl ErrNotFound | Some r \<Rightarrow> Inr (job_view (primary w) r)), w)"
proof (cases "uuid_in w j")
  case None
  then show ?thesis using good_fields [OF assms]
    by (simp add: GetJob_def fetchJob_def scanJobRow_def db_simps)
next
  case (Some u)
  then show ?thesis using good_fields [OF assms] fetchJob_sane [OF good_sane [OF assms] _ Some, of OnPool]
    by (simp add: GetJob_def db_simps split: option.splits)
qed

lemma GetRun_good:
  assumes "good w"
  shows "run_state (GetRun i) w = (case uuid_in w i of
      None \<Rightarrow> Inl (PgError ''22P02'')
    | Some u \<Rightarrow> (case List.find (\<lambda>r. run_ID r = u) (job_runs (primary w)) of
        None \<Rightarrow> Inl ErrNotFound | Some r \<Rightarrow> Inr (run_view r)), w)"
proof (cases "uuid_in w i")
  case None
  then show ?thesis using good_fields [OF assms]
    by (simp add: GetRun_def fetchRun_def scanRunRow_def db_simps)
next
  case (Some u)
  then show ?thesis using good_fields [OF assms] fetchRun_sane [OF good_sane [OF assms] _ Some, of OnPool]
    by (simp add: GetRun_def db_simps split: option.splits)
qed

lemma GetJobByIdempotencyKey_good:
  assumes "good w"
  shows "run_state (GetJobByIdempotencyKey key) w =
    (case List.find (\<lambda>r. job_IdempotencyKey r = Some key) (jobs (primary w)) of
       None \<Rightarrow> Inl ErrNotFound | Some r \<Rightarrow> Inr (job_view (primary w) r), w)"
proof -
  let ?res = "List.find (\<lambda>r. job_IdempotencyKey r = Some key) (jobs (primary w))"
  have "run_state (fetchJobByIdempotencyKey OnPool key) w =
      (case ?res of None \<Rightarrow> Inl ErrNoRows | Some r \<Rightarrow> Inr (job_view (primary w) r), w)"
    unfolding fetchJobByIdempotencyKey_def
    by (rule scanJobRow_sane) (auto simp: good_sane [OF assms] good_fields [OF assms] db_simps dest: find_SomeD)
  then show ?thesis using good_fields [OF assms]
    by (simp add: GetJobByIdempotencyKey_def db_simps split: option.splits)
qed

lemma LatestRunForJob_good:
  assumes "good w" and "uuid_in w j = Some u"
  shows "run_state (LatestRunForJob j) w =
    (case latest_run u (primary w) of None \<Rightarrow> Inl ErrNotFound | Some r \<Rightarrow> Inr (run_view r), w)"
proof -
  have "scanRun r = Inr (run_view r)" if "latest_run u (primary w) = Some r" for r
  proof (rule scanRun_good [OF good_fields(4) [OF assms(1)]])
    show "r \<in> set (job_runs (primary w))"
      using that first_by_in unfolding latest_run_def by fastforce
  qed
  then show ?thesis using assms good_fields [OF assms(1)]
    by (auto simp: LatestRunForJob_def scanRunRow_def row_result_def db_simps split: option.splits)
qed

lemma HasActiveRun_good:
  "good w \<Longrightarrow> uuid_in w j = Some u \<Longrightarrow> run_state (HasActiveRun j) w = (Inr (has_active_run u (primary w)), w)"
  using good_fields by (simp add: HasActiveRun_def db_simps)

lemma ListDependencies_good:
  "good w \<Longrightarrow> uuid_in w j = Some u \<Longrightarrow> run_state (ListDependencies j) w = (Inr (deps_of u (primary w)), w)"
  using good_fields by (simp add: ListDependencies_def fetchDependencies_sane db_simps)

lemma CountPendingRuns_good: "good w \<Longrightarrow> run_state CountPendingRuns w = (Inr (pending_runs (primary w)), w)"
  using good_fields by (simp add: CountPendingRuns_def db_simps)

lemma run_for_each_err_const:
  assumes "\<And>x. x \<in> set xs \<Longrightarrow> run_state (f x) s = (Inr (g x), s)"
  shows "run_state (for_each_err f xs) s = (Inr (map g xs), s)"
  using assms by (induction xs) (simp_all add: db_simps)

lemma ListJobs_good:
  assumes "good w" and "0 \<le> limit" and "0 \<le> offset"
  shows "run_state (ListJobs status limit offset) w =
    (Inr (map (job_view (primary w)) (take (nat limit) (drop (nat offset) (select_jobs status (primary w))))), w)"
proof -
  let ?rows = "take (nat limit) (drop (nat offset) (select_jobs status (primary w)))"
  have rows: "r \<in> set (jobs (primary w))" if "r \<in> set ?rows" for r
    using that by (auto simp: select_jobs_def dest!: in_set_takeD in_set_dropD)
  have payload: "json_Unmarshal (job_Payload r) = Inr (decode (job_Payload r))" if "r \<in> set ?rows" for r
    using rows [OF that] good_fields(4) [OF assms(1)] by (intro Unmarshal_decode) (rule integrity_payload)
  have scan: "run_state (for_each_err (\<lambda>r. lift_result (case json_Unmarshal (job_Payload r) of
        Inl e \<Rightarrow> Inl (ErrWrap ''unmarshal payload'' e) | Inr p \<Rightarrow> Inr (r, p))) ?rows) w =
      (Inr (map (\<lambda>r. (r, decode (job_Payload r))) ?rows), w)"
    by (rule run_for_each_err_const) (simp add: payload)
  have join: "run_state (for_each_err (\<lambda>(r, p). check_err (fetchDependencies OnPool (job_ID r)) (\<lambda>deps.
        ok (job_of_row r p deps))) (map (\<lambda>r. (r, decode (job_Payload r))) ?rows)) w =
      (Inr (map (\<lambda>(r, p). job_of_row r p (deps_of (job_ID r) (primary w))) (map (\<lambda>r. (r, decode (job_Payload r))) ?rows)), w)"
    by (rule run_for_each_err_const)
       (auto simp: db_simps fetchDependencies_sane [OF good_fields(1) [OF assms(1)] saneD(3) [OF good_sane [OF assms(1)]]] dest: rows)
  show ?thesis using assms(2,3) good_fields [OF assms(1)] scan join
    by (simp add: ListJobs_def limit_offset_def db_simps job_view_def)
qed

subsection \<open>Writes\<close>

definition edit_run :: "uid \<Rightarrow> (run_row \<Rightarrow> run_row) \<Rightarrow> world \<Rightarrow> world" where
  "edit_run u f w = write_db (\<lambda>d. d\<lparr>job_runs := update_where (\<lambda>r. run_ID r = u) f (job_runs d)\<rparr>) w"

lemma rows_affected_run: "rows_affected (\<lambda>r. run_ID r = u) (job_runs d) = 0 \<longleftrightarrow> \<not> run_exists u d"
  by (auto simp: rows_affected_eq_0 run_exists_def)

lemma update_run_good:
  assumes "good w" and "uuid_in w i = Some u"
  shows "run_state (affected_or_not_found (driver_call (with_uuid i (\<lambda>u w. update_runs (\<lambda>r. run_ID r = u) (f (sql_now w)) w)))) w =
    (if run_exists u (primary w) then Inr () else Inl ErrNotFound, edit_run u (f (clock w)) w)"
  using assms good_fields [OF assms(1)]
  by (simp add: db_simps update_runs_def rows_affected_run edit_run_def)

lemma MarkRunning_good:
  "good w \<Longrightarrow> uuid_in w i = Some u \<Longrightarrow> run_state (MarkRunning i) w =
    (if run_exists u (primary w) then Inr () else Inl ErrNotFound, edit_run u (mark_running_row (clock w)) w)"
  unfolding MarkRunning_def by (rule update_run_good)

lemma CompleteRun_good:
  "good w \<Longrightarrow> uuid_in w i = Some u \<Longrightarrow> json_Marshal result = Inr raw \<Longrightarrow> run_state (CompleteRun i result) w =
    (if run_exists u (primary w) then Inr () else Inl ErrNotFound, edit_run u (complete_row raw (clock w)) w)"
  unfolding CompleteRun_def by (simp add: wrap_err_def lift_result_def update_run_good)

lemma CompleteRun_unmarshalable:
  "json_Marshal result = Inl e \<Longrightarrow> run_state (CompleteRun i result) w = (Inl (ErrWrap ''marshal result'' e), w)"
  unfolding CompleteRun_def by (simp add: wrap_err_def lift_result_def)

lemma FailRun_good:
  "good w \<Longrightarrow> uuid_in w i = Some u \<Longrightarrow> run_state (FailRun i m rq bo) w =
    (if run_exists u (primary w) then Inr () else Inl ErrNotFound,
     edit_run u (if rq then requeue_row bo m (clock w) else fail_row m (clock w)) w)"
  unfolding FailRun_def by (cases rq) (simp_all add: update_run_good)

lemma CreateRun_good:
  fixes p sch
  assumes "good w" and "job_exists j (primary w)"
  defines "row \<equiv> new_run_row (uuid_gen w (uuid_next w)) (clock w) j p sch"
  shows "run_state (CreateRun j p sch) w = (Inr (run_view row),
    write_db (\<lambda>d. d\<lparr>job_runs := job_runs d @ [row]\<rparr>) (w\<lparr>uuid_next := Suc (uuid_next w)\<rparr>))"
proof -
  have "scanRun row = Inr (run_view row)"
    by (rule scanRun_view) (simp add: row_def new_run_row_def)
  then show ?thesis
    using assms(1,2) good_fields [OF assms(1)] good_uuid [OF assms(1)] good_fresh [OF assms(1)]
    by (simp add: CreateRun_def scanRunRow_def insert_run_def fresh_uuid_def db_simps row_def Let_def)
qed

lemma ReclaimExpiredLeases_good:
  "good w \<Longrightarrow> run_state ReclaimExpiredLeases w =
    (Inr (rows_affected (lease_expired (clock w)) (job_runs (primary w))),
     write_db (\<lambda>d. d\<lparr>job_runs := update_where (lease_expired (clock w)) reclaim_row (job_runs d)\<rparr>) w)"
  using good_fields by (simp add: ReclaimExpiredLeases_def db_simps update_runs_def)

lemma edit_run_fields [simp]:
  "jobs (primary (edit_run u f w)) = jobs (primary w)" "script (edit_run u f w) = script w"
  "job_dependencies (primary (edit_run u f w)) = job_dependencies (primary w)"
  "uuid_in (edit_run u f w) = uuid_in w" "clock (edit_run u f w) = clock w"
  "tx_saved (edit_run u f w) = tx_saved w" "row_locked (edit_run u f w) = row_locked w"
  "job_runs (primary (edit_run u f w)) = update_where (\<lambda>r. run_ID r = u) f (job_runs (primary w))"
  "edit_run u f (w\<lparr>tx_saved := t\<rparr>) = (edit_run u f w)\<lparr>tx_saved := t\<rparr>"
  by (simp_all add: edit_run_def write_db_def)

lemma edit_run_job_view [simp]: "job_view (primary (edit_run u f w)) r = job_view (primary w) r"
  by (simp add: job_view_def deps_of_def)

lemma find_edited:
  assumes "distinct (map run_ID xs)" and "r \<in> set xs" and "run_ID (f r) = run_ID r"
  shows "List.find (\<lambda>x. run_ID x = run_ID r) (update_where (\<lambda>x. run_ID x = run_ID r) f xs) = Some (f r)"
  using assms by (induction xs) (auto simp: rev_image_eqI)

lemma sane_edit_run:
  assumes "sane w" and "\<And>r. r \<in> set (job_runs (primary w)) \<Longrightarrow> run_ID r = u \<Longrightarrow> run_change r (f r)"
  shows "sane (edit_run u f w)"
proof -
  have "integrity (primary (edit_run u f w))"
    unfolding edit_run_def write_db_def using integrity_update_runs [OF saneD(2) [OF assms(1)] assms(2)] by simp
  moreover have "run_exists v (primary (edit_run u f w)) = run_exists v (primary w)" for v
    unfolding edit_run_def write_db_def
    using run_exists_update_where [of "primary w" "\<lambda>r. run_ID r = u" f] assms(2) by (simp add: run_change_def)
  ultimately show ?thesis using assms(1) by (simp add: sane_def job_exists_def)
qed

text \<open>
  The lease transaction: with a candidate below the 16-bit limit it leases exactly that run;
  with a candidate at the limit the increment fails and the transaction is rolled back.
\<close>

lemma LeaseNextRun_good:
  assumes "good w"
  shows "run_state (LeaseNextRun x ld) w = (case lease_candidate (clock w) (row_locked w) (primary w) of
      None \<Rightarrow> (Inr None, w)
    | Some r \<Rightarrow> if sint (run_Attempt r) = 32767 then (Inl (PgError ''22003''), w)
        else (Inr (Some (run_view (lease_row x ld (clock w) r),
                job_view (primary w) (the (List.find (\<lambda>j. job_ID j = run_JobID r) (jobs (primary w)))))),
              edit_run (run_ID r) (lease_row x ld (clock w)) w))"
proof (cases "lease_candidate (clock w) (row_locked w) (primary w)")
  case None
  then show ?thesis using good_fields [OF assms]
    by (simp add: LeaseNextRun_def db_simps sql_now_def row_result_def)
next
  case (Some r)
  let ?w1 = "w\<lparr>tx_saved := Some (primary w, clock w)\<rparr>" and ?f = "lease_row x ld (clock w)"
  let ?w2 = "edit_run (run_ID r) ?f ?w1"
  note f = good_fields [OF assms] and sane = good_sane [OF assms]
  have r: "r \<in> set (job_runs (primary w))"
    using Some by (auto simp: lease_candidate_def dest: first_by_in)
  have dist: "distinct (map run_ID (job_runs (primary w)))" using f(4) by (rule integrity_runs)
  have only: "y = r" if "y \<in> set (job_runs (primary w))" "run_ID y = run_ID r" for y
    using distinct_key_unique [OF dist that(1) r that(2)] .
  have sel: "run_state (driver_call (\<lambda>w. (row_result (map_option (\<lambda>r. (run_ID r, run_JobID r))
      (lease_candidate (sql_now w) (row_locked w) (primary w))), w))) ?w1 = (Inr (run_ID r, run_JobID r), ?w1)"
    using Some f by (simp add: db_simps sql_now_def row_result_def)
  show ?thesis
  proof (cases "sint (run_Attempt r) = 32767")
    case True
    then have "run_state (update_lease (run_ID r) x ld) ?w1 = (Inl (PgError ''22003''), ?w1)"
      using f saneD(4) [OF sane r] r by (auto simp: update_lease_def db_simps list_ex_iff)
    then show ?thesis using Some True f sel by (simp add: LeaseNextRun_def db_simps)
  next
    case False
    have w2: "run_state (update_lease (run_ID r) x ld) ?w1 =
        (Inr (rows_affected (\<lambda>y. run_ID y = run_ID r) (job_runs (primary w))), ?w2)"
      using f saneD(4) [OF sane r] False only
      by (auto simp: update_lease_def db_simps list_ex_iff update_runs_def sql_now_def edit_run_def)
    have "run_change y (?f y)" if "y \<in> set (job_runs (primary w))" "run_ID y = run_ID r" for y
      using False unfolding only [OF that] by simp
    then have sane2: "sane ?w2" by (intro sane_edit_run) (use sane in simp_all)
    have run: "run_state (fetchRun OnTx (run_ID r)) ?w2 = (Inr (run_view (?f r)), ?w2)"
      using fetchRun_sane [OF sane2, of OnTx "run_ID r" "run_ID r"] saneD(4) [OF sane r]
        find_edited [OF dist r, of ?f] by (simp add: lease_row_def)
    have "job_exists (run_JobID r) (primary w)" using integrity_run [OF f(4) r] by simp
    then obtain j where j: "List.find (\<lambda>j. job_ID j = run_JobID r) (jobs (primary w)) = Some j"
      by (cases "List.find (\<lambda>j. job_ID j = run_JobID r) (jobs (primary w))") (auto simp: find_None_iff job_exists_def)
    have job: "run_state (fetchJob OnTx (run_JobID r)) ?w2 = (Inr (job_view (primary w) j), ?w2)"
      using fetchJob_sane [OF sane2, of OnTx "run_JobID r" "run_JobID r"] saneD(5) [OF sane r] j by simp
    show ?thesis using Some False f sel w2 run job j by (simp add: LeaseNextRun_def db_simps)
  qed
qed


text \<open>The other writes of the run's life cycle, and the job's status.\<close>

lemma ExtendLease_good:
  assumes "good w" and "uuid_in w i = Some u"
  shows "run_state (ExtendLease i x ext) w =
    (if \<exists>r\<in>set (job_runs (primary w)). run_ID r = u \<and> run_LeasedBy r = Some x then Inr () else Inl ErrNotFound,
     write_db (\<lambda>d. d\<lparr>job_runs := update_where (\<lambda>r. run_ID r = u \<and> run_LeasedBy r = Some x)
       (\<lambda>r. r\<lparr>run_LeaseExpiresAt := Some (clock w + sint ext)\<rparr>) (job_runs d)\<rparr>) w)"
  using assms good_fields [OF assms(1)]
  by (auto simp: ExtendLease_def db_simps update_runs_def rows_affected_eq_0)

lemma UpdateJobStatus_good:
  assumes "good w" and "uuid_in w j = Some u"
  shows "run_state (UpdateJobStatus j s) w =
    (if job_exists u (primary w) then Inr () else Inl ErrNotFound,
     write_db (\<lambda>d. d\<lparr>jobs := update_where (\<lambda>r. job_ID r = u)
       (\<lambda>r. r\<lparr>job_Status := s, job_UpdatedAt := clock w\<rparr>) (jobs d)\<rparr>) w)"
proof -
  have "rows_affected (\<lambda>r. job_ID r = u) (jobs (primary w)) = 0 \<longleftrightarrow> \<not> job_exists u (primary w)"
    by (auto simp: rows_affected_eq_0 job_exists_def)
  then show ?thesis using assms good_fields [OF assms(1)]
    by (simp add: UpdateJobStatus_def db_simps update_jobs_def)
qed

lemma json_Marshal_dead_letter:
  assumes "\<And>v. run_Result r = Some v \<Longrightarrow> json_column v"
  shows "\<exists>raw. json_Marshal (dead_letter_payload (run_view r)) = Inr raw"
proof -
  have "marshalable (case run_Result (run_view r) of None \<Rightarrow> GNil | Some kvs \<Rightarrow> GObj kvs)"
  proof (cases "run_Result r")
    case None
    then show ?thesis by (simp add: run_view_def run_of_row_def)
  next
    case (Some v)
    with assms have "json_column v" by blast
    then show ?thesis using Some
      by (auto simp: run_view_def run_of_row_def decode_def json_column_def json_Unmarshal_def split: gval.splits)
  qed
  then show ?thesis
    by (auto simp: json_Marshal_def dead_letter_payload_def split: option.splits)
qed

lemma fetchRun_tx:
  assumes "good w" and "uuid_in w i = Some u"
  shows "run_state (fetchRun OnTx i) (w\<lparr>tx_saved := t\<rparr>) =
    (case List.find (\<lambda>r. run_ID r = u) (job_runs (primary w)) of
       None \<Rightarrow> Inl ErrNoRows | Some r \<Rightarrow> Inr (run_view r), w\<lparr>tx_saved := t\<rparr>)"
  using fetchRun_sane [of "w\<lparr>tx_saved := t\<rparr>" OnTx i u] good_sane [OF assms(1)] assms(2) by simp

lemma MarkDead_missing:
  assumes "good w" and "uuid_in w i = Some u" and "\<not> run_exists u (primary w)"
  shows "run_state (MarkDead i reason) w = (Inl ErrNotFound, w)"
proof -
  have "List.find (\<lambda>r. run_ID r = u) (job_runs (primary w)) = None"
    using assms(3) by (auto simp: find_None_iff run_exists_def)
  then show ?thesis
    using fetchRun_tx [OF assms(1,2)] assms good_fields [OF assms(1)]
    by (simp add: MarkDead_def db_simps)
qed

lemma MarkDead_good:
  assumes "good w" and "uuid_in w i = Some (run_ID r)" and "r \<in> set (job_runs (primary w))"
    and "json_Marshal (dead_letter_payload (run_view r)) = Inr raw"
  shows "run_state (MarkDead i reason) w = (Inr (), edit_run (run_ID r) (\<lambda>r. r\<lparr>run_Status := RunStatusDead\<rparr>)
    (write_db (\<lambda>d. d\<lparr>dead_letters := dead_letters d @ [\<lparr>dl_ID = uuid_gen w (uuid_next w), dl_JobRunID = run_ID r,
       dl_Reason = reason, dl_Payload = raw, dl_CreatedAt = clock w\<rparr>]\<rparr>) (w\<lparr>uuid_next := Suc (uuid_next w)\<rparr>)))"
proof -
  note f = good_fields [OF assms(1)]
  have "List.find (\<lambda>x. run_ID x = run_ID r) (job_runs (primary w)) = Some r"
    using find_key [OF integrity_runs [OF f(4)] assms(3)] .
  then have "run_state (fetchRun OnTx i) (w\<lparr>tx_saved := Some (primary w, clock w)\<rparr>) =
      (Inr (run_view r), w\<lparr>tx_saved := Some (primary w, clock w)\<rparr>)"
    using fetchRun_tx [OF assms(1,2)] by simp
  then show ?thesis
    using f good_fresh(3) [OF assms(1)] run_in_exists [OF assms(3)] assms(2,4)
    by (simp add: MarkDead_def db_simps insert_dead_letter_def fresh_uuid_def wrap_err_def update_runs_def
        edit_run_def write_db_def sql_now_def)
qed

end
