(* ===== verification/Store_Atomic.thy ===== *)
theory Store_Atomic
  imports Store_Spec
begin

text \<open>
  The three transactions of the store under every pattern of lost requests and replies.
  \<open>transaction_cases\<close> is the shared argument: a body that never reaches its commit is undone
  by the deferred rollback, so the tables change only by what the body had done at its commit.
\<close>

subsection \<open>A driver call that answered\<close>

abbreviation later :: "world \<Rightarrow> (fault \<times> nat) list \<Rightarrow> time \<Rightarrow> world" where
  "later w s c \<equiv> w\<lparr>script := s, clock := c\<rparr>"

lemma deliver_later:
  assumes "deliver w = (flt, w')"
  obtains s c where "clock w \<le> c" and "w' = later w s c"
proof (cases "script w")
  case Nil
  with assms have "w' = later w (script w) (clock w)" by (simp add: deliver_def)
  then show ?thesis using that by blast
next
  case (Cons p rest)
  with assms have "w' = later w rest (clock w + int (snd p))" by (auto simp: deliver_def split: prod.splits)
  moreover have "clock w \<le> clock w + int (snd p)" by simp
  ultimately show ?thesis using that by blast
qed

lemma driver_call_Inr:
  assumes "run_state (driver_call stmt) w = (Inr x, w')"
  obtains s c where "clock w \<le> c" and "stmt (later w s c) = (Inr x, w')"
  using assms by (auto simp: driver_call_def split: prod.splits fault.splits elim!: deliver_later intro: that)

lemma driver_uuid_Inr:
  assumes "run_state (driver_call (with_uuid i stmt)) w = (Inr x, w')"
  obtains s c u where "clock w \<le> c" and "uuid_in w i = Some u" and "stmt u (later w s c) = (Inr x, w')"
  using assms by (auto simp: with_uuid_def split: option.splits elim!: driver_call_Inr intro: that)

lemma sql_now_later [simp]: "tx_saved w = Some S \<Longrightarrow> sql_now (later w s c) = snd S"
  by (auto simp: sql_now_def split: prod.splits)

lemma querier_db_later [simp]: "querier_db q (later w s c) = querier_db q w"
  by (auto simp: querier_db_def split: querier.splits option.splits)

subsection \<open>The open transaction is left alone until its commit\<close>

interpretation txf: io_preorder "\<lambda>w w'. tx_saved w' = tx_saved w"
  by unfold_locales auto

abbreviation same_tx :: "(world, 'a) state \<Rightarrow> bool" where
  "same_tx \<equiv> io_rel (\<lambda>w w'. tx_saved w' = tx_saved w)"

lemma same_tx_call: "(\<And>w. tx_saved (snd (stmt w)) = tx_saved w) \<Longrightarrow> same_tx (driver_call stmt)"
  by (rule io_relI) (auto simp: driver_call_def deliver_fields split: prod.splits fault.splits)

lemma same_tx_uuid_call: "(\<And>u w. tx_saved (snd (stmt u w)) = tx_saved w) \<Longrightarrow> same_tx (driver_call (with_uuid i stmt))"
  by (rule same_tx_call) (simp add: with_uuid_def split: option.splits)

lemmas same_tx_rules = txf.io_body same_tx_uuid_call same_tx_call

lemma same_tx_stmts:
  "same_tx (insert_job inp v)" "same_tx (insert_dependency j dep)" "same_tx (insert_dead_letter i m v)"
  "same_tx (update_lease i x ld)" "same_tx (fetchRun q i)" "same_tx (fetchJob q i)"
  "same_tx (not_found (fetchRun q i))"
  unfolding insert_job_def insert_dependency_def insert_dead_letter_def update_lease_def fetchRun_def fetchJob_def
    scanRunRow_def scanJobRow_def fetchDependencies_def not_found_def
  by (intro same_tx_rules; simp add: fresh_uuid_def Let_def)+

lemma same_txD: "same_tx m \<Longrightarrow> run_state m w = (r, w') \<Longrightarrow> tx_saved w' = tx_saved w"
  by (drule (1) io_relD)

lemma commit_cases:
  assumes "run_state tx_commit w = (r, w')"
  shows "tx_saved w' = tx_saved w \<and> r = Inl ErrConn \<or>
         tx_saved w' = None \<and> primary w' = primary w \<and> (r = Inr () \<or> r = Inl ErrConn)"
  using assms by (auto simp: tx_commit_def driver_call_def deliver_fields split: prod.splits fault.splits)

lemma transaction_cases:
  assumes run: "run_state (check_err tx_begin (\<lambda>_. defer_rollback m)) w = (r, w')" and "tx_closed w"
    and body: "\<And>s c r w2. run_state m ((later w s c)\<lparr>tx_saved := Some (primary w, c)\<rparr>) = (r, w2) \<Longrightarrow> clock w \<le> c \<Longrightarrow>
        tx_saved w2 = Some (primary w, c) \<and> N c r \<or> tx_saved w2 = None \<and> Q c r (primary w2)"
  shows "primary w' = primary w \<and> (r = Inl ErrConn \<or> (\<exists>c. clock w \<le> c \<and> N c r)) \<or>
    (\<exists>c. clock w \<le> c \<and> Q c r (primary w'))"
proof -
  obtain flt w0 where dl: "deliver w = (flt, w0)" by (cases "deliver w")
  then obtain s c where c: "clock w \<le> c" and w0: "w0 = later w s c" by (rule deliver_later)
  show ?thesis
  proof (cases flt)
    case Delivered
    let ?w1 = "(later w s c)\<lparr>tx_saved := Some (primary w, c)\<rparr>"
    have "run_state tx_begin w = (Inr (), ?w1)"
      using dl w0 Delivered by (simp add: tx_begin_def)
    then obtain w2 where m: "run_state m ?w1 = (r, w2)"
      and w': "w' = (case tx_saved w2 of None \<Rightarrow> w2 | Some (d, _) \<Rightarrow> w2\<lparr>primary := d, tx_saved := None\<rparr>)"
      using run by (auto simp: run_check_err run_defer_rollback split: prod.splits)
    from body [OF m c] show ?thesis using w' c by auto
  qed (use run dl w0 in \<open>auto simp: run_check_err tx_begin_def\<close>)
qed

text \<open>One statement of a transaction: it fails with the transaction still open, or the body goes on.\<close>

lemma tx_stmt_cases:
  assumes "run_state (check_err m k) w = (r, w')" and "same_tx m"
  obtains (failed) e where "r = Inl e" and "tx_saved w' = tx_saved w"
  | (went_on) x w1 where "run_state m w = (Inr x, w1)" and "tx_saved w1 = tx_saved w" and "run_state (k x) w1 = (r, w')"
proof (cases "run_state m w")
  case (Pair x w1)
  have "tx_saved w1 = tx_saved w" by (rule same_txD [OF assms(2) Pair])
  then show ?thesis using assms(1) Pair that by (cases x) (auto simp: run_check_err)
qed

lemma fetchRun_Inr:
  assumes "run_state (fetchRun q i) w = (Inr x, w')"
  obtains s c u row where "w' = later w s c" and "uuid_in w i = Some u"
    and "List.find (\<lambda>r. run_ID r = u) (job_runs (querier_db q w)) = Some row" and "scanRun row = Inr x"
proof -
  let ?q = "driver_call (with_uuid i (\<lambda>u w. (row_result (List.find (\<lambda>r. run_ID r = u) (job_runs (querier_db q w))), w)))"
  from assms obtain row where row: "run_state ?q w = (Inr row, w')" and scan: "scanRun row = Inr x"
    by (auto simp: fetchRun_def scanRunRow_def run_check_err split: prod.splits sum.splits)
  from row obtain s c u where "uuid_in w i = Some u"
    and "(row_result (List.find (\<lambda>r. run_ID r = u) (job_runs (querier_db q (later w s c)))), later w s c) = (Inr row, w')"
    by (rule driver_uuid_Inr)
  then show ?thesis using scan that by (auto simp: row_result_def split: option.splits)
qed

lemma fetchDependencies_Inr:
  assumes "run_state (fetchDependencies q i) w = (Inr x, w')"
  obtains s c u where "w' = later w s c" and "uuid_in w i = Some u" and "x = deps_of u (querier_db q w)"
proof -
  from assms obtain s c u where "uuid_in w i = Some u"
    and "(Inr (map snd (filter (\<lambda>e. fst e = u) (job_dependencies (querier_db q (later w s c))))), later w s c) = (Inr x, w')"
    unfolding fetchDependencies_def by (auto elim!: driver_uuid_Inr)
  then show ?thesis using that by (auto simp: deps_of_def)
qed

lemma fetchJob_Inr:
  assumes "run_state (fetchJob q i) w = (Inr x, w')"
  obtains s c u v row p where "w' = later w s c" and "uuid_in w i = Some u"
    and "List.find (\<lambda>r. job_ID r = u) (jobs (querier_db q w)) = Some row"
    and "json_Unmarshal (job_Payload row) = Inr p" and "uuid_in w (job_ID row) = Some v"
    and "x = job_of_row row p (deps_of v (querier_db q w))"
proof -
  let ?q = "driver_call (with_uuid i (\<lambda>u w. (row_result (List.find (\<lambda>r. job_ID r = u) (jobs (querier_db q w))), w)))"
  from assms obtain row w1 p ds where row: "run_state ?q w = (Inr row, w1)"
    and p: "json_Unmarshal (job_Payload row) = Inr p"
    and ds: "run_state (fetchDependencies q (job_ID row)) w1 = (Inr ds, w')" and x: "x = job_of_row row p ds"
    by (auto simp: fetchJob_def scanJobRow_def run_check_err wrap_err_def split: prod.splits sum.splits)
  from row obtain s c u where u: "uuid_in w i = Some u"
    and "(row_result (List.find (\<lambda>r. job_ID r = u) (jobs (querier_db q (later w s c)))), later w s c) = (Inr row, w1)"
    by (rule driver_uuid_Inr)
  then have find: "List.find (\<lambda>r. job_ID r = u) (jobs (querier_db q w)) = Some row" and w1: "w1 = later w s c"
    by (auto simp: row_result_def split: option.splits)
  from ds obtain s' c' v where "w' = later w1 s' c'" and "uuid_in w1 (job_ID row) = Some v"
    and "ds = deps_of v (querier_db q w1)" by (rule fetchDependencies_Inr)
  then show ?thesis using u find p x w1 that by auto
qed

subsection \<open>LeaseNextRun\<close>

definition leased_db :: "string \<Rightarrow> duration \<Rightarrow> time \<Rightarrow> run_row \<Rightarrow> db \<Rightarrow> db" where
  "leased_db x ld t r d = d\<lparr>job_runs := update_where (\<lambda>y. run_ID y = run_ID r) (lease_row x ld t) (job_runs d)\<rparr>"

lemma wf_worldD:
  assumes "wf_world w"
  shows "tx_closed w" "integrity (primary w)"
    "job_exists u (primary w) \<or> run_exists u (primary w) \<Longrightarrow> uuid_in w u = Some u"
  using assms by (auto simp: wf_world_def ids_issued_def)

lemma update_lease_Inr:
  assumes "run_state (update_lease i x ld) w = (Inr n, w')" and "uuid_in w i = Some u" and "tx_saved w = Some (d, t)"
  obtains s c where "w' = write_db (\<lambda>d. d\<lparr>job_runs := update_where (\<lambda>r. run_ID r = u) (lease_row x ld t) (job_runs d)\<rparr>) (later w s c)"
    and "\<And>r. r \<in> set (job_runs (primary w)) \<Longrightarrow> run_ID r = u \<Longrightarrow> sint (run_Attempt r) \<noteq> 32767"
proof -
  from assms(1,2) obtain s c where
    eff: "(if list_ex (\<lambda>r. run_ID r = u \<and> sint (run_Attempt r) = 32767) (job_runs (primary (later w s c)))
      then (Inl (PgError ''22003''), later w s c)
      else update_runs (\<lambda>r. run_ID r = u) (lease_row x ld (sql_now (later w s c))) (later w s c)) = (Inr n, w')"
    unfolding update_lease_def by (auto elim!: driver_uuid_Inr)
  moreover have "\<not> list_ex (\<lambda>r. run_ID r = u \<and> sint (run_Attempt r) = 32767) (job_runs (primary w))"
    using eff by (auto split: if_splits)
  moreover from this have "sint (run_Attempt r) \<noteq> 32767" if "r \<in> set (job_runs (primary w))" "run_ID r = u" for r
    using that by (auto simp: list_ex_iff)
  ultimately show ?thesis
    using assms(3) that [of c s] by (simp add: update_runs_def write_db_def sql_now_def)
qed

lemma lease_fetches:
  assumes "wf_world w" and "r \<in> set (job_runs (primary w))"
    and w2: "primary w2 = leased_db x ld t r (primary w)" "uuid_in w2 = uuid_in w"
    and run: "run_state (fetchRun OnTx (run_ID r)) w2 = (Inr rn, w3)"
    and job: "run_state (fetchJob OnTx (run_JobID r)) w3 = (Inr jb, w4)"
  shows "primary w4 = primary w2 \<and> rn = run_view (lease_row x ld t r) \<and>
    (\<exists>j\<in>set (jobs (primary w)). job_ID j = run_JobID r \<and> jb = job_view (primary w) j)"
proof -
  note wf = wf_worldD [OF assms(1)] and intg = integrity_run [OF wf_worldD(2) [OF assms(1)] assms(2)]
  have idr: "uuid_in w (run_ID r) = Some (run_ID r)" using wf(3) run_in_exists [OF assms(2)] by blast
  have scan: "scanRun (lease_row x ld t r) = Inr (run_view (lease_row x ld t r))"
    by (rule scanRun_view) (use intg in \<open>simp add: lease_row_def\<close>)
  have found: "List.find (\<lambda>y. run_ID y = run_ID r) (job_runs (primary w2)) = Some (lease_row x ld t r)"
    using find_edited [OF integrity_runs [OF wf(2)] assms(2), of "lease_row x ld t"] w2(1)
    by (simp add: leased_db_def lease_row_def)
  from run obtain s c where w3: "w3 = later w2 s c" and rn: "rn = run_view (lease_row x ld t r)"
    using idr found scan w2(2) by (auto elim!: fetchRun_Inr)
  from job obtain s c u v row p where "w4 = later w3 s c" and "uuid_in w3 (run_JobID r) = Some u"
    and "List.find (\<lambda>r. job_ID r = u) (jobs (querier_db OnTx w3)) = Some row"
    and p: "json_Unmarshal (job_Payload row) = Inr p" and "uuid_in w3 (job_ID row) = Some v"
    and jb: "jb = job_of_row row p (deps_of v (querier_db OnTx w3))" by (rule fetchJob_Inr)
  moreover have "uuid_in w (run_JobID r) = Some (run_JobID r)" using wf(3) intg by blast
  ultimately have row: "row \<in> set (jobs (primary w))" "job_ID row = run_JobID r" and v: "v = job_ID row"
    and w4: "primary w4 = primary w2"
    using w3 w2 by (auto simp: leased_db_def dest: find_SomeD)
  have "jb = job_view (primary w) row"
    using jb p v w3 w2(1) Unmarshal_decode [OF integrity_payload [OF wf(2) row(1)]]
    by (simp add: job_view_def deps_of_def leased_db_def)
  then show ?thesis using row w4 rn by blast
qed

text \<open>The body of the lease transaction, between \<open>Begin\<close> and the deferred rollback.\<close>

lemma lease_committed:
  assumes "wf_world w" and cand: "lease_candidate t (row_locked w) (primary w) = Some r"
    and w1: "primary w1 = primary w" "uuid_in w1 = uuid_in w" "tx_saved w1 = Some (primary w, t)"
    and body: "run_state (check_err (update_lease (run_ID r) x ld) (\<lambda>_.
        check_err (fetchRun OnTx (run_ID r)) (\<lambda>run. check_err (fetchJob OnTx (run_JobID r)) (\<lambda>job.
        check_err tx_commit (\<lambda>_. ok (Some (run, job))))))) w1 = (res, w')"
  shows "tx_saved w' = Some (primary w, t) \<and> (\<exists>e. res = Inl e) \<or>
    tx_saved w' = None \<and> sint (run_Attempt r) \<noteq> 32767 \<and> primary w' = leased_db x ld t r (primary w) \<and>
    (res = Inl ErrConn \<or> (\<exists>j\<in>set (jobs (primary w)). job_ID j = run_JobID r \<and>
       res = Inr (Some (run_view (lease_row x ld t r), job_view (primary w) j))))"
proof -
  have r: "r \<in> set (job_runs (primary w))" using first_by_in cand unfolding lease_candidate_def by fastforce
  have idr: "uuid_in w1 (run_ID r) = Some (run_ID r)"
    using wf_worldD(3) [OF assms(1)] run_in_exists [OF r] w1(2) by simp
  show ?thesis using body same_tx_stmts(4)
  proof (cases rule: tx_stmt_cases)
    case (went_on n w2)
    from went_on(1) idr w1(3) obtain s c where
      w2: "w2 = write_db (\<lambda>d. d\<lparr>job_runs := update_where (\<lambda>y. run_ID y = run_ID r) (lease_row x ld t) (job_runs d)\<rparr>) (later w1 s c)"
      and below: "sint (run_Attempt r) \<noteq> 32767" using r w1(1) by (auto elim!: update_lease_Inr)
    have p2: "primary w2 = leased_db x ld t r (primary w)" "uuid_in w2 = uuid_in w"
      using w2 w1 by (simp_all add: write_db_def leased_db_def)
    from went_on(3) same_tx_stmts(5) show ?thesis
    proof (cases rule: tx_stmt_cases)
      case fetched: (went_on rn w3)
      from fetched(3) same_tx_stmts(6) show ?thesis
      proof (cases rule: tx_stmt_cases)
        case joined: (went_on jb w4)
        note rows = lease_fetches [OF assms(1) r p2 fetched(1) joined(1)]
        obtain rc w5 where "run_state tx_commit w4 = (rc, w5)" by (cases "run_state tx_commit w4")
        with joined(3) commit_cases [OF this] show ?thesis
          using rows below p2 joined(2) fetched(2) went_on(2) w1(3) by (auto simp: run_check_err split: sum.splits)
      qed (use fetched(2) went_on(2) w1(3) in simp)
    qed (use went_on(2) w1(3) in simp)
  qed (use w1(3) in simp)
qed

lemma lease_select:
  assumes "run_state (driver_call (\<lambda>w. (row_result (map_option (\<lambda>r. (run_ID r, run_JobID r))
      (lease_candidate (sql_now w) (row_locked w) (primary w))), w))) w = (sel, w')" and "tx_saved w = Some (d, t)"
  obtains s c where "w' = later w s c" and
    "sel = Inl ErrConn \<or> sel = row_result (map_option (\<lambda>r. (run_ID r, run_JobID r)) (lease_candidate t (row_locked w) (primary w)))"
  using assms by (auto simp: driver_call_def split: prod.splits fault.splits elim!: deliver_later)

text \<open>
  Under every fault the lease transaction either changes nothing, and then it reports an error or
  an empty queue, or it leases the run at the head of the queue at the transaction's time \<open>t\<close>.
\<close>

lemma LeaseNextRun_cases:
  assumes "wf_world w" and "run_state (LeaseNextRun x ld) w = (res, w')"
  shows "primary w' = primary w \<and> ((\<exists>e. res = Inl e) \<or>
      res = Inr None \<and> (\<exists>t\<ge>clock w. lease_candidate t (row_locked w) (primary w) = None)) \<or>
    (\<exists>t r. clock w \<le> t \<and> lease_candidate t (row_locked w) (primary w) = Some r \<and> sint (run_Attempt r) \<noteq> 32767 \<and>
      primary w' = leased_db x ld t r (primary w) \<and>
      (res = Inl ErrConn \<or> (\<exists>j\<in>set (jobs (primary w)). job_ID j = run_JobID r \<and>
         res = Inr (Some (run_view (lease_row x ld t r), job_view (primary w) j)))))"
proof -
  let ?N = "\<lambda>c res. (\<exists>e. res = Inl e) \<or> res = Inr None \<and> lease_candidate c (row_locked w) (primary w) = None"
  let ?Q = "\<lambda>t res d. \<exists>r. lease_candidate t (row_locked w) (primary w) = Some r \<and> sint (run_Attempt r) \<noteq> 32767 \<and>
      d = leased_db x ld t r (primary w) \<and> (res = Inl ErrConn \<or> (\<exists>j\<in>set (jobs (primary w)). job_ID j = run_JobID r \<and>
         res = Inr (Some (run_view (lease_row x ld t r), job_view (primary w) j))))"
  have "primary w' = primary w \<and> (res = Inl ErrConn \<or> (\<exists>c. clock w \<le> c \<and> ?N c res)) \<or>
    (\<exists>c. clock w \<le> c \<and> ?Q c res (primary w'))"
  proof (rule transaction_cases [OF assms(2) [unfolded LeaseNextRun_def] wf_worldD(1) [OF assms(1)]])
    fix s c rs w2
    let ?w1 = "(later w s c)\<lparr>tx_saved := Some (primary w, c)\<rparr>"
    let ?sel = "driver_call (\<lambda>w. (row_result (map_option (\<lambda>r. (run_ID r, run_JobID r))
                (lease_candidate (sql_now w) (row_locked w) (primary w))), w))"
    assume body: "run_state (do { sel \<leftarrow> ?sel;
         case sel of
           Inl e \<Rightarrow> if errors_Is e ErrNoRows then ok None else fail e
         | Inr (runID, jobID) \<Rightarrow>
             check_err (update_lease runID x ld) (\<lambda>_. check_err (fetchRun OnTx runID) (\<lambda>run.
             check_err (fetchJob OnTx jobID) (\<lambda>job. check_err tx_commit (\<lambda>_. ok (Some (run, job)))))) }) ?w1 = (rs, w2)"
    obtain sl wS where sl: "run_state ?sel ?w1 = (sl, wS)" by (cases "run_state ?sel ?w1")
    then obtain s' c' where wS: "wS = later ?w1 s' c'" and
      cs: "sl = Inl ErrConn \<or> sl = row_result (map_option (\<lambda>r. (run_ID r, run_JobID r)) (lease_candidate c (row_locked ?w1) (primary ?w1)))"
      by (rule lease_select [where d = "primary w" and t = c]) (simp, blast)
    show "tx_saved w2 = Some (primary w, c) \<and> ?N c rs \<or> tx_saved w2 = None \<and> ?Q c rs (primary w2)"
    proof (cases "lease_candidate c (row_locked w) (primary w)")
      case None
      then show ?thesis using body sl wS cs by (auto simp: row_result_def)
    next
      case (Some r)
      show ?thesis
      proof (cases "sl = Inl ErrConn")
        case True
        then show ?thesis using body sl wS by auto
      next
        case False
        then have "sl = Inr (run_ID r, run_JobID r)" using cs Some by (simp add: row_result_def)
        with body sl lease_committed [OF assms(1) Some, of wS x ld rs w2] wS Some show ?thesis by simp
      qed
    qed
  qed
  then show ?thesis by blast
qed

subsection \<open>CreateJob\<close>

definition created_db :: "gval job_row \<Rightarrow> uid list \<Rightarrow> db \<Rightarrow> db" where
  "created_db row us d = d\<lparr>jobs := jobs d @ [row], job_dependencies := job_dependencies d @ map (Pair (job_ID row)) us\<rparr>"

lemma insert_dependency_Inr:
  assumes "run_state (insert_dependency j dep) w = (Inr x, w')"
  obtains s c u where "uuid_in w dep = Some u" and "job_exists u (primary w)" and "(j, u) \<notin> set (job_dependencies (primary w))"
    and "w' = write_db (\<lambda>d. d\<lparr>job_dependencies := job_dependencies d @ [(j, u)]\<rparr>) (later w s c)"
  using assms unfolding insert_dependency_def by (auto split: if_splits elim!: driver_uuid_Inr)

lemma insert_dependencies_Inr:
  assumes "run_state (for_each_err (\<lambda>dep. do { d \<leftarrow> insert_dependency j dep; ret (wrap_err m d) }) deps) w = (Inr xs, w')"
  shows "\<exists>us. map (uuid_in w) deps = map Some us \<and> (\<forall>u\<in>set us. job_exists u (primary w)) \<and> distinct us \<and>
    set (job_dependencies (primary w)) \<inter> Pair j ` set us = {} \<and>
    primary w' = (primary w)\<lparr>job_dependencies := job_dependencies (primary w) @ map (Pair j) us\<rparr> \<and> tx_saved w' = tx_saved w"
  using assms
proof (induction deps arbitrary: w xs)
  case Nil
  then show ?case by simp
next
  case (Cons dep deps)
  then obtain x w1 ys where first: "run_state (insert_dependency j dep) w = (Inr x, w1)"
    and rest: "run_state (for_each_err (\<lambda>dep. do { d \<leftarrow> insert_dependency j dep; ret (wrap_err m d) }) deps) w1 = (Inr ys, w')"
    by (auto simp: run_check_err wrap_err_def split: prod.splits sum.splits)
  from first obtain s c u where u: "uuid_in w dep = Some u" "job_exists u (primary w)" "(j, u) \<notin> set (job_dependencies (primary w))"
    and w1: "w1 = write_db (\<lambda>d. d\<lparr>job_dependencies := job_dependencies d @ [(j, u)]\<rparr>) (later w s c)"
    by (rule insert_dependency_Inr)
  from Cons.IH [OF rest] obtain us where us: "map (uuid_in w) deps = map Some us" "\<forall>u\<in>set us. job_exists u (primary w)"
    "distinct us" "set (job_dependencies (primary w1)) \<inter> Pair j ` set us = {}"
    and w': "primary w' = (primary w1)\<lparr>job_dependencies := job_dependencies (primary w1) @ map (Pair j) us\<rparr>" "tx_saved w' = tx_saved w1"
    using w1 by (auto simp: write_db_def)
  have "map (uuid_in w) (dep # deps) = map Some (u # us)" using u us by simp
  moreover have "distinct (u # us)" and "set (job_dependencies (primary w)) \<inter> Pair j ` set (u # us) = {}"
    using us u w1 by (auto simp: write_db_def)
  ultimately show ?case using u us w' w1
    by (intro exI [of _ "u # us"]) (simp add: write_db_def)
qed

lemma insert_job_Inr:
  assumes "run_state (insert_job i v) w = (Inr row, w')" and "tx_saved w = Some (d, t)"
  obtains s c where "row = new_job_row (uuid_gen w (uuid_next w)) t i v" and "job_insertable row (primary w)"
    and "w' = write_db (\<lambda>d. d\<lparr>jobs := jobs d @ [row]\<rparr>) ((later w s c)\<lparr>uuid_next := Suc (uuid_next w)\<rparr>)"
  using assms unfolding insert_job_def
  by (auto simp: fresh_uuid_def Let_def split: if_splits elim!: driver_call_Inr)

lemma create_committed:
  assumes row: "row = new_job_row (uuid_gen w (uuid_next w)) t i v" and free: "job_insertable row (primary w)"
    and wI: "wI = write_db (\<lambda>d. d\<lparr>jobs := jobs d @ [row]\<rparr>) ((later w1 s c)\<lparr>uuid_next := n\<rparr>)"
    and w1: "w1 = (later w s' c')\<lparr>tx_saved := Some (primary w, t)\<rparr>"
    and tail: "run_state (check_err (for_each_err (\<lambda>dep. do { d \<leftarrow> insert_dependency (job_ID row) dep;
      ret (wrap_err ''insert dependency'' d) }) (in_DependsOn i)) (\<lambda>_. check_err tx_commit (\<lambda>_. ok job))) wI = (rs, w2)"
  shows "tx_saved w2 = Some (primary w, t) \<and> (\<exists>e. rs = Inl e) \<or> tx_saved w2 = None \<and>
    (\<exists>us. map (uuid_in w) (in_DependsOn i) = map Some us \<and> distinct us \<and>
      (\<forall>u\<in>set us. job_exists u (primary w) \<or> u = job_ID row) \<and> primary w2 = created_db row us (primary w) \<and>
      (rs = Inl ErrConn \<or> rs = Inr job))"
proof -
  have txI: "tx_saved wI = Some (primary w, t)" using wI w1 by simp
  have "same_tx (for_each_err (\<lambda>dep. do { d \<leftarrow> insert_dependency (job_ID row) dep;
      ret (wrap_err ''insert dependency'' d) }) (in_DependsOn i))" by (intro same_tx_rules same_tx_stmts)
  with tail show ?thesis
  proof (cases rule: tx_stmt_cases)
    case (went_on xs wL)
    from insert_dependencies_Inr [OF went_on(1)] obtain us where
      us: "map (uuid_in w) (in_DependsOn i) = map Some us" "distinct us" "\<forall>u\<in>set us. job_exists u (primary w) \<or> u = job_ID row"
      and wL: "primary wL = created_db row us (primary w)"
      using wI w1 by (auto simp: write_db_def created_db_def)
    obtain rc wC where commit: "run_state tx_commit wL = (rc, wC)" by (cases "run_state tx_commit wL")
    then have "w2 = wC" "rs = (case rc of Inl e \<Rightarrow> Inl e | Inr _ \<Rightarrow> Inr job)"
      using went_on(3) by (auto simp: run_check_err split: sum.splits)
    then show ?thesis using commit_cases [OF commit] went_on(2) txI wL us by auto
  qed (use txI in simp)
qed

lemma CreateJob_cases:
  assumes "tx_closed w" and "run_state (CreateJob i) w = (res, w')"
  shows "primary w' = primary w \<and> (\<exists>e. res = Inl e) \<or>
    (\<exists>t v us row. clock w \<le> t \<and> json_Marshal (in_Payload i) = Inr v \<and>
      row = new_job_row (uuid_gen w (uuid_next w)) t i v \<and> job_insertable row (primary w) \<and>
      map (uuid_in w) (in_DependsOn i) = map Some us \<and> distinct us \<and>
      (\<forall>u\<in>set us. job_exists u (primary w) \<or> u = job_ID row) \<and> primary w' = created_db row us (primary w) \<and>
      (res = Inl ErrConn \<or> res = Inr (job_of_row row (in_Payload i) (in_DependsOn i))))"
proof (cases "json_Marshal (in_Payload i)")
  case (Inl e)
  then show ?thesis using assms(2) by (auto simp: CreateJob_def)
next
  case (Inr v)
  let ?loop = "\<lambda>row. for_each_err (\<lambda>dep. do { d \<leftarrow> insert_dependency (job_ID row) dep;
      ret (wrap_err ''insert dependency'' d) }) (in_DependsOn i)"
  let ?Q = "\<lambda>t res d. \<exists>us row. row = new_job_row (uuid_gen w (uuid_next w)) t i v \<and> job_insertable row (primary w) \<and>
      map (uuid_in w) (in_DependsOn i) = map Some us \<and> distinct us \<and>
      (\<forall>u\<in>set us. job_exists u (primary w) \<or> u = job_ID row) \<and> d = created_db row us (primary w) \<and>
      (res = Inl ErrConn \<or> res = Inr (job_of_row row (in_Payload i) (in_DependsOn i)))"
  let ?body = "do { r \<leftarrow> insert_job i v; case r of
         Inl e \<Rightarrow> if errors_As_PgError e = Some ''23505'' then fail ErrIdempotencyConflict
                  else fail (ErrWrap ''insert job'' e)
       | Inr row \<Rightarrow>
           check_err (lift_result (wrap_err ''unmarshal payload'' (json_Unmarshal (job_Payload row)))) (\<lambda>payload.
           check_err (?loop row) (\<lambda>_. check_err tx_commit (\<lambda>_. ok (job_of_row row payload (in_DependsOn i))))) }"
  have run: "run_state (check_err tx_begin (\<lambda>_. defer_rollback ?body)) w = (res, w')"
    using assms(2) Inr by (simp add: CreateJob_def)
  have "primary w' = primary w \<and> (res = Inl ErrConn \<or> (\<exists>c. clock w \<le> c \<and> (\<exists>e. res = Inl e))) \<or>
    (\<exists>c. clock w \<le> c \<and> ?Q c res (primary w'))"
  proof (rule transaction_cases [OF run assms(1)])
    fix s c rs w2
    let ?w1 = "(later w s c)\<lparr>tx_saved := Some (primary w, c)\<rparr>"
    assume body: "run_state ?body ?w1 = (rs, w2)"
    obtain r wI where ins: "run_state (insert_job i v) ?w1 = (r, wI)" by (cases "run_state (insert_job i v) ?w1")
    have txI: "tx_saved wI = Some (primary w, c)" using same_txD [OF same_tx_stmts(1) ins] by simp
    show "tx_saved w2 = Some (primary w, c) \<and> (\<exists>e. rs = Inl e) \<or> tx_saved w2 = None \<and> ?Q c rs (primary w2)"
    proof (cases r)
      case (Inl e)
      then show ?thesis using body ins txI by (auto split: if_splits)
    next
      case inserted: (Inr row)
      from ins [unfolded inserted] obtain s' c' where row: "row = new_job_row (uuid_gen w (uuid_next w)) c i v"
        and free: "job_insertable row (primary w)"
        and wI: "wI = write_db (\<lambda>d. d\<lparr>jobs := jobs d @ [row]\<rparr>) ((later ?w1 s' c')\<lparr>uuid_next := Suc (uuid_next w)\<rparr>)"
        by (auto elim!: insert_job_Inr)
      have "json_Unmarshal (job_Payload row) = Inr (in_Payload i)"
        using json_roundtrip [OF Inr] row by (simp add: new_job_row_def)
      then have tail: "run_state (check_err (?loop row) (\<lambda>_. check_err tx_commit (\<lambda>_. ok (job_of_row row (in_Payload i) (in_DependsOn i))))) wI = (rs, w2)"
        using body ins inserted by simp
      show ?thesis using create_committed [OF row free wI refl tail] row free by simp
    qed
  qed
  then show ?thesis using Inr by blast
qed

lemma CreateJob_Inr:
  assumes "tx_closed w" and "run_state (CreateJob i) w = (Inr job, w')"
  obtains t v us row where "json_Marshal (in_Payload i) = Inr v" and "row = new_job_row (uuid_gen w (uuid_next w)) t i v"
    and "job_insertable row (primary w)" and "map (uuid_in w) (in_DependsOn i) = map Some us"
    and "primary w' = created_db row us (primary w)" and "job = job_of_row row (in_Payload i) (in_DependsOn i)"
  using CreateJob_cases [OF assms]
  by (elim disjE exE conjE, simp, simp, drule_tac Inr_inject) (rule that; assumption)

subsection \<open>MarkDead\<close>

definition buried_db :: "dead_letter \<Rightarrow> db \<Rightarrow> db" where
  "buried_db l d = d\<lparr>dead_letters := dead_letters d @ [l],
     job_runs := update_where (\<lambda>r. run_ID r = dl_JobRunID l) (\<lambda>r. r\<lparr>run_Status := RunStatusDead\<rparr>) (job_runs d)\<rparr>"

lemma insert_dead_letter_Inr:
  assumes "run_state (insert_dead_letter i reason v) w = (Inr x, w')" and "uuid_in w i = Some u" and "tx_saved w = Some (d, t)"
  obtains s c where "w' = write_db (\<lambda>d. d\<lparr>dead_letters := dead_letters d @ [\<lparr>dl_ID = uuid_gen w (uuid_next w), dl_JobRunID = u,
      dl_Reason = reason, dl_Payload = v, dl_CreatedAt = t\<rparr>]\<rparr>) ((later w s c)\<lparr>uuid_next := Suc (uuid_next w)\<rparr>)"
  using assms unfolding insert_dead_letter_def
  by (auto simp: fresh_uuid_def split: if_splits elim!: driver_uuid_Inr)

lemma bury_run_Inr:
  assumes "run_state (driver_call (with_uuid i (\<lambda>u. update_runs (\<lambda>r. run_ID r = u) f))) w = (Inr x, w')" and "uuid_in w i = Some u"
  shows "primary w' = (primary w)\<lparr>job_runs := update_where (\<lambda>r. run_ID r = u) f (job_runs (primary w))\<rparr>"
  using assms by (auto simp: update_runs_def write_db_def elim!: driver_uuid_Inr)

lemma same_tx_bury: "same_tx (driver_call (with_uuid i (\<lambda>u. update_runs (\<lambda>r. run_ID r = u) f)))"
  by (rule same_tx_uuid_call) simp

text \<open>The body after the run was read: the dead letter and the status change are committed together.\<close>

lemma bury_committed:
  assumes w1: "primary w1 = primary w" "uuid_in w1 i = Some u" "tx_saved w1 = Some (primary w, t)" "uuid_gen w1 = uuid_gen w" "uuid_next w1 = uuid_next w"
    and tail: "run_state (check_err (insert_dead_letter i reason raw) (\<lambda>_.
       check_err (driver_call (with_uuid i (\<lambda>u. update_runs (\<lambda>r. run_ID r = u) (\<lambda>r. r\<lparr>run_Status := RunStatusDead\<rparr>)))) (\<lambda>_.
       tx_commit))) w1 = (rs, w2)"
  shows "tx_saved w2 = Some (primary w, t) \<and> (\<exists>e. rs = Inl e) \<or> tx_saved w2 = None \<and>
     primary w2 = buried_db \<lparr>dl_ID = uuid_gen w (uuid_next w), dl_JobRunID = u, dl_Reason = reason, dl_Payload = raw, dl_CreatedAt = t\<rparr> (primary w) \<and>
     (rs = Inr () \<or> rs = Inl ErrConn)"
  using tail same_tx_stmts(3)
proof (cases rule: tx_stmt_cases)
  case (went_on x wD)
  let ?l = "\<lparr>dl_ID = uuid_gen w (uuid_next w), dl_JobRunID = u, dl_Reason = reason, dl_Payload = raw, dl_CreatedAt = t\<rparr>"
  obtain s c where "wD = write_db (\<lambda>d. d\<lparr>dead_letters := dead_letters d @ [?l]\<rparr>) ((later w1 s c)\<lparr>uuid_next := Suc (uuid_next w1)\<rparr>)"
    using w1(4,5) by (rule_tac insert_dead_letter_Inr [OF went_on(1) w1(2,3)]) simp
  then have pD: "primary wD = (primary w)\<lparr>dead_letters := dead_letters (primary w) @ [?l]\<rparr>" and uD: "uuid_in wD i = Some u"
    using w1 by (simp_all add: write_db_def)
  from went_on(3) same_tx_bury show ?thesis
  proof (cases rule: tx_stmt_cases)
    case updated: (went_on n wU)
    then show ?thesis
      using commit_cases [OF updated(3)] bury_run_Inr [OF updated(1) uD] went_on(2) pD w1(3) by (auto simp: buried_db_def)
  qed (use went_on(2) w1(3) in simp)
qed (use w1(3) in simp)

lemma MarkDead_cases:
  assumes "wf_world w" and "run_state (MarkDead i reason) w = (res, w')"
  shows "primary w' = primary w \<and> (\<exists>e. res = Inl e) \<or>
    (\<exists>t r raw. clock w \<le> t \<and> uuid_in w i = Some (run_ID r) \<and> r \<in> set (job_runs (primary w)) \<and>
      json_Marshal (dead_letter_payload (run_view r)) = Inr raw \<and>
      primary w' = buried_db \<lparr>dl_ID = uuid_gen w (uuid_next w), dl_JobRunID = run_ID r, dl_Reason = reason,
        dl_Payload = raw, dl_CreatedAt = t\<rparr> (primary w) \<and> (res = Inr () \<or> res = Inl ErrConn))"
proof -
  let ?Q = "\<lambda>t res d. \<exists>r raw. uuid_in w i = Some (run_ID r) \<and> r \<in> set (job_runs (primary w)) \<and>
      json_Marshal (dead_letter_payload (run_view r)) = Inr raw \<and>
      d = buried_db \<lparr>dl_ID = uuid_gen w (uuid_next w), dl_JobRunID = run_ID r, dl_Reason = reason,
        dl_Payload = raw, dl_CreatedAt = t\<rparr> (primary w) \<and> (res = Inr () \<or> res = Inl ErrConn)"
  have "primary w' = primary w \<and> (res = Inl ErrConn \<or> (\<exists>c. clock w \<le> c \<and> (\<exists>e. res = Inl e))) \<or>
    (\<exists>c. clock w \<le> c \<and> ?Q c res (primary w'))"
  proof (rule transaction_cases [OF assms(2) [unfolded MarkDead_def] wf_worldD(1) [OF assms(1)]])
    fix s c rs w2
    let ?w1 = "(later w s c)\<lparr>tx_saved := Some (primary w, c)\<rparr>"
    assume body: "run_state (check_err (not_found (fetchRun OnTx i)) (\<lambda>run.
       check_err (lift_result (wrap_err ''marshal dead letter payload'' (json_Marshal (dead_letter_payload run)))) (\<lambda>payloadRaw.
       check_err (insert_dead_letter i reason payloadRaw) (\<lambda>_.
       check_err (driver_call (with_uuid i (\<lambda>u.
         update_runs (\<lambda>r. run_ID r = u) (\<lambda>r. r\<lparr>run_Status := RunStatusDead\<rparr>)))) (\<lambda>_. tx_commit))))) ?w1 = (rs, w2)"
    from body same_tx_stmts(7)
    show "tx_saved w2 = Some (primary w, c) \<and> (\<exists>e. rs = Inl e) \<or> tx_saved w2 = None \<and> ?Q c rs (primary w2)"
    proof (cases rule: tx_stmt_cases)
      case (went_on run wF)
      then have "run_state (fetchRun OnTx i) ?w1 = (Inr run, wF)"
        by (auto simp: run_not_found split: prod.splits sum.splits)
      then obtain s' c' u r where wF: "wF = later ?w1 s' c'" and u: "uuid_in w i = Some u"
        and r: "List.find (\<lambda>r. run_ID r = u) (job_runs (primary w)) = Some r" and "scanRun r = Inr run"
        by (auto elim!: fetchRun_Inr)
      then have r_in: "r \<in> set (job_runs (primary w))" "run_ID r = u" and run: "run = run_view r"
        using scanRun_good [OF wf_worldD(2) [OF assms(1)]] by (auto dest: find_SomeD)
      obtain raw where raw: "json_Marshal (dead_letter_payload (run_view r)) = Inr raw"
        using json_Marshal_dead_letter integrity_run [OF wf_worldD(2) [OF assms(1)] r_in(1)] by blast
      have "uuid_in wF i = Some u" using wF u by simp
      with bury_committed [of wF w i u c reason raw rs w2] show ?thesis
        using went_on(3) run raw r_in u wF by auto
    qed simp
  qed
  then show ?thesis by blast
qed

subsection \<open>ReclaimExpiredLeases\<close>

lemma ReclaimExpiredLeases_cases:
  assumes "tx_closed w" and "run_state ReclaimExpiredLeases w = (res, w')"
  shows "primary w' = primary w \<and> res = Inl ErrConn \<or>
    clock w \<le> clock w' \<and> primary w' = (primary w)\<lparr>job_runs := update_where (lease_expired (clock w')) reclaim_row (job_runs (primary w))\<rparr> \<and>
      (res = Inl ErrConn \<or> res = Inr (rows_affected (lease_expired (clock w')) (job_runs (primary w))))"
proof -
  obtain flt w1 where dl: "deliver w = (flt, w1)" by (cases "deliver w")
  then obtain s c where c: "clock w \<le> c" and w1: "w1 = later w s c" by (rule deliver_later)
  have now: "sql_now w1 = c" using assms(1) w1 by (simp add: sql_now_def)
  show ?thesis
  proof (cases "flt = Lost_request")
    case True
    then show ?thesis using assms(2) dl w1 by (auto simp: ReclaimExpiredLeases_def driver_call_def)
  next
    case False
    then have "primary w' = (primary w)\<lparr>job_runs := update_where (lease_expired c) reclaim_row (job_runs (primary w))\<rparr>"
      and "res = Inl ErrConn \<or> res = Inr (rows_affected (lease_expired c) (job_runs (primary w)))" and "clock w' = c"
      using assms(2) dl w1 now
      by (auto simp: ReclaimExpiredLeases_def driver_call_def update_runs_def write_db_def split: fault.splits)
    then show ?thesis using c by simp
  qed
qed

end
