(* ===== verification/Demo.thy ===== *)
theory Demo
  imports Store_Atomic
begin

text \<open>
  Concrete states in which the hypotheses of the theorems are discharged: a generator of
  pairwise different identifiers, a database with one job and one with a job and a due run.
\<close>

definition demo_uuid :: "nat \<Rightarrow> uid" where
  "demo_uuid n = replicate (Suc n) CHR ''1''"

definition demo_uuid_in :: "string \<Rightarrow> uid option" where
  "demo_uuid_in s = (if s \<noteq> [] \<and> list_all (\<lambda>c. c = CHR ''1'') s then Some s else None)"

definition demo_world :: "db \<Rightarrow> nat \<Rightarrow> world" where
  "demo_world d n = \<lparr>primary = d, replica = None, tx_saved = None, clock = 0, uuid_gen = demo_uuid, uuid_next = n,
     uuid_in = demo_uuid_in, row_locked = (\<lambda>_. False), script = []\<rparr>"

definition demo_input :: new_job_input where
  "demo_input = \<lparr>in_Name = ''echo'', in_Payload = Some [(''msg'', GStr ''hi'')], in_CronExpr = None, in_Priority = 3,
     in_MaxAttempts = 5, in_TimeoutSeconds = 300, in_IdempotencyKey = Some ''key-1'', in_DependsOn = []\<rparr>"

definition demo_job :: "gval job_row" where
  "demo_job = new_job_row (demo_uuid 0) 0 demo_input (GObj [(''msg'', GStr ''hi'')])"

definition demo_run :: run_row where
  "demo_run = new_run_row (demo_uuid 1) 0 (demo_uuid 0) 3 0"

definition demo_db :: db where
  "demo_db = empty_db\<lparr>jobs := [demo_job], job_runs := [demo_run]\<rparr>"

lemma demo_uuid_simps [simp]: "demo_uuid m = demo_uuid n \<longleftrightarrow> m = n" "demo_uuid_in (demo_uuid n) = Some (demo_uuid n)"
  by (simp_all add: demo_uuid_def demo_uuid_in_def list_all_iff)

lemma inj_demo_uuid: "inj demo_uuid"
  by (simp add: inj_def)

lemma demo_world_simps [simp]:
  "primary (demo_world d n) = d" "replica (demo_world d n) = None" "tx_saved (demo_world d n) = None"
  "clock (demo_world d n) = 0" "uuid_gen (demo_world d n) = demo_uuid" "uuid_next (demo_world d n) = n"
  "uuid_in (demo_world d n) = demo_uuid_in" "row_locked (demo_world d n) = (\<lambda>_. False)" "script (demo_world d n) = []"
  by (simp_all add: demo_world_def)

lemma good_demo_world: "integrity d \<Longrightarrow> ids_issued demo_uuid n d \<Longrightarrow> good (demo_world d n)"
  by (simp add: good_def wf_world_def inj_demo_uuid)

lemma good_demo_empty: "good (demo_world empty_db 0)"
  by (rule good_demo_world [OF integrity_empty]) (simp add: ids_issued_def empty_db_def job_exists_def run_exists_def)

lemma good_demo: "good (demo_world demo_db 2)"
proof (rule good_demo_world)
  show "integrity demo_db"
    by (simp add: integrity_def demo_db_def empty_db_def demo_job_def demo_run_def new_job_row_def new_run_row_def
        demo_input_def json_column_def job_exists_def run_exists_def)
  have "demo_uuid 0 \<in> demo_uuid ` {..<2}" and "demo_uuid 1 \<in> demo_uuid ` {..<2}"
    by (rule imageI, simp)+
  then show "ids_issued demo_uuid 2 demo_db"
    by (simp add: ids_issued_def demo_db_def empty_db_def demo_job_def demo_run_def new_job_row_def new_run_row_def
        job_exists_def run_exists_def)
qed

lemma wf_demo: "wf_world (demo_world empty_db 0)" "wf_world (demo_world demo_db 2)"
  using good_demo_empty good_demo by (simp_all add: good_def)

end
