(* ===== verification/Store_Props.thy ===== *)
theory Store_Props
  imports Demo
begin

text \<open>
  The properties of the store that its clients build on, each with a concrete instance.
\<close>

subsection \<open>Whole histories\<close>

text \<open>
  C1. Starting from an empty schema with no transaction open, after any sequence of
  operations of the store by any services, with any requests and replies lost on the way,
  the tables satisfy every constraint of the schema (unique job, run and worker identifiers,
  unique idempotency keys, no dangling reference from a dependency, a run or a dead letter),
  every stored payload and result can be decoded again, no attempt counter is negative,
  and no transaction is left open.
\<close>

theorem store_integrity:
  assumes "store_steps w0 w" and "primary w0 = empty_db" and "tx_closed w0"
  shows "integrity (primary w) \<and> tx_closed w"
proof -
  have "both (uuid_gen w0) (\<lambda>_. integrity) w0"
    using assms(2,3) by (simp add: both_closed integrity_empty)
  then have "both (uuid_gen w0) (\<lambda>_. integrity) w"
    by (rule schema.steps_keep [OF assms(1)])
  then show ?thesis using steps_closed [OF assms(1,3)] by (simp add: both_def)
qed

theorem store_integrity_witness:
  "integrity (primary (snd (run_state (CreateJob demo_input) (demo_world empty_db 0)))) \<and>
   tx_closed (snd (run_state (CreateJob demo_input) (demo_world empty_db 0)))"
  by (rule store_integrity [OF one_store_step [OF store_step.create_job]]) simp_all

text \<open>
  C2. No operation deletes or reorders rows: after any sequence of operations every job, run,
  dependency and dead letter that was there is still at its place. A job has at most its
  status and update time changed; a run keeps its identifier, job, priority and creation
  time, and its attempt counter never goes down.
\<close>

theorem store_history_grows:
  assumes "store_steps w w'" and "tx_closed w"
  shows "grows (primary w) (primary w')"
  by (rule steps_grow [OF assms])

theorem store_history_grows_witness:
  "grows demo_db (primary (snd (run_state (LeaseNextRun ''w1'' 30) (demo_world demo_db 2))))"
  using store_history_grows [OF one_store_step [OF store_step.lease_next_run], of "demo_world demo_db 2" "''w1''" 30]
  by simp

subsection \<open>Creating jobs\<close>

text \<open>
  C3. \<open>CreateJob\<close> is atomic under every fault: either the tables are as before and the caller
  gets an error, or the job row and exactly the dependency rows the request names are
  there, all of them resolved to existing jobs and none twice. It reports success only in the
  second case; the only error it can report there is a lost reply to the commit.
\<close>

theorem create_job_atomic:
  assumes "tx_closed w" and "run_state (CreateJob i) w = (res, w')"
  shows "primary w' = primary w \<and> (\<exists>e. res = Inl e) \<or>
    (\<exists>t v us row. clock w \<le> t \<and> json_Marshal (in_Payload i) = Inr v \<and>
      row = new_job_row (uuid_gen w (uuid_next w)) t i v \<and> job_insertable row (primary w) \<and>
      map (uuid_in w) (in_DependsOn i) = map Some us \<and> distinct us \<and>
      (\<forall>u\<in>set us. job_exists u (primary w) \<or> u = job_ID row) \<and> primary w' = created_db row us (primary w) \<and>
      (res = Inl ErrConn \<or> res = Inr (job_of_row row (in_Payload i) (in_DependsOn i))))"
  by (rule CreateJob_cases [OF assms])

lemma demo_CreateJob:
  "run_state (CreateJob demo_input) (demo_world empty_db 0) =
     (Inr (job_of_row demo_job (in_Payload demo_input) []), demo_world (empty_db\<lparr>jobs := [demo_job]\<rparr>) 1)"
  by (simp add: CreateJob_def demo_input_def demo_job_def json_Marshal_def json_Unmarshal_def db_simps insert_job_def
      fresh_uuid_def Let_def sql_now_def job_insertable_def empty_db_def write_db_def new_job_row_def demo_world_def)

theorem create_job_atomic_witness:
  "\<exists>us. map demo_uuid_in (in_DependsOn demo_input) = map Some us \<and>
     empty_db\<lparr>jobs := [demo_job]\<rparr> = created_db demo_job us empty_db"
  using create_job_atomic [OF _ demo_CreateJob] by (auto simp: demo_job_def demo_input_def new_job_row_def created_db_def empty_db_def)

text \<open>
  Idempotency keys are used once: while a job with the key is in the table, no
  \<open>CreateJob\<close> with that key succeeds or changes the tables, whatever is lost on the way; and
  with nothing lost the caller is told so by \<open>ErrIdempotencyConflict\<close>.
\<close>

theorem idempotency_key_used_once:
  assumes "tx_closed w" and "j \<in> set (jobs (primary w))" and "job_IdempotencyKey j = Some key"
    and "in_IdempotencyKey i = Some key" and "run_state (CreateJob i) w = (res, w')"
  shows "primary w' = primary w \<and> (\<exists>e. res = Inl e) \<and>
    (script w = [] \<longrightarrow> json_Marshal (in_Payload i) = Inr v \<longrightarrow> res = Inl ErrIdempotencyConflict)"
proof -
  have "\<not> job_insertable (new_job_row u t i v) (primary w)" for u t v
    using assms(2-4) by (auto simp: job_insertable_def new_job_row_def)
  then have "primary w' = primary w \<and> (\<exists>e. res = Inl e)"
    and "script w = [] \<longrightarrow> json_Marshal (in_Payload i) = Inr v \<longrightarrow> res = Inl ErrIdempotencyConflict"
    using CreateJob_cases [OF assms(1,5)] assms(5)
    by (blast, auto simp: CreateJob_def db_simps insert_job_def fresh_uuid_def Let_def sql_now_def)
  then show ?thesis by simp
qed

theorem idempotency_key_used_once_witness:
  "fst (run_state (CreateJob demo_input) (demo_world demo_db 2)) = Inl ErrIdempotencyConflict \<and>
   primary (snd (run_state (CreateJob demo_input) (demo_world demo_db 2))) = demo_db"
  using idempotency_key_used_once [of "demo_world demo_db 2" demo_job "''key-1''" demo_input
      "fst (run_state (CreateJob demo_input) (demo_world demo_db 2))"
      "snd (run_state (CreateJob demo_input) (demo_world demo_db 2))" "GObj [(''msg'', GStr ''hi'')]"]
  by (simp add: demo_db_def demo_job_def demo_input_def new_job_row_def json_Marshal_def)

text \<open>The row of a job that was just created is the one both lookups find.\<close>

lemma created_lookup:
  assumes "job_insertable row d"
  shows "List.find (\<lambda>r. job_ID r = job_ID row) (jobs (created_db row us d)) = Some row"
    and "job_IdempotencyKey row = Some key \<Longrightarrow>
      List.find (\<lambda>r. job_IdempotencyKey r = Some key) (jobs (created_db row us d)) = Some row"
proof -
  have find_last: "List.find p (xs @ [x]) = Some x" if "\<forall>y\<in>set xs. \<not> p y" "p x"
    for p :: "gval job_row \<Rightarrow> bool" and xs x
    using that by (induction xs) auto
  show "List.find (\<lambda>r. job_ID r = job_ID row) (jobs (created_db row us d)) = Some row"
    using assms unfolding created_db_def job_insertable_def by (simp add: find_last)
  show "List.find (\<lambda>r. job_IdempotencyKey r = Some key) (jobs (created_db row us d)) = Some row"
    if "job_IdempotencyKey row = Some key"
    using assms that unfolding created_db_def job_insertable_def by (simp add: find_last)
qed

lemma created_deps:
  assumes "integrity d" and "job_insertable row d"
  shows "deps_of (job_ID row) (created_db row us d) = us"
proof -
  have "\<not> job_exists (job_ID row) d" using assms(2) by (auto simp: job_insertable_def job_exists_def)
  then have "filter (\<lambda>e. fst e = job_ID row) (job_dependencies d) = []"
    using integrity_deps [OF assms(1)] by (auto simp: filter_empty_conv)
  moreover have "filter (\<lambda>e. fst e = job_ID row) (map (Pair (job_ID row)) us) = map (Pair (job_ID row)) us"
    by (simp add: filter_id_conv)
  ultimately show ?thesis by (simp add: deps_of_def created_db_def comp_def)
qed

text \<open>
  C4. Reading back what was written, on a database whose calls do not fail and without a read replica (a replica that lags behind
  may answer that the job does not exist): after a successful \<open>CreateJob\<close>, both \<open>GetJob\<close> with the
  returned identifier and \<open>GetJobByIdempotencyKey\<close> with the request's key return a job
  that has the name, payload, cron expression, priority, attempt limit, timeout and
  idempotency key of the request, is active, and depends on the requested jobs in order.
\<close>

theorem create_job_roundtrip:
  assumes "good w" and "run_state (CreateJob i) w = (Inr job, w')"
  shows "\<exists>us. map (uuid_in w) (in_DependsOn i) = map Some us \<and>
    fst (run_state (GetJob (job_ID job)) w') = Inr (job\<lparr>job_DependsOn := us\<rparr>) \<and>
    (\<forall>key. in_IdempotencyKey i = Some key \<longrightarrow>
       fst (run_state (GetJobByIdempotencyKey key) w') = Inr (job\<lparr>job_DependsOn := us\<rparr>)) \<and>
    job_Payload job = in_Payload i \<and> job_Name job = in_Name i \<and> job_Status job = JobStatusActive \<and>
    job_CronExpr job = in_CronExpr i \<and> job_Priority job = in_Priority i \<and> job_MaxAttempts job = in_MaxAttempts i \<and>
    job_TimeoutSeconds job = in_TimeoutSeconds i \<and> job_IdempotencyKey job = in_IdempotencyKey i"
proof -
  have wf: "wf_world w" using assms(1) by (simp add: good_def)
  have good': "good w'" by (rule good_store(1) [OF assms])
  obtain t v us row where
    v: "json_Marshal (in_Payload i) = Inr v" and row: "row = new_job_row (uuid_gen w (uuid_next w)) t i v"
    and free: "job_insertable row (primary w)" and us: "map (uuid_in w) (in_DependsOn i) = map Some us"
    and w': "primary w' = created_db row us (primary w)"
    and job: "job = job_of_row row (in_Payload i) (in_DependsOn i)"
    by (rule CreateJob_Inr [OF wf_worldD(1) [OF wf] assms(2)])
  have payload: "decode (job_Payload row) = in_Payload i"
    using json_roundtrip [OF v] row by (simp add: decode_def new_job_row_def)
  have view: "job_view (primary w') row = job\<lparr>job_DependsOn := us\<rparr>"
    using created_deps [OF wf_worldD(2) [OF wf] free] w' job payload by (simp add: job_view_def job_of_row_def)
  have "job_exists (job_ID row) (primary w')" using w' by (simp add: created_db_def job_exists_def)
  then have "uuid_in w' (job_ID row) = Some (job_ID row)" using good_uuid [OF good'] by blast
  then have "fst (run_state (GetJob (job_ID job)) w') = Inr (job\<lparr>job_DependsOn := us\<rparr>)"
    using GetJob_good [OF good', of "job_ID job"] created_lookup(1) [OF free] w' view job
    by (simp add: job_of_row_def)
  moreover have "fst (run_state (GetJobByIdempotencyKey key) w') = Inr (job\<lparr>job_DependsOn := us\<rparr>)"
    if "in_IdempotencyKey i = Some key" for key
    using GetJobByIdempotencyKey_good [OF good', of key] created_lookup(2) [OF free, of key us] w' view that row
    by (simp add: new_job_row_def)
  ultimately show ?thesis using us row job by (auto simp: job_of_row_def new_job_row_def)
qed

theorem create_job_roundtrip_witness:
  "fst (run_state (GetJob (demo_uuid 0)) (demo_world (empty_db\<lparr>jobs := [demo_job]\<rparr>) 1)) =
     Inr (job_of_row demo_job (in_Payload demo_input) [])"
  using create_job_roundtrip [OF good_demo_empty demo_CreateJob]
  by (auto simp: job_of_row_def demo_job_def new_job_row_def demo_input_def)

subsection \<open>The dependency graph\<close>

definition job_pos :: "uid \<Rightarrow> db \<Rightarrow> nat" where
  "job_pos u d = length (takeWhile (\<lambda>v. v \<noteq> u) (map job_ID (jobs d)))"

definition backward :: "db \<Rightarrow> bool" where
  "backward d \<longleftrightarrow> (\<forall>(j, u)\<in>set (job_dependencies d). job_exists j d \<and> job_exists u d \<and> job_pos u d \<le> job_pos j d)"

lemma job_pos_less: "job_exists u d \<longleftrightarrow> job_pos u d < length (jobs d)"
proof -
  have "u \<in> set us \<longleftrightarrow> length (takeWhile (\<lambda>v. v \<noteq> u) us) < length us" for us
    by (induction us) auto
  from this [of "map job_ID (jobs d)"] show ?thesis by (simp add: job_exists_def job_pos_def)
qed

lemma job_pos_nth: "job_exists u d \<Longrightarrow> map job_ID (jobs d) ! job_pos u d = u"
  using nth_length_takeWhile [of "\<lambda>v. v \<noteq> u" "map job_ID (jobs d)"] job_pos_less [of u d]
  by (simp add: job_pos_def)

lemma job_pos_inj: "job_exists u d \<Longrightarrow> job_exists v d \<Longrightarrow> job_pos u d = job_pos v d \<Longrightarrow> u = v"
  by (metis job_pos_nth)

lemma backward_acyclic:
  assumes "backward d"
  shows "acyclic (set (job_dependencies d) - Id)"
proof (rule wf_acyclic, rule wf_subset)
  show "wf (measure (\<lambda>u. length (jobs d) - job_pos u d))" by simp
  show "set (job_dependencies d) - Id \<subseteq> measure (\<lambda>u. length (jobs d) - job_pos u d)"
  proof (rule subrelI)
    fix j u assume "(j, u) \<in> set (job_dependencies d) - Id"
    then have "job_exists j d" "job_exists u d" "job_pos u d \<le> job_pos j d" "j \<noteq> u"
      using assms by (auto simp: backward_def)
    moreover then have "job_pos u d \<noteq> job_pos j d" using job_pos_inj by blast
    ultimately show "(j, u) \<in> measure (\<lambda>u. length (jobs d) - job_pos u d)"
      by (auto simp: job_pos_less)
  qed
qed

lemma backward_created:
  assumes "backward d" and "job_insertable row d" and "\<forall>u\<in>set us. job_exists u d \<or> u = job_ID row"
  shows "backward (created_db row us d)"
proof -
  let ?d = "created_db row us d"
  have new: "job_ID row \<notin> job_ID ` set (jobs d)" using assms(2) by (auto simp: job_insertable_def)
  have old: "job_pos u ?d = job_pos u d" if "job_exists u d" for u
    using that unfolding job_pos_def created_db_def job_exists_def by (auto simp: takeWhile_append1)
  have pos_new: "job_pos (job_ID row) ?d = length (jobs d)"
    using new takeWhile_append2 [of "map job_ID (jobs d)" "\<lambda>v. v \<noteq> job_ID row" "[job_ID row]"]
    by (fastforce simp: job_pos_def created_db_def)
  have ex: "job_exists u ?d \<longleftrightarrow> job_exists u d \<or> u = job_ID row" for u
    by (auto simp: created_db_def job_exists_def)
  have "job_pos u ?d \<le> job_pos (job_ID row) ?d" if "u \<in> set us" for u
    using that assms(3) old job_pos_less [of u d] pos_new by auto
  then show ?thesis
    using assms(1,3) old unfolding backward_def by (auto simp: ex) (auto simp: created_db_def)
qed

definition same_graph :: "db \<Rightarrow> db \<Rightarrow> bool" where
  "same_graph d0 d \<longleftrightarrow> map job_ID (jobs d) = map job_ID (jobs d0) \<and> job_dependencies d = job_dependencies d0"

interpretation graph: run_table_invariant gen "\<lambda>_. same_graph d0" for gen d0
proof unfold_locales
  fix d :: db and f p' assume "same_graph d0 d" and change: "\<And>r. job_change r (f r)"
  moreover have "map job_ID (update_where p' f (jobs d)) = map job_ID (jobs d)"
    by (rule map_update_where) (simp add: change job_change_fields)
  ultimately show "same_graph d0 (d\<lparr>jobs := update_where p' f (jobs d)\<rparr>)" by (simp add: same_graph_def)
qed (simp_all add: same_graph_def)

lemma backward_same_graph: "same_graph d0 d \<Longrightarrow> backward d0 \<Longrightarrow> backward d"
proof -
  assume same: "same_graph d0 d" and "backward d0"
  moreover have "job_exists u d = job_exists u d0" for u
    using same unfolding same_graph_def job_exists_def by (metis list.set_map)
  moreover have "job_pos u d = job_pos u d0" for u using same by (simp add: same_graph_def job_pos_def)
  ultimately show "backward d" by (simp add: backward_def same_graph_def)
qed

lemma graph_kept:
  assumes "keeps (both (uuid_gen w) (\<lambda>_. same_graph (primary w))) m" and "tx_closed w"
  shows "same_graph (primary w) (primary (snd (run_state m w)))"
  using keeps_snd [OF assms(1)] assms(2) by (simp add: both_def same_graph_def)

lemma step_backward: "store_step w w' \<Longrightarrow> tx_closed w \<Longrightarrow> backward (primary w) \<Longrightarrow> backward (primary w')"
proof (induction rule: store_step.induct)
  case (create_job w i)
  obtain res w' where run: "run_state (CreateJob i) w = (res, w')" by (cases "run_state (CreateJob i) w")
  then have "primary w' = primary w \<or> (\<exists>row us. job_insertable row (primary w) \<and>
      (\<forall>u\<in>set us. job_exists u (primary w) \<or> u = job_ID row) \<and> primary w' = created_db row us (primary w))"
    using CreateJob_cases [OF create_job(1) run] by blast
  then show ?case using backward_created create_job(2) run by auto
qed (erule backward_same_graph [rotated],
     (rule graph_kept, rule graph.keeps_all_but_CreateJob, assumption | simp add: same_graph_def))+

lemma steps_backward: "store_steps w w' \<Longrightarrow> tx_closed w \<Longrightarrow> backward (primary w) \<Longrightarrow> backward (primary w')"
  by (induction rule: rtranclp_induct) (auto intro: step_backward steps_closed)

text \<open>
  C5. The dependency graph never has a cycle of two or more jobs: in every state reached from an
  empty schema, every dependency points from a job to one created no later, so no set of
  jobs can wait for each other. (A job that depends on itself would need its own
  identifier in the request that creates it, before the server has drawn it.)
\<close>

theorem dependencies_acyclic:
  assumes "store_steps w0 w" and "primary w0 = empty_db" and "tx_closed w0"
  shows "acyclic (set (job_dependencies (primary w)) - Id)"
  by (rule backward_acyclic, rule steps_backward [OF assms(1,3)])
     (simp add: assms(2) backward_def empty_db_def)

theorem dependencies_acyclic_witness:
  "acyclic (set (job_dependencies (primary (snd (run_state (CreateJob demo_input) (demo_world empty_db 0))))) - Id)"
  by (rule dependencies_acyclic [OF one_store_step [OF store_step.create_job]]) simp_all

subsection \<open>Leasing runs\<close>

lemma lease_candidate_Some:
  assumes "lease_candidate t lk d = Some r"
  shows "r \<in> set (job_runs d)" "run_Status r = RunStatusPending" "run_ScheduledAt r \<le> t" "\<not> lk (run_ID r)"
    and "r' \<in> set (job_runs d) \<Longrightarrow> run_Status r' = RunStatusPending \<Longrightarrow> run_ScheduledAt r' \<le> t \<Longrightarrow> \<not> lk (run_ID r') \<Longrightarrow>
      sint (run_Priority r') < sint (run_Priority r) \<or>
      run_Priority r' = run_Priority r \<and> run_ScheduledAt r \<le> run_ScheduledAt r'"
proof -
  show "r \<in> set (job_runs d)" "run_Status r = RunStatusPending" "run_ScheduledAt r \<le> t" "\<not> lk (run_ID r)"
    using first_by_in [OF assms [unfolded lease_candidate_def]] by simp_all
  assume "r' \<in> set (job_runs d)" "run_Status r' = RunStatusPending" "run_ScheduledAt r' \<le> t" "\<not> lk (run_ID r')"
  then have "queue_key_of r \<le> queue_key_of r'"
    using first_by_least [OF assms [unfolded lease_candidate_def]] by simp
  then show "sint (run_Priority r') < sint (run_Priority r) \<or>
      run_Priority r' = run_Priority r \<and> run_ScheduledAt r \<le> run_ScheduledAt r'"
    by (auto simp: sint_eq_iff queue_key_of_def less_eq_queue_key_def)
qed

lemma lease_row_fields [simp]:
  "run_ID (lease_row x ld t r) = run_ID r" "run_Status (lease_row x ld t r) = RunStatusLeased"
  "run_JobID (lease_row x ld t r) = run_JobID r" "run_ScheduledAt (lease_row x ld t r) = run_ScheduledAt r"
  "run_LeaseExpiresAt (lease_row x ld t r) = Some (t + sint ld)"
  by (simp_all add: lease_row_def)

lemma LeaseNextRun_Inr:
  assumes "wf_world w" and "run_state (LeaseNextRun x ld) w = (Inr (Some (run, job)), w')"
  obtains t r j where "clock w \<le> t" and "lease_candidate t (row_locked w) (primary w) = Some r"
    and "sint (run_Attempt r) \<noteq> 32767" and "primary w' = leased_db x ld t r (primary w)"
    and "j \<in> set (jobs (primary w))" and "job_ID j = run_JobID r"
    and "run = run_view (lease_row x ld t r)" and "job = job_view (primary w) j"
  using LeaseNextRun_cases [OF assms] by auto

text \<open>
  C6. A lease goes to the head of the queue: a run that \<open>LeaseNextRun\<close> returns was pending, due
  and not locked, and no other such run has a higher priority or, at the same priority, an
  earlier schedule. The returned struct and the stored row say that the worker holds it from the
  transaction's time for the lease duration and that one more attempt is counted (without wrapping);
  it comes with the job it belongs to, and no other row changes.
\<close>

theorem lease_takes_queue_head:
  assumes "wf_world w" and "run_state (LeaseNextRun x ld) w = (Inr (Some (run, job)), w')"
  shows "\<exists>t r. clock w \<le> t \<and> r \<in> set (job_runs (primary w)) \<and> run_Status r = RunStatusPending \<and>
    run_ScheduledAt r \<le> t \<and> \<not> row_locked w (run_ID r) \<and>
    (\<forall>r'\<in>set (job_runs (primary w)). run_Status r' = RunStatusPending \<and> run_ScheduledAt r' \<le> t \<and> \<not> row_locked w (run_ID r') \<longrightarrow>
       sint (run_Priority r') < sint (run_Priority r) \<or>
       run_Priority r' = run_Priority r \<and> run_ScheduledAt r \<le> run_ScheduledAt r') \<and>
    run = run_view (r\<lparr>run_Status := RunStatusLeased, run_LeasedBy := Some x, run_LeasedAt := Some t,
      run_LeaseExpiresAt := Some (t + sint ld), run_Attempt := run_Attempt r + 1\<rparr>) \<and>
    sint (run_Attempt run) = sint (run_Attempt r) + 1 \<and> job_ID job = run_JobID run \<and>
    primary w' = leased_db x ld t r (primary w)"
proof -
  obtain t r j where res: "clock w \<le> t" "lease_candidate t (row_locked w) (primary w) = Some r"
    "sint (run_Attempt r) \<noteq> 32767" "primary w' = leased_db x ld t r (primary w)"
    "job_ID j = run_JobID r" "run = run_view (lease_row x ld t r)" "job = job_view (primary w) j"
    by (rule LeaseNextRun_Inr [OF assms])
  have "sint (run_Attempt r + 1) = sint (run_Attempt r) + 1"
    using res(3) sint_attempt_le [of "run_Attempt r"] by (intro sint_attempt_Suc) simp
  then show ?thesis using res lease_candidate_Some [OF res(2)]
    by (intro exI [of _ t] exI [of _ r]) (auto simp: lease_row_def)
qed

lemma demo_lease:
  "run_state (LeaseNextRun ''w1'' 30000000000) (demo_world demo_db 2) =
    (Inr (Some (run_view (lease_row ''w1'' 30000000000 0 demo_run), job_view demo_db demo_job)),
     edit_run (demo_uuid 1) (lease_row ''w1'' 30000000000 0) (demo_world demo_db 2))"
  using LeaseNextRun_good [OF good_demo, of "''w1''" 30000000000]
  by (simp add: lease_candidate_def demo_db_def demo_run_def demo_job_def new_run_row_def new_job_row_def)

theorem lease_takes_queue_head_witness:
  "\<exists>r\<in>set (job_runs demo_db). run_Status r = RunStatusPending \<and>
    run_ID r = run_ID (run_view (lease_row ''w1'' 30000000000 0 demo_run))"
proof -
  obtain r t where "r \<in> set (job_runs demo_db)" "run_Status r = RunStatusPending"
    and run: "run_view (lease_row ''w1'' 30000000000 0 demo_run) =
      run_view (r\<lparr>run_Status := RunStatusLeased, run_LeasedBy := Some ''w1'', run_LeasedAt := Some t,
        run_LeaseExpiresAt := Some (t + sint (30000000000 :: duration)), run_Attempt := run_Attempt r + 1\<rparr>)"
    using lease_takes_queue_head [OF wf_demo(2) demo_lease] unfolding demo_world_simps by blast
  with arg_cong [OF run, of run_ID] show ?thesis by auto
qed

text \<open>The runs a sequence of polls handed out.\<close>

definition handed_out :: "(err + (JobRun \<times> job) option) list \<Rightarrow> uid list" where
  "handed_out rs = concat (map (\<lambda>r. case r of Inr (Some (run, _)) \<Rightarrow> [run_ID run] | _ \<Rightarrow> []) rs)"

definition pending_id :: "uid \<Rightarrow> db \<Rightarrow> bool" where
  "pending_id u d \<longleftrightarrow> (\<exists>r\<in>set (job_runs d). run_ID r = u \<and> run_Status r = RunStatusPending)"

lemma runs_leased_db: "job_runs (leased_db x ld t r d) = update_where (\<lambda>y. run_ID y = run_ID r) (lease_row x ld t) (job_runs d)"
  by (simp add: leased_db_def)

lemma pending_leased_db: "pending_id u (leased_db x ld t r d) \<Longrightarrow> pending_id u d \<and> u \<noteq> run_ID r"
proof -
  assume "pending_id u (leased_db x ld t r d)"
  then obtain y where "y \<in> set (job_runs d)" and u: "run_ID (if run_ID y = run_ID r then lease_row x ld t y else y) = u"
    and "run_Status (if run_ID y = run_ID r then lease_row x ld t y else y) = RunStatusPending"
    unfolding pending_id_def runs_leased_db set_update_where by blast
  then show ?thesis by (cases "run_ID y = run_ID r") (auto simp: pending_id_def)
qed

lemma lease_step_pending:
  assumes "wf_world w" and "run_state (LeaseNextRun x ld) w = (res, w1)"
  shows "pending_id u (primary w1) \<Longrightarrow> pending_id u (primary w)"
    and "v \<in> set (handed_out [res]) \<Longrightarrow> pending_id v (primary w) \<and> \<not> pending_id v (primary w1)"
proof -
  show "pending_id u (primary w)" if "pending_id u (primary w1)"
    using LeaseNextRun_cases [OF assms] that by (auto dest: pending_leased_db)
  assume "v \<in> set (handed_out [res])"
  then obtain run job where res: "res = Inr (Some (run, job))" and v: "v = run_ID run"
    by (auto simp: handed_out_def split: sum.splits option.splits)
  obtain t r j where "lease_candidate t (row_locked w) (primary w) = Some r"
    "primary w1 = leased_db x ld t r (primary w)" "run = run_view (lease_row x ld t r)"
    by (rule LeaseNextRun_Inr [OF assms(1) assms(2) [unfolded res]])
  then show "pending_id v (primary w) \<and> \<not> pending_id v (primary w1)"
    using v lease_candidate_Some(1,2) [of t "row_locked w" "primary w" r]
    by (auto simp: pending_id_def [of _ "primary w"] dest: pending_leased_db)
qed

text \<open>
  C7. No run is handed out twice: when any number of polls of any workers follow each other, with
  requests and replies lost anywhere, the runs they return are all different, and each was pending
  at the start. (Only an operation that requeues a run, a retry or the reclaim of an
  expired lease, makes it available again.)
\<close>

theorem leases_are_exclusive:
  assumes "wf_world w" and "run_state (for_each (\<lambda>(x, ld). LeaseNextRun x ld) polls) w = (rs, w')"
  shows "distinct (handed_out rs) \<and> (\<forall>u\<in>set (handed_out rs). pending_id u (primary w))"
  using assms
proof (induction polls arbitrary: w rs)
  case Nil
  then show ?case by (simp add: handed_out_def)
next
  case (Cons p polls)
  obtain x ld where p: "p = (x, ld)" by (cases p)
  obtain res w1 where first: "run_state (LeaseNextRun x ld) w = (res, w1)" by (cases "run_state (LeaseNextRun x ld) w")
  obtain rs' where rest: "run_state (for_each (\<lambda>(x, ld). LeaseNextRun x ld) polls) w1 = (rs', w')" and rs: "rs = res # rs'"
    using Cons.prems(2) p first by (auto split: prod.splits)
  note IH = Cons.IH [OF wf_store(4) [OF Cons.prems(1) first] rest] and step = lease_step_pending [OF Cons.prems(1) first]
  have split: "handed_out rs = handed_out [res] @ handed_out rs'" by (simp add: rs handed_out_def)
  have "distinct (handed_out [res])" by (simp add: handed_out_def split: sum.splits option.splits)
  moreover have "set (handed_out [res]) \<inter> set (handed_out rs') = {}" using IH step(2) by blast
  ultimately show ?case using IH step by (auto simp: split)
qed

theorem leases_are_exclusive_witness:
  "distinct (handed_out (fst (run_state (for_each (\<lambda>(x, ld). LeaseNextRun x ld) [(''w1'', 30), (''w2'', 30)]) (demo_world demo_db 2))))"
  using leases_are_exclusive [OF wf_demo(2), of "[(''w1'', 30), (''w2'', 30)]"] by (metis prod.collapse)

subsection \<open>Dead letters\<close>

text \<open>
  C8. Burying a run is atomic under every fault: either nothing changes and the caller
  gets an error, or exactly one dead letter is added, with the reason and with the result and
  the error the run has in the table, and that run alone is marked dead. Success is reported only in
  the second case.
\<close>

theorem mark_dead_atomic:
  assumes "wf_world w" and "run_state (MarkDead i reason) w = (res, w')"
  shows "primary w' = primary w \<and> (\<exists>e. res = Inl e) \<or>
    (\<exists>t r raw. clock w \<le> t \<and> uuid_in w i = Some (run_ID r) \<and> r \<in> set (job_runs (primary w)) \<and>
      json_Marshal (dead_letter_payload (run_view r)) = Inr raw \<and>
      primary w' = buried_db \<lparr>dl_ID = uuid_gen w (uuid_next w), dl_JobRunID = run_ID r, dl_Reason = reason,
        dl_Payload = raw, dl_CreatedAt = t\<rparr> (primary w) \<and> (res = Inr () \<or> res = Inl ErrConn))"
  by (rule MarkDead_cases [OF assms])

lemma demo_in: "demo_run \<in> set (job_runs demo_db)" "run_ID demo_run = demo_uuid 1"
  by (simp_all add: demo_db_def demo_run_def new_run_row_def)

lemma demo_MarkDead:
  "fst (run_state (MarkDead (demo_uuid 1) ''boom'') (demo_world demo_db 2)) = Inr ()"
proof -
  have "json_Marshal (dead_letter_payload (run_view demo_run)) = Inr (GObj [(''result'', GNil), (''error'', GNil)])"
    by (simp add: json_Marshal_def dead_letter_payload_def demo_run_def new_run_row_def run_view_def run_of_row_def)
  from MarkDead_good [OF good_demo _ _ this, of "demo_uuid 1" "''boom''"] show ?thesis by (simp add: demo_in)
qed

theorem mark_dead_atomic_witness:
  "\<exists>l. dl_Reason l = ''boom'' \<and>
     primary (snd (run_state (MarkDead (demo_uuid 1) ''boom'') (demo_world demo_db 2))) = buried_db l demo_db"
  using mark_dead_atomic [OF wf_demo(2) surjective_pairing, of "demo_uuid 1" "''boom''"]
  unfolding demo_world_simps demo_MarkDead by (elim disjE exE conjE; force)

subsection \<open>Expired leases\<close>

text \<open>
  C9. The janitor's statement is exact under every fault: either it did not reach the server, or
  every run that is leased or running with a lease that ended before the statement's time is pending
  again with its lease erased and its attempts kept, every other run is as before, and no expired
  lease is left. The number it reports is the number of reclaimed runs.
\<close>

theorem reclaim_exact:
  assumes "tx_closed w" and "run_state ReclaimExpiredLeases w = (res, w')"
  defines "expired \<equiv> \<lambda>r :: run_row. (run_Status r = RunStatusLeased \<or> run_Status r = RunStatusRunning) \<and>
      (\<exists>u. run_LeaseExpiresAt r = Some u \<and> u < clock w')"
  shows "primary w' = primary w \<and> res = Inl ErrConn \<or>
    clock w \<le> clock w' \<and> primary w' = (primary w)\<lparr>job_runs := map (\<lambda>r. if expired r then
         r\<lparr>run_Status := RunStatusPending, run_LeasedBy := None, run_LeasedAt := None, run_LeaseExpiresAt := None\<rparr> else r)
         (job_runs (primary w))\<rparr> \<and>
      (\<forall>r\<in>set (job_runs (primary w')). \<not> expired r) \<and>
      (res = Inl ErrConn \<or> res = Inr (length (filter expired (job_runs (primary w)))))"
proof -
  have exp: "expired = lease_expired (clock w')"
    unfolding expired_def by (intro ext) (auto simp: lease_expired_def split: option.splits)
  have cleared: "\<not> lease_expired t (r\<lparr>run_Status := RunStatusPending, run_LeasedBy := None, run_LeasedAt := None,
      run_LeaseExpiresAt := None\<rparr>)" for t and r :: run_row
    by (simp add: lease_expired_def)
  from ReclaimExpiredLeases_cases [OF assms(1,2)] show ?thesis unfolding exp
    by (elim disjE) (auto simp: cleared update_where_def reclaim_row_def rows_affected_def)
qed

definition demo_overdue :: world where
  "demo_overdue = (demo_world (demo_db\<lparr>job_runs := [demo_run\<lparr>run_Status := RunStatusRunning, run_LeaseExpiresAt := Some 4\<rparr>]\<rparr>) 2)\<lparr>clock := 5\<rparr>"

theorem reclaim_exact_witness:
  "\<exists>r. job_runs (primary (snd (run_state ReclaimExpiredLeases demo_overdue))) = [r] \<and> run_Status r = RunStatusPending"
proof -
  have run: "fst (run_state ReclaimExpiredLeases demo_overdue) = Inr 1" "clock (snd (run_state ReclaimExpiredLeases demo_overdue)) = 5"
    by (simp_all add: demo_overdue_def ReclaimExpiredLeases_def driver_call_def deliver_def update_runs_def write_db_def sql_now_def
        rows_affected_def lease_expired_def)
  have "tx_closed demo_overdue" by (simp add: demo_overdue_def)
  from reclaim_exact [OF this surjective_pairing] show ?thesis unfolding run by (auto simp: demo_overdue_def)
qed

text \<open>
  The run of a worker that is never heard of again, after the first reclaim past its lease.
\<close>

lemma reclaimed_after_lease:
  assumes "good w" and "run_state (LeaseNextRun x ld) w = (Inr (Some (run, job)), w1)"
    and "clock w1 + sint ld < c" and "clock w1 \<le> c" and "run_state ReclaimExpiredLeases (w1\<lparr>clock := c\<rparr>) = (res, w2)"
  obtains r where "r \<in> set (job_runs (primary w))" and "run_Status r = RunStatusPending" and "run_ScheduledAt r \<le> clock w"
    and "run = run_view (lease_row x ld (clock w) r)" and "reclaim_row (lease_row x ld (clock w) r) \<in> set (job_runs (primary w2))"
    and "w2 = write_db (\<lambda>d. d\<lparr>job_runs := update_where (lease_expired c) reclaim_row
          (update_where (\<lambda>y. run_ID y = run_ID r) (lease_row x ld (clock w)) (job_runs d))\<rparr>) (w\<lparr>clock := c\<rparr>)"
    and "sint (run_Attempt r) \<noteq> 32767" and "good w2"
proof -
  obtain r where cand: "lease_candidate (clock w) (row_locked w) (primary w) = Some r"
    and run: "run = run_view (lease_row x ld (clock w) r)" and w1: "w1 = edit_run (run_ID r) (lease_row x ld (clock w)) w"
    and below: "sint (run_Attempt r) \<noteq> 32767"
    using assms(2) LeaseNextRun_good [OF assms(1), of x ld] by (auto split: option.splits if_splits)
  note r = lease_candidate_Some [OF cand]
  let ?r = "lease_row x ld (clock w) r"
  have good2: "good (w1\<lparr>clock := c\<rparr>)" using good_store(4) [OF assms(1,2)] by (simp add: good_def wf_world_def)
  have w2: "w2 = write_db (\<lambda>d. d\<lparr>job_runs := update_where (lease_expired c) reclaim_row (job_runs d)\<rparr>) (w1\<lparr>clock := c\<rparr>)"
    using ReclaimExpiredLeases_good [OF good2] assms(5) by simp
  have "lease_expired c ?r" using assms(3) w1 by (simp add: lease_expired_def)
  moreover have "?r \<in> set (job_runs (primary w1))"
    using r(1) by (auto simp: w1 in_update_where)
  ultimately have "reclaim_row ?r \<in> set (job_runs (primary w2))"
    by (auto simp: w2 write_db_def in_update_where)
  moreover have "w2 = write_db (\<lambda>d. d\<lparr>job_runs := update_where (lease_expired c) reclaim_row
          (update_where (\<lambda>y. run_ID y = run_ID r) (lease_row x ld (clock w)) (job_runs d))\<rparr>) (w\<lparr>clock := c\<rparr>)"
    by (simp add: w2 w1 edit_run_def write_db_def)
  ultimately show ?thesis using that r run below good_store(10) [OF good2 assms(5)] by blast
qed

lemma reclaimed_fields [simp]:
  "run_ID (reclaim_row r) = run_ID r" "run_Status (reclaim_row r) = RunStatusPending" "run_ScheduledAt (reclaim_row r) = run_ScheduledAt r"
  "run_LeasedBy (reclaim_row r) = None" "run_LeasedAt (reclaim_row r) = None" "run_LeaseExpiresAt (reclaim_row r) = None" "run_Attempt (reclaim_row r) = run_Attempt r"
  by (simp_all add: reclaim_row_def)

end
