(* ===== verification/Store_Api.thy ===== *)
theory Store_Api
  imports Store_Props
begin

text \<open>
  The interface \<open>store.Store\<close> of \<open>src/internal/store/store.go\<close> as a record of operations over a
  state of its own, which is how the scheduler, the worker and the API see a store; and
  \<open>pg_store\<close>, the \<open>PostgresStore\<close> behind it. \<open>Close\<close> only closes connections and is left out.
\<close>

record 's store_api =
  api_CreateJob :: "new_job_input \<Rightarrow> ('s, err + job) state"
  api_GetJob :: "string \<Rightarrow> ('s, err + job) state"
  api_GetJobByIdempotencyKey :: "string \<Rightarrow> ('s, err + job) state"
  api_ListJobs :: "job_status option \<Rightarrow> int \<Rightarrow> int \<Rightarrow> ('s, err + job list) state"
  api_UpdateJobStatus :: "string \<Rightarrow> job_status \<Rightarrow> ('s, err + unit) state"
  api_ListDependencies :: "string \<Rightarrow> ('s, err + uid list) state"
  api_LatestRunForJob :: "string \<Rightarrow> ('s, err + JobRun) state"
  api_HasActiveRun :: "string \<Rightarrow> ('s, err + bool) state"
  api_CreateRun :: "string \<Rightarrow> int16 \<Rightarrow> time \<Rightarrow> ('s, err + JobRun) state"
  api_LeaseNextRun :: "string \<Rightarrow> duration \<Rightarrow> ('s, err + (JobRun \<times> job) option) state"
  api_ExtendLease :: "string \<Rightarrow> string \<Rightarrow> duration \<Rightarrow> ('s, err + unit) state"
  api_MarkRunning :: "string \<Rightarrow> ('s, err + unit) state"
  api_CompleteRun :: "string \<Rightarrow> gomap \<Rightarrow> ('s, err + unit) state"
  api_FailRun :: "string \<Rightarrow> string \<Rightarrow> bool \<Rightarrow> duration \<Rightarrow> ('s, err + unit) state"
  api_MarkDead :: "string \<Rightarrow> string \<Rightarrow> ('s, err + unit) state"
  api_ReclaimExpiredLeases :: "('s, err + nat) state"
  api_GetRun :: "string \<Rightarrow> ('s, err + JobRun) state"
  api_ListJobRuns :: "string \<Rightarrow> int \<Rightarrow> ('s, err + JobRun list) state"
  api_CountPendingRuns :: "('s, err + nat) state"
  api_UpsertWorkerHeartbeat :: "string \<Rightarrow> string \<Rightarrow> ('s, err + unit) state"
  api_ListWorkers :: "('s, err + worker list) state"

definition pg_store :: "world store_api" where
  "pg_store = \<lparr>api_CreateJob = CreateJob, api_GetJob = GetJob, api_GetJobByIdempotencyKey = GetJobByIdempotencyKey,
     api_ListJobs = ListJobs, api_UpdateJobStatus = UpdateJobStatus, api_ListDependencies = ListDependencies,
     api_LatestRunForJob = LatestRunForJob, api_HasActiveRun = HasActiveRun, api_CreateRun = CreateRun,
     api_LeaseNextRun = LeaseNextRun, api_ExtendLease = ExtendLease, api_MarkRunning = MarkRunning,
     api_CompleteRun = CompleteRun, api_FailRun = FailRun, api_MarkDead = MarkDead,
     api_ReclaimExpiredLeases = ReclaimExpiredLeases, api_GetRun = GetRun, api_ListJobRuns = ListJobRuns,
     api_CountPendingRuns = CountPendingRuns, api_UpsertWorkerHeartbeat = UpsertWorkerHeartbeat,
     api_ListWorkers = ListWorkers\<rparr>"

lemma pg_store_simps [simp]:
  "api_CreateJob pg_store = CreateJob" "api_GetJob pg_store = GetJob"
  "api_GetJobByIdempotencyKey pg_store = GetJobByIdempotencyKey" "api_ListJobs pg_store = ListJobs"
  "api_UpdateJobStatus pg_store = UpdateJobStatus" "api_ListDependencies pg_store = ListDependencies"
  "api_LatestRunForJob pg_store = LatestRunForJob" "api_HasActiveRun pg_store = HasActiveRun"
  "api_CreateRun pg_store = CreateRun" "api_LeaseNextRun pg_store = LeaseNextRun"
  "api_ExtendLease pg_store = ExtendLease" "api_MarkRunning pg_store = MarkRunning"
  "api_CompleteRun pg_store = CompleteRun" "api_FailRun pg_store = FailRun" "api_MarkDead pg_store = MarkDead"
  "api_ReclaimExpiredLeases pg_store = ReclaimExpiredLeases" "api_GetRun pg_store = GetRun"
  "api_ListJobRuns pg_store = ListJobRuns" "api_CountPendingRuns pg_store = CountPendingRuns"
  "api_UpsertWorkerHeartbeat pg_store = UpsertWorkerHeartbeat" "api_ListWorkers pg_store = ListWorkers"
  by (simp_all add: pg_store_def)

subsection \<open>Reads leave the tables alone\<close>

interpretation tabs: io_preorder "\<lambda>w w'. primary w' = primary w"
  by unfold_locales auto

lemma read_call: "(\<And>w. snd (stmt w) = w) \<Longrightarrow> io_rel (\<lambda>w w'. primary w' = primary w) (driver_call stmt)"
  by (rule io_relI) (auto simp: driver_call_def deliver_fields split: prod.splits fault.splits)

lemma read_uuid_call:
  "(\<And>u w. snd (stmt u w) = w) \<Longrightarrow> io_rel (\<lambda>w w'. primary w' = primary w) (driver_call (with_uuid s stmt))"
  by (rule read_call) (simp add: with_uuid_def split: option.splits)

lemma read_get: "io_rel (\<lambda>w w'. primary w' = primary w) State_Monad.get"
  by (rule io_relI) simp

lemma store_reads:
  "io_rel (\<lambda>w w'. primary w' = primary w) (GetJob j)" "io_rel (\<lambda>w w'. primary w' = primary w) (GetJobByIdempotencyKey key)"
  "io_rel (\<lambda>w w'. primary w' = primary w) (ListJobs st l off)" "io_rel (\<lambda>w w'. primary w' = primary w) (ListDependencies j)"
  "io_rel (\<lambda>w w'. primary w' = primary w) (LatestRunForJob j)" "io_rel (\<lambda>w w'. primary w' = primary w) (HasActiveRun j)"
  "io_rel (\<lambda>w w'. primary w' = primary w) (GetRun r)" "io_rel (\<lambda>w w'. primary w' = primary w) (ListJobRuns j l)"
  "io_rel (\<lambda>w w'. primary w' = primary w) CountPendingRuns" "io_rel (\<lambda>w w'. primary w' = primary w) ListWorkers"
  unfolding GetJob_def GetJobByIdempotencyKey_def ListJobs_def ListDependencies_def LatestRunForJob_def
    HasActiveRun_def GetRun_def ListJobRuns_def CountPendingRuns_def ListWorkers_def on_readPool_def not_found_def
    fetchJob_def fetchJobByIdempotencyKey_def fetchRun_def fetchDependencies_def scanJobRow_def scanRunRow_def
  by (intro tabs.io_body read_get read_uuid_call read_call; simp)+

end
