(* ===== verification/Scheduler.thy ===== *)
theory Scheduler
  imports Store_Api
begin

text \<open>
  \<open>src/internal/scheduler\<close>: when a job is due (\<open>schedule.go\<close>) and the promotion pass that turns due
  jobs into pending runs (\<open>promoter.go\<close>). The operations are written over any \<open>store_api\<close>, as
  the code is over \<open>store.Store\<close>. The cron library is a parameter: \<open>cron e\<close> is
  \<open>cron.ParseStandard(e)\<close>, its schedule given by its method \<open>Next\<close>. \<open>time.Now()\<close> is the
  scheduler host's clock, which may differ from the database's by \<open>skew\<close>.

  The locale \<open>promotion_store\<close> is the contract of a store under which promotion never gives a job a
  second active run; \<open>pg_store\<close> satisfies it under every fault as long as it reads from the primary.
\<close>

type_synonym cron_lib = "string \<Rightarrow> err + (time \<Rightarrow> time)"

definition NextRunDue :: "cron_lib \<Rightarrow> string option \<Rightarrow> time option \<Rightarrow> time \<Rightarrow> time \<Rightarrow> err + bool" where
  "NextRunDue cron cronExpr lastScheduledAt createdAt now = (case cronExpr of
     None \<Rightarrow> Inr (lastScheduledAt = None)
   | Some e \<Rightarrow> (case cron e of
       Inl err \<Rightarrow> Inl (ErrWrap (''scheduler: parse cron expression '' @ e) err)
     | Inr next_after \<Rightarrow>
         let base = (case lastScheduledAt of None \<Rightarrow> createdAt | Some t \<Rightarrow> t)
         in Inr (\<not> now < next_after base)))"

primrec deps_satisfied :: "'s store_api \<Rightarrow> uid list \<Rightarrow> ('s, err + bool) state" where
  "deps_satisfied st [] = ok True"
| "deps_satisfied st (depID # deps) = do {
     r \<leftarrow> api_LatestRunForJob st depID;
     case r of
       Inl e \<Rightarrow> if errors_Is e ErrNotFound then ok False
                else fail (ErrWrap (''scheduler: latest run for dependency job '' @ depID) e)
     | Inr run \<Rightarrow> if run_Status run \<noteq> RunStatusSucceeded then ok False else deps_satisfied st deps }"

definition DependenciesSatisfied :: "'s store_api \<Rightarrow> string \<Rightarrow> ('s, err + bool) state" where
  "DependenciesSatisfied st jobID = do {
     r \<leftarrow> api_ListDependencies st jobID;
     case r of
       Inl e \<Rightarrow> fail (ErrWrap (''scheduler: list dependencies for job '' @ jobID) e)
     | Inr deps \<Rightarrow> if deps = [] then ok True else deps_satisfied st deps }"

text \<open>
  One iteration of the loop of \<open>PromoteOnce\<close>, from its second store call on and as a whole;
  \<open>False\<close> is every \<open>continue\<close>, \<open>True\<close> reaches \<open>promoted++\<close>.
\<close>

definition promote_inactive :: "'s store_api \<Rightarrow> cron_lib \<Rightarrow> time \<Rightarrow> job \<Rightarrow> ('s, bool) state" where
  "promote_inactive st cron now job = do {
     last \<leftarrow> api_LatestRunForJob st (job_ID job);
     let due = (case last of
         Inl e \<Rightarrow> if errors_Is e ErrNotFound then NextRunDue cron (job_CronExpr job) None (job_CreatedAt job) now
                  else Inl e
       | Inr run \<Rightarrow> NextRunDue cron (job_CronExpr job) (Some (run_ScheduledAt run)) (job_CreatedAt job) now);
     if due \<noteq> Inr True then ret False else do {
       satisfied \<leftarrow> DependenciesSatisfied st (job_ID job);
       if satisfied \<noteq> Inr True then ret False else do {
         created \<leftarrow> api_CreateRun st (job_ID job) (job_Priority job) now;
         ret (case created of Inl _ \<Rightarrow> False | Inr _ \<Rightarrow> True) } } }"

definition promote_job :: "'s store_api \<Rightarrow> cron_lib \<Rightarrow> time \<Rightarrow> job \<Rightarrow> ('s, bool) state" where
  "promote_job st cron now job = do {
     r \<leftarrow> api_HasActiveRun st (job_ID job);
     case r of
       Inl _ \<Rightarrow> ret False
     | Inr hasActive \<Rightarrow> if hasActive then ret False else promote_inactive st cron now job }"

definition listActiveJobsLimit :: int where
  "listActiveJobsLimit = 10000"

definition PromoteOnce :: "'s store_api \<Rightarrow> cron_lib \<Rightarrow> ('s, time) state \<Rightarrow> ('s, err + nat) state" where
  "PromoteOnce st cron time_Now =
     check_err (api_ListJobs st (Some JobStatusActive) listActiveJobsLimit 0) (\<lambda>jobs. do {
       now \<leftarrow> time_Now;
       promoted \<leftarrow> for_each (promote_job st cron now) jobs;
       _ \<leftarrow> api_CountPendingRuns st;
       ok (length (filter (\<lambda>p. p) promoted)) })"

definition host_clock :: "int \<Rightarrow> (world, time) state" where
  "host_clock skew = do { w \<leftarrow> State_Monad.get; ret (clock w + skew) }"

text \<open>
  A tick of \<open>Promoter.Run\<close>: leadership is asked for on every tick, and only a leader promotes. The
  elector is a parameter here, \<open>TryAcquire\<close> as an operation on the same state.
\<close>

definition promoter_tick :: "('s, err + bool) state \<Rightarrow> 's store_api \<Rightarrow> cron_lib \<Rightarrow> ('s, time) state \<Rightarrow> ('s, unit) state" where
  "promoter_tick try_acquire st cron time_Now = do {
     r \<leftarrow> try_acquire;
     case r of
       Inl _ \<Rightarrow> ret ()
     | Inr isLeader \<Rightarrow> if isLeader then do { _ \<leftarrow> PromoteOnce st cron time_Now; ret () } else ret () }"

subsection \<open>The contract of the store a promoter relies on\<close>

text \<open>
  \<open>active s u\<close> is the number of runs of job \<open>u\<close> that can still execute, \<open>resolve s j\<close> the job
  that the identifier \<open>j\<close> denotes. Reads, with what other services do meanwhile, add no such run and change no
  identifier; \<open>HasActiveRun\<close> answers no only when there is no such run, and \<open>CreateRun\<close> adds at most one, to the job it names, also when it reports
  an error.
\<close>

definition store_frame :: "('s \<Rightarrow> bool) \<Rightarrow> ('s \<Rightarrow> 'r) \<Rightarrow> ('s \<Rightarrow> uid \<Rightarrow> nat) \<Rightarrow> 's \<Rightarrow> 's \<Rightarrow> bool" where
  "store_frame ready resolve active s s' \<longleftrightarrow> ready s \<longrightarrow> ready s' \<and> resolve s' = resolve s \<and> (\<forall>u. active s' u \<le> active s u)"

definition no_second_run :: "('s \<Rightarrow> bool) \<Rightarrow> ('s \<Rightarrow> 'r) \<Rightarrow> ('s \<Rightarrow> uid \<Rightarrow> nat) \<Rightarrow> 's \<Rightarrow> 's \<Rightarrow> bool" where
  "no_second_run ready resolve active s s' \<longleftrightarrow>
     ready s \<longrightarrow> ready s' \<and> resolve s' = resolve s \<and> (\<forall>u. active s' u \<le> max 1 (active s u))"

locale promotion_store =
  fixes st :: "'s store_api" and ready :: "'s \<Rightarrow> bool" and resolve :: "'s \<Rightarrow> string \<Rightarrow> uid option"
    and active :: "'s \<Rightarrow> uid \<Rightarrow> nat"
  assumes frame_ListJobs: "io_rel (store_frame ready resolve active) (api_ListJobs st status l off)"
    and frame_HasActiveRun: "io_rel (store_frame ready resolve active) (api_HasActiveRun st j)"
    and frame_LatestRunForJob: "io_rel (store_frame ready resolve active) (api_LatestRunForJob st j)"
    and frame_ListDependencies: "io_rel (store_frame ready resolve active) (api_ListDependencies st j)"
    and frame_CountPendingRuns: "io_rel (store_frame ready resolve active) (api_CountPendingRuns st)"
    and HasActiveRun_sound: "ready s \<Longrightarrow> run_state (api_HasActiveRun st j) s = (Inr False, s') \<Longrightarrow>
        \<exists>u. resolve s j = Some u \<and> active s' u = 0"
    and CreateRun_adds: "ready s \<Longrightarrow> run_state (api_CreateRun st j p t) s = (r, s') \<Longrightarrow>
        ready s' \<and> resolve s' = resolve s \<and> (\<forall>u. active s' u \<le> active s u + (if resolve s j = Some u then 1 else 0))"

sublocale promotion_store \<subseteq> frm: io_preorder "store_frame ready resolve active"
  by unfold_locales (auto simp: store_frame_def intro: order_trans)

sublocale promotion_store \<subseteq> bnd: io_preorder "no_second_run ready resolve active"
proof
  fix s t u :: 's
  assume st: "no_second_run ready resolve active s t" and tu: "no_second_run ready resolve active t u"
  show "no_second_run ready resolve active s u"
    unfolding no_second_run_def
  proof (intro impI conjI allI)
    assume s: "ready s"
    with st have t: "ready t" "resolve t = resolve s" "\<And>x. active t x \<le> max 1 (active s x)"
      by (simp_all add: no_second_run_def)
    with tu have u: "\<And>x. active u x \<le> max 1 (active t x)" and "ready u" "resolve u = resolve t"
      by (simp_all add: no_second_run_def)
    then show "ready u" "resolve u = resolve s" using t by simp_all
    fix x show "active u x \<le> max 1 (active s x)" using u [of x] t(3) [of x] by simp
  qed
qed (simp add: no_second_run_def)

context promotion_store
begin

lemma frame_bounded: "io_rel (store_frame ready resolve active) m \<Longrightarrow> io_rel (no_second_run ready resolve active) m"
  by (auto simp: io_rel_def store_frame_def no_second_run_def intro: le_max_iff_disj [THEN iffD2])

lemma frame_deps: "io_rel (store_frame ready resolve active) (deps_satisfied st deps)"
  by (induction deps) (auto intro!: frm.io_body frame_LatestRunForJob)

lemma frame_DependenciesSatisfied: "io_rel (store_frame ready resolve active) (DependenciesSatisfied st j)"
  unfolding DependenciesSatisfied_def by (intro frm.io_body frame_ListDependencies frame_deps)

text \<open>After a read, the rest of the body runs in a state in which what it relies on still holds.\<close>

lemma bounded_after_read:
  assumes "io_rel (store_frame ready resolve active) m"
    and "\<And>x s. ready s \<Longrightarrow> resolve s j = Some u \<Longrightarrow> active s u = 0 \<Longrightarrow>
        no_second_run ready resolve active s (snd (run_state (k x) s))"
    and "ready s" and "resolve s j = Some u" and "active s u = 0"
  shows "no_second_run ready resolve active s (snd (run_state (State_Monad.bind m k) s))"
proof -
  obtain x s1 where m: "run_state m s = (x, s1)" by (cases "run_state m s")
  then have s1: "ready s1" "resolve s1 = resolve s" "\<And>v. active s1 v \<le> active s v"
    using io_relD [OF assms(1) m] assms(3) by (simp_all add: store_frame_def)
  then have "no_second_run ready resolve active s1 (snd (run_state (k x) s1))"
    using assms(2,4,5) s1(3) [of u] by simp
  moreover have "no_second_run ready resolve active s s1" using s1 by (simp add: no_second_run_def le_max_iff_disj)
  ultimately show ?thesis using m bnd.R_trans by simp
qed

lemma bounded_create:
  assumes "ready s" and "resolve s j = Some u" and "active s u = 0"
  shows "no_second_run ready resolve active s (snd (run_state (api_CreateRun st j p t) s))"
proof -
  obtain r s' where run: "run_state (api_CreateRun st j p t) s = (r, s')" by (cases "run_state (api_CreateRun st j p t) s")
  note add = CreateRun_adds [OF assms(1) run]
  have "active s' v \<le> max 1 (active s v)" for v
    using add assms(2,3) by (cases "v = u") (auto dest: spec [of _ v])
  then show ?thesis using run add by (simp add: no_second_run_def)
qed

lemma promote_inactive_bounded:
  assumes "ready s" and "resolve s (job_ID job) = Some u" and "active s u = 0"
  shows "no_second_run ready resolve active s (snd (run_state (promote_inactive st cron now job) s))"
proof -
  have create: "no_second_run ready resolve active s (snd (run_state (do {
         created \<leftarrow> api_CreateRun st (job_ID job) (job_Priority job) now;
         ret (case created of Inl _ \<Rightarrow> False | Inr _ \<Rightarrow> True) }) s))"
    if "ready s" "resolve s (job_ID job) = Some u" "active s u = 0" for s
    using bounded_create [OF that, of "job_Priority job" now] by (auto split: prod.splits)
  have deps: "no_second_run ready resolve active s (snd (run_state (do {
       satisfied \<leftarrow> DependenciesSatisfied st (job_ID job);
       if satisfied \<noteq> Inr True then ret False else do {
         created \<leftarrow> api_CreateRun st (job_ID job) (job_Priority job) now;
         ret (case created of Inl _ \<Rightarrow> False | Inr _ \<Rightarrow> True) } }) s))"
    if "ready s" "resolve s (job_ID job) = Some u" "active s u = 0" for s
    by (rule bounded_after_read [OF frame_DependenciesSatisfied _ that]) (simp add: bnd.R_refl create del: run_state_bind)
  show ?thesis unfolding promote_inactive_def
    by (rule bounded_after_read [OF frame_LatestRunForJob _ assms])
       (simp add: bnd.R_refl deps Let_def del: run_state_bind)
qed

lemma promote_job_bounded: "io_rel (no_second_run ready resolve active) (promote_job st cron now job)"
proof (rule io_relI)
  fix s
  obtain a s1 where has: "run_state (api_HasActiveRun st (job_ID job)) s = (a, s1)"
    by (cases "run_state (api_HasActiveRun st (job_ID job)) s")
  have frame: "store_frame ready resolve active s s1" by (rule io_relD [OF frame_HasActiveRun has])
  show "no_second_run ready resolve active s (snd (run_state (promote_job st cron now job) s))"
  proof (cases "ready s \<and> a = Inr False")
    case False
    then have "\<not> ready s \<or> snd (run_state (promote_job st cron now job) s) = s1"
      using has by (auto simp: promote_job_def split: sum.splits)
    then show ?thesis using frame by (auto simp: no_second_run_def store_frame_def le_max_iff_disj)
  next
    case True
    then obtain u where u: "resolve s (job_ID job) = Some u" "active s1 u = 0"
      using HasActiveRun_sound has by blast
    have s1: "ready s1" "resolve s1 = resolve s" "\<And>v. active s1 v \<le> active s v"
      using frame True by (simp_all add: store_frame_def)
    have "no_second_run ready resolve active s1 (snd (run_state (promote_inactive st cron now job) s1))"
      by (rule promote_inactive_bounded [where u = u]) (simp_all add: s1 u)
    moreover have "no_second_run ready resolve active s s1" using s1 by (simp add: no_second_run_def le_max_iff_disj)
    ultimately show ?thesis using bnd.R_trans has True by (simp add: promote_job_def)
  qed
qed

lemma PromoteOnce_bounded:
  assumes "io_rel (store_frame ready resolve active) time_Now"
  shows "io_rel (no_second_run ready resolve active) (PromoteOnce st cron time_Now)"
  unfolding PromoteOnce_def
  by (intro bnd.io_body promote_job_bounded frame_bounded frame_ListJobs frame_CountPendingRuns assms)

end

subsection \<open>The Postgres store satisfies the contract\<close>

definition active_runs :: "world \<Rightarrow> uid \<Rightarrow> nat" where
  "active_runs w u = length (filter (\<lambda>r. run_JobID r = u \<and> active_status (run_Status r)) (job_runs (primary w)))"

abbreviation reads_primary :: "world \<Rightarrow> bool" where
  "reads_primary w \<equiv> replica w = None"

lemma pg_read_frame:
  assumes "io_rel (\<lambda>w w'. primary w' = primary w) m" and "io_rel env_frame m"
  shows "io_rel (store_frame reads_primary uuid_in active_runs) m"
proof (rule io_relI)
  fix w
  obtain x w' where "run_state m w = (x, w')" by (cases "run_state m w")
  then show "store_frame reads_primary uuid_in active_runs w (snd (run_state m w))"
    using io_relD [OF assms(1)] io_relD [OF assms(2)]
    by (fastforce simp: store_frame_def env_frame_def active_runs_def fun_eq_iff)
qed

lemma HasActiveRun_False:
  assumes "reads_primary w" and "run_state (HasActiveRun j) w = (Inr False, w')"
  shows "\<exists>u. uuid_in w j = Some u \<and> active_runs w' u = 0"
proof -
  from assms have "run_state (driver_call (with_uuid j (\<lambda>u w. (Inr (has_active_run u (querier_db OnPool w)), w)))) w = (Inr False, w')"
    by (simp add: HasActiveRun_def run_on_readPool readPool_def)
  then obtain s c u where "uuid_in w j = Some u" and "(Inr (has_active_run u (primary (later w s c))), later w s c) = (Inr False, w')"
    by (auto elim!: driver_uuid_Inr)
  then have "uuid_in w j = Some u \<and> active_runs w' u = 0"
    by (auto simp: has_active_run_def active_runs_def list_ex_iff filter_empty_conv)
  then show ?thesis by blast
qed

lemma CreateRun_effect:
  assumes "run_state (CreateRun j p sch) w = (r, w')"
  shows "primary w' = primary w \<and> (\<exists>e. r = Inl e) \<or>
    (\<exists>u t. uuid_in w j = Some u \<and> job_exists u (primary w) \<and> primary w' = (primary w)\<lparr>job_runs := job_runs (primary w) @
       [new_run_row (uuid_gen w (uuid_next w)) t u p sch]\<rparr>)"
proof -
  obtain flt w1 where dl: "deliver w = (flt, w1)" by (cases "deliver w")
  then obtain s c where "w1 = later w s c" by (rule deliver_later)
  then show ?thesis using assms dl
    by (auto simp: CreateRun_def scanRunRow_def run_check_err insert_run_def driver_call_def with_uuid_def fresh_uuid_def
        Let_def write_db_def split: prod.splits fault.splits option.splits if_splits sum.splits)
qed

interpretation pg_promotion: promotion_store pg_store reads_primary uuid_in active_runs
proof unfold_locales
  fix s j p t r s' assume ready: "reads_primary s" and run: "run_state (api_CreateRun pg_store j p t) s = (r, s')"
  then have env: "env_frame s s'" using io_relD [OF frame_CreateRun] by simp
  have "active_runs s' u \<le> active_runs s u + (if uuid_in s j = Some u then 1 else 0)" for u
    using CreateRun_effect [of j p t s r s'] run by (auto simp: active_runs_def new_run_row_def)
  then show "reads_primary s' \<and> uuid_in s' = uuid_in s \<and>
      (\<forall>u. active_runs s' u \<le> active_runs s u + (if uuid_in s j = Some u then 1 else 0))"
    using env ready by (simp add: env_frame_def)
qed (simp_all add: HasActiveRun_False pg_read_frame store_reads frame_reads)

lemma host_clock_frame: "io_rel (store_frame reads_primary uuid_in active_runs) (host_clock skew)"
  by (rule io_relI) (simp add: host_clock_def store_frame_def)

subsection \<open>The promotion pass without faults\<close>

text \<open>When a job row is promoted in the tables \<open>d\<close>.\<close>

definition due_now :: "cron_lib \<Rightarrow> time \<Rightarrow> db \<Rightarrow> gval job_row \<Rightarrow> bool" where
  "due_now cron now d row \<longleftrightarrow> NextRunDue cron (job_CronExpr row)
     (map_option run_ScheduledAt (latest_run (job_ID row) d)) (job_CreatedAt row) now = Inr True"

definition dep_succeeded :: "db \<Rightarrow> uid \<Rightarrow> bool" where
  "dep_succeeded d u \<longleftrightarrow> (case latest_run u d of None \<Rightarrow> False | Some r \<Rightarrow> run_Status r = RunStatusSucceeded)"

definition eligible :: "cron_lib \<Rightarrow> time \<Rightarrow> db \<Rightarrow> gval job_row \<Rightarrow> bool" where
  "eligible cron now d row \<longleftrightarrow> \<not> has_active_run (job_ID row) d \<and> due_now cron now d row \<and>
     (\<forall>u\<in>set (deps_of (job_ID row) d). dep_succeeded d u)"

definition promote_row :: "time \<Rightarrow> gval job_row \<Rightarrow> world \<Rightarrow> world" where
  "promote_row now row w = write_db (\<lambda>d. d\<lparr>job_runs := job_runs d @
     [new_run_row (uuid_gen w (uuid_next w)) (clock w) (job_ID row) (job_Priority row) now]\<rparr>) (w\<lparr>uuid_next := Suc (uuid_next w)\<rparr>)"

primrec promote_rows :: "cron_lib \<Rightarrow> time \<Rightarrow> gval job_row list \<Rightarrow> world \<Rightarrow> world" where
  "promote_rows cron now [] w = w"
| "promote_rows cron now (row # rows) w =
     promote_rows cron now rows (if eligible cron now (primary w) row then promote_row now row w else w)"

lemma deps_satisfied_good:
  assumes "good w" and "\<And>u. u \<in> set deps \<Longrightarrow> job_exists u (primary w)"
  shows "run_state (deps_satisfied pg_store deps) w = (Inr (\<forall>u\<in>set deps. dep_succeeded (primary w) u), w)"
  using assms(2)
proof (induction deps)
  case (Cons u deps)
  then have "uuid_in w u = Some u" using good_uuid [OF assms(1)] by simp
  with Cons show ?case
    by (auto simp: LatestRunForJob_good [OF assms(1)] dep_succeeded_def split: option.splits)
qed simp

lemma DependenciesSatisfied_good:
  assumes "good w" and "job_exists j (primary w)"
  shows "run_state (DependenciesSatisfied pg_store j) w =
    (Inr (\<forall>u\<in>set (deps_of j (primary w)). dep_succeeded (primary w) u), w)"
proof -
  have "job_exists u (primary w)" if "u \<in> set (deps_of j (primary w))" for u
    using that integrity_deps [OF good_fields(4) [OF assms(1)]] by (auto simp: deps_of_def)
  then have "run_state (deps_satisfied pg_store (deps_of j (primary w))) w =
      (Inr (\<forall>u\<in>set (deps_of j (primary w)). dep_succeeded (primary w) u), w)"
    by (rule deps_satisfied_good [OF assms(1)])
  moreover have "uuid_in w j = Some j" using good_uuid assms by blast
  ultimately show ?thesis
    by (simp add: DependenciesSatisfied_def ListDependencies_good [OF assms(1)])
qed

lemma promote_job_good:
  assumes "good w" and "job_exists (job_ID row) (primary w)"
  shows "run_state (promote_job pg_store cron now (job_view d row)) w =
    (if eligible cron now (primary w) row then (True, promote_row now row w) else (False, w))"
proof -
  have id: "uuid_in w (job_ID row) = Some (job_ID row)" using good_uuid assms by blast
  obtain r where last: "run_state (LatestRunForJob (job_ID row)) w = (r, w)"
    and due: "(case r of
         Inl e \<Rightarrow> if errors_Is e ErrNotFound then NextRunDue cron (job_CronExpr (job_view d row)) None (job_CreatedAt (job_view d row)) now else Inl e
       | Inr run \<Rightarrow> NextRunDue cron (job_CronExpr (job_view d row)) (Some (run_ScheduledAt run)) (job_CreatedAt (job_view d row)) now) = Inr True
      \<longleftrightarrow> due_now cron now (primary w) row"
    using LatestRunForJob_good [OF assms(1) id] that by (simp add: due_now_def split: option.splits)
  have "run_state (promote_inactive pg_store cron now (job_view d row)) w =
      (if due_now cron now (primary w) row \<and> (\<forall>u\<in>set (deps_of (job_ID row) (primary w)). dep_succeeded (primary w) u)
       then (True, promote_row now row w) else (False, w))"
    using due
    by (simp add: promote_inactive_def last DependenciesSatisfied_good [OF assms] CreateRun_good [OF assms] promote_row_def
        Let_def)
  then show ?thesis
    by (simp add: promote_job_def HasActiveRun_good [OF assms(1) id] eligible_def)
qed

lemma good_promote_row:
  assumes "good w" and "job_exists (job_ID row) (primary w)"
  shows "good (promote_row now row w)" and "jobs (primary (promote_row now row w)) = jobs (primary w)"
    and "clock (promote_row now row w) = clock w"
proof -
  show "good (promote_row now row w)"
    using good_store(3) [OF assms(1) CreateRun_good [OF assms]] by (simp add: promote_row_def)
qed (simp_all add: promote_row_def write_db_def)

lemma promote_all_good:
  assumes "good w" and "\<And>row. row \<in> set rows \<Longrightarrow> job_exists (job_ID row) (primary w)"
  shows "\<exists>bs. run_state (for_each (promote_job pg_store cron now) (map (job_view d) rows)) w = (bs, promote_rows cron now rows w) \<and>
    length (job_runs (primary (promote_rows cron now rows w))) = length (job_runs (primary w)) + length (filter (\<lambda>p. p) bs) \<and>
    good (promote_rows cron now rows w)"
  using assms
proof (induction rows arbitrary: w)
  case (Cons row rows)
  let ?w1 = "if eligible cron now (primary w) row then promote_row now row w else w"
  have here: "job_exists (job_ID row) (primary w)" using Cons.prems(2) by simp
  have "good ?w1" using good_promote_row(1) [OF Cons.prems(1) here] Cons.prems(1) by simp
  moreover have "job_exists (job_ID r) (primary ?w1)" if "r \<in> set rows" for r
    using Cons.prems(2) [of r] that good_promote_row(2) [OF Cons.prems(1) here] by (simp add: job_exists_def)
  ultimately obtain bs where
    IH: "run_state (for_each (promote_job pg_store cron now) (map (job_view d) rows)) ?w1 = (bs, promote_rows cron now rows ?w1)"
      "length (job_runs (primary (promote_rows cron now rows ?w1))) = length (job_runs (primary ?w1)) + length (filter (\<lambda>p. p) bs)"
      "good (promote_rows cron now rows ?w1)"
    using Cons.IH by blast
  then show ?case
    by (intro exI [of _ "eligible cron now (primary w) row # bs"])
       (auto simp: promote_job_good [OF Cons.prems(1) here] promote_row_def write_db_def split: if_splits)
qed simp

lemma promote_row_db:
  "primary (promote_row now row w) = (primary w)\<lparr>job_runs := job_runs (primary w) @
     [new_run_row (uuid_gen w (uuid_next w)) (clock w) (job_ID row) (job_Priority row) now]\<rparr>"
  by (simp add: promote_row_def write_db_def)

text \<open>A promotion makes no job eligible that was not: it adds a pending run and nothing else.\<close>

lemma latest_run_promoted:
  "latest_run u (primary (promote_row now row w)) = latest_run u (primary w) \<or>
   u = job_ID row \<and> (\<exists>r. latest_run u (primary (promote_row now row w)) = Some r \<and> run_Status r = RunStatusPending)"
  by (auto simp: latest_run_def promote_row_db first_by_snoc new_run_row_def split: option.splits)

lemma has_active_promoted:
  "has_active_run u (primary (promote_row now row w)) \<longleftrightarrow> has_active_run u (primary w) \<or> u = job_ID row"
  by (auto simp: has_active_run_def promote_row_db new_run_row_def)

lemma eligible_promoted:
  assumes "eligible cron now (primary (promote_row now' row' w)) row"
  shows "eligible cron now (primary w) row"
proof -
  let ?d = "primary (promote_row now' row' w)"
  have other: "job_ID row \<noteq> job_ID row'" and idle: "\<not> has_active_run (job_ID row) (primary w)"
    using assms by (auto simp: eligible_def has_active_promoted)
  have "due_now cron now (primary w) row"
    using assms other latest_run_promoted [of "job_ID row" now' row' w] by (auto simp: eligible_def due_now_def)
  moreover have "deps_of (job_ID row) ?d = deps_of (job_ID row) (primary w)"
    by (simp add: deps_of_def promote_row_db)
  moreover have "dep_succeeded (primary w) u" if "dep_succeeded ?d u" for u
    using that latest_run_promoted [of u now' row' w] by (auto simp: dep_succeeded_def)
  ultimately show ?thesis using assms idle by (simp add: eligible_def)
qed

lemma eligible_promote_rows:
  "eligible cron now (primary (promote_rows cron now rows w)) row \<Longrightarrow> eligible cron now (primary w) row"
  by (induction rows arbitrary: w) (auto dest: eligible_promoted split: if_splits)

lemma promote_rows_complete:
  "row \<in> set rows \<Longrightarrow> \<not> eligible cron now (primary (promote_rows cron now rows w)) row"
proof (induction rows arbitrary: w)
  case (Cons r rows)
  have "\<not> eligible cron now (primary (if eligible cron now (primary w) r then promote_row now r w else w)) r"
    by (simp add: eligible_def has_active_promoted)
  then show ?case using Cons eligible_promote_rows [of cron now rows _ r] by auto
qed simp

lemma promote_rows_sound:
  "\<exists>new. primary (promote_rows cron now rows w) = (primary w)\<lparr>job_runs := job_runs (primary w) @ new\<rparr> \<and>
    (\<forall>r\<in>set new. \<exists>row u. row \<in> set rows \<and> eligible cron now (primary w) row \<and>
       r = new_run_row u (clock w) (job_ID row) (job_Priority row) now) \<and> distinct (map run_JobID new)"
proof (induction rows arbitrary: w)
  case (Cons row rows)
  let ?w1 = "if eligible cron now (primary w) row then promote_row now row w else w"
  obtain new where new: "primary (promote_rows cron now rows ?w1) = (primary ?w1)\<lparr>job_runs := job_runs (primary ?w1) @ new\<rparr>"
    "\<forall>r\<in>set new. \<exists>row u. row \<in> set rows \<and> eligible cron now (primary ?w1) row \<and>
       r = new_run_row u (clock ?w1) (job_ID row) (job_Priority row) now" "distinct (map run_JobID new)"
    using Cons.IH [of ?w1] by blast
  have clk: "clock ?w1 = clock w" by (simp add: promote_row_def write_db_def)
  show ?case
  proof (cases "eligible cron now (primary w) row")
    case True
    let ?r = "new_run_row (uuid_gen w (uuid_next w)) (clock w) (job_ID row) (job_Priority row) now"
    have "run_JobID r \<noteq> job_ID row" if "r \<in> set new" for r
      using new(2) that True by (auto simp: eligible_def has_active_promoted new_run_row_def)
    then have fresh: "job_ID row \<notin> run_JobID ` set new" by (metis imageE)
    have "primary (promote_rows cron now (row # rows) w) = (primary w)\<lparr>job_runs := job_runs (primary w) @ ?r # new\<rparr>"
      using new(1) True by (simp add: promote_row_db)
    moreover have "distinct (map run_JobID (?r # new))" using new(3) fresh by (simp add: new_run_row_def)
    moreover have "\<exists>row' u. row' \<in> set (row # rows) \<and> eligible cron now (primary w) row' \<and>
       r = new_run_row u (clock w) (job_ID row') (job_Priority row') now" if "r \<in> set (?r # new)" for r
      using that new(2) True clk by (fastforce dest: eligible_promoted)
    ultimately show ?thesis by blast
  next
    case False
    then show ?thesis using new clk by (intro exI [of _ new]) fastforce
  qed
qed auto

lemma PromoteOnce_good:
  fixes cron :: cron_lib and skew :: int
  assumes "good w"
  defines "w' \<equiv> promote_rows cron (clock w + skew) (take 10000 (select_jobs (Some JobStatusActive) (primary w))) w"
  shows "run_state (PromoteOnce pg_store cron (host_clock skew)) w =
    (Inr (length (job_runs (primary w')) - length (job_runs (primary w))), w')" and "good w'"
proof -
  let ?rows = "take 10000 (select_jobs (Some JobStatusActive) (primary w))"
  have "job_exists (job_ID row) (primary w)" if "row \<in> set ?rows" for row
    using in_set_takeD [OF that] by (auto simp: select_jobs_def job_exists_def)
  then obtain bs where bs: "run_state (for_each (promote_job pg_store cron (clock w + skew)) (map (job_view (primary w)) ?rows)) w = (bs, w')"
    "length (job_runs (primary w')) = length (job_runs (primary w)) + length (filter (\<lambda>p. p) bs)" and "good w'"
    using promote_all_good [OF assms(1), of ?rows cron "clock w + skew" "primary w"] unfolding w'_def by blast
  then show "run_state (PromoteOnce pg_store cron (host_clock skew)) w =
    (Inr (length (job_runs (primary w')) - length (job_runs (primary w))), w')" and "good w'"
    using ListJobs_good [OF assms(1), of 10000 0 "Some JobStatusActive"] CountPendingRuns_good [of w']
    by (simp_all add: PromoteOnce_def run_check_err listActiveJobsLimit_def host_clock_def)
qed

lemma frame_PromoteOnce: "io_rel env_frame (PromoteOnce pg_store cron (host_clock skew))"
proof -
  have deps: "io_rel env_frame (deps_satisfied pg_store ds)" for ds
    by (induction ds) (auto intro!: frame.io_body frame_reads)
  have "io_rel env_frame (host_clock skew)" by (rule io_relI) (simp add: host_clock_def)
  then show ?thesis
    unfolding PromoteOnce_def promote_job_def promote_inactive_def DependenciesSatisfied_def pg_store_simps
    by (intro frame.io_body frame_store deps)
qed

subsection \<open>Properties\<close>

text \<open>
  C11. A promotion pass over the primary never gives a job a second active run: whatever requests
  and replies are lost, whatever the cron library says and however the scheduler's clock is off, a
  job without an active run gets at most one and a job with an active run gets none.
\<close>

theorem promotion_no_second_run:
  assumes "reads_primary w" and "run_state (PromoteOnce pg_store cron (host_clock skew)) w = (res, w')"
  shows "active_runs w' u \<le> max 1 (active_runs w u)"
  using io_relD [OF pg_promotion.PromoteOnce_bounded [OF host_clock_frame] assms(2)] assms(1)
  by (simp add: no_second_run_def)

theorem promotion_no_second_run_witness:
  "active_runs (snd (run_state (PromoteOnce pg_store (\<lambda>_. Inl ErrJSON) (host_clock 0)) (demo_world demo_db 2))) (demo_uuid 0) \<le> 1"
proof -
  have "active_runs (demo_world demo_db 2) (demo_uuid 0) = 1"
    by (simp add: active_runs_def demo_db_def demo_run_def new_run_row_def)
  then show ?thesis
    using promotion_no_second_run [of "demo_world demo_db 2" "\<lambda>_. Inl ErrJSON" 0 _ _ "demo_uuid 0", OF _ surjective_pairing] by simp
qed

text \<open>
  C12. Without faults a promotion pass is the following function on the tables: go through the
  active jobs, newest first and at most 10000 of them, and append a pending run for each job that
  has no active run, is due, and has dependencies whose latest runs all succeeded, judged
  on the tables as they are at that point. The number it returns is the number of runs it added.
\<close>

theorem promotion_refines_spec:
  assumes "good w"
  shows "\<exists>w'. run_state (PromoteOnce pg_store cron (host_clock skew)) w =
      (Inr (length (job_runs (primary w')) - length (job_runs (primary w))), w') \<and>
    w' = promote_rows cron (clock w + skew) (take 10000 (select_jobs (Some JobStatusActive) (primary w))) w"
  using PromoteOnce_good(1) [OF assms, of cron skew] by blast

theorem promotion_refines_spec_witness:
  "\<exists>n w'. run_state (PromoteOnce pg_store (\<lambda>_. Inl ErrJSON) (host_clock 0)) (demo_world demo_db 2) = (Inr n, w')"
  using promotion_refines_spec [OF good_demo] by blast

text \<open>
  C13. Promotion is sound: a pass without faults changes nothing but the runs it appends, at most one
  per job. Each is a pending first attempt with the job's priority, scheduled at the scheduler's
  time, and before the pass its job was active, had no active run, was due by its cron
  expression (or, for a one-shot job, had never had a run), and every one of its
  dependencies had succeeded in its latest run.
\<close>

theorem promotion_sound:
  assumes "good w" and "run_state (PromoteOnce pg_store cron (host_clock skew)) w = (res, w')"
  shows "\<exists>new. res = Inr (length new) \<and> primary w' = (primary w)\<lparr>job_runs := job_runs (primary w) @ new\<rparr> \<and>
    distinct (map run_JobID new) \<and>
    (\<forall>r\<in>set new. \<exists>row\<in>set (jobs (primary w)). run_JobID r = job_ID row \<and> run_Status r = RunStatusPending \<and> run_Attempt r = 0 \<and>
       run_Priority r = job_Priority row \<and> run_ScheduledAt r = clock w + skew \<and>
       job_Status row = JobStatusActive \<and> \<not> has_active_run (job_ID row) (primary w) \<and>
       NextRunDue cron (job_CronExpr row) (map_option run_ScheduledAt (latest_run (job_ID row) (primary w)))
         (job_CreatedAt row) (clock w + skew) = Inr True \<and>
       (\<forall>u\<in>set (deps_of (job_ID row) (primary w)). \<exists>l. latest_run u (primary w) = Some l \<and> run_Status l = RunStatusSucceeded))"
proof -
  let ?rows = "take 10000 (select_jobs (Some JobStatusActive) (primary w))"
  obtain new where new: "primary (promote_rows cron (clock w + skew) ?rows w) = (primary w)\<lparr>job_runs := job_runs (primary w) @ new\<rparr>"
    "\<forall>r\<in>set new. \<exists>row u. row \<in> set ?rows \<and> eligible cron (clock w + skew) (primary w) row \<and>
       r = new_run_row u (clock w) (job_ID row) (job_Priority row) (clock w + skew)" "distinct (map run_JobID new)"
    using promote_rows_sound by metis
  have "res = Inr (length new)" and w': "w' = promote_rows cron (clock w + skew) ?rows w"
    using PromoteOnce_good(1) [OF assms(1), of cron skew] assms(2) new(1) by simp_all
  have dep: "\<exists>l. latest_run u (primary w) = Some l \<and> run_Status l = RunStatusSucceeded" if "dep_succeeded (primary w) u" for u
    using that by (auto simp: dep_succeeded_def split: option.splits)
  show ?thesis
  proof (intro exI [of _ new] conjI ballI)
    fix r assume "r \<in> set new"
    then obtain row u where "row \<in> set ?rows" and row: "eligible cron (clock w + skew) (primary w) row"
      and r: "r = new_run_row u (clock w) (job_ID row) (job_Priority row) (clock w + skew)" using new(2) by blast
    then have "row \<in> set (select_jobs (Some JobStatusActive) (primary w))" using in_set_takeD by fast
    then have "row \<in> set (jobs (primary w))" and "job_Status row = JobStatusActive"
      by (simp_all add: select_jobs_def)
    then show "\<exists>row\<in>set (jobs (primary w)). run_JobID r = job_ID row \<and> run_Status r = RunStatusPending \<and> run_Attempt r = 0 \<and>
       run_Priority r = job_Priority row \<and> run_ScheduledAt r = clock w + skew \<and>
       job_Status row = JobStatusActive \<and> \<not> has_active_run (job_ID row) (primary w) \<and>
       NextRunDue cron (job_CronExpr row) (map_option run_ScheduledAt (latest_run (job_ID row) (primary w)))
         (job_CreatedAt row) (clock w + skew) = Inr True \<and>
       (\<forall>u\<in>set (deps_of (job_ID row) (primary w)). \<exists>l. latest_run u (primary w) = Some l \<and> run_Status l = RunStatusSucceeded)"
      using row r dep by (intro bexI [of _ row]) (simp_all add: eligible_def due_now_def new_run_row_def)
  qed (use new w' \<open>res = Inr (length new)\<close> in simp_all)
qed

theorem promotion_sound_witness:
  "\<exists>new. primary (snd (run_state (PromoteOnce pg_store (\<lambda>_. Inl ErrJSON) (host_clock 5)) (demo_world demo_db 2))) =
     demo_db\<lparr>job_runs := job_runs demo_db @ new\<rparr>"
  using promotion_sound [OF good_demo surjective_pairing, of "\<lambda>_. Inl ErrJSON" 5] unfolding demo_world_simps by blast

text \<open>
  C14. Promotion is complete: when at most 10000 jobs are active, a pass without faults leaves no
  active job that is eligible, so a second pass at the same time returns 0 and changes nothing.
\<close>

theorem promotion_complete:
  assumes "good w" and "length (filter (\<lambda>r. job_Status r = JobStatusActive) (jobs (primary w))) \<le> 10000"
    and "run_state (PromoteOnce pg_store cron (host_clock skew)) w = (res, w')"
  shows "(\<forall>row\<in>set (jobs (primary w')). job_Status row = JobStatusActive \<longrightarrow> \<not> eligible cron (clock w + skew) (primary w') row) \<and>
    run_state (PromoteOnce pg_store cron (host_clock skew)) w' = (Inr 0, w')"
proof -
  let ?now = "clock w + skew" and ?rows = "\<lambda>w. select_jobs (Some JobStatusActive) (primary w)"
  have rows: "take 10000 (?rows w) = ?rows w" using assms(2) by (simp add: select_jobs_def)
  have w': "w' = promote_rows cron ?now (?rows w) w" and good': "good w'"
    using PromoteOnce_good [OF assms(1), of cron skew] assms(3) rows by simp_all
  obtain new where p': "primary w' = (primary w)\<lparr>job_runs := job_runs (primary w) @ new\<rparr>"
    using promote_rows_sound [of cron ?now "?rows w" w] w' by auto
  have clk: "clock w' = clock w"
    using io_relD [OF frame_PromoteOnce assms(3)] good_fields(1) [OF assms(1)] by (simp add: env_frame_def)
  have none: "\<not> eligible cron ?now (primary w') row" if "row \<in> set (?rows w')" for row
    using promote_rows_complete [of row "?rows w" cron ?now w] that w' p' by (simp add: select_jobs_def)
  have idle: "promote_rows cron ?now rows w' = w'" if "set rows \<subseteq> set (?rows w')" for rows
    using that none by (induction rows) auto
  have "run_state (PromoteOnce pg_store cron (host_clock skew)) w' = (Inr 0, w')"
    using PromoteOnce_good(1) [OF good', of cron skew] idle [OF set_take_subset [of 10000]] clk by simp
  then show ?thesis using none by (auto simp: select_jobs_def)
qed

theorem promotion_complete_witness:
  "run_state (PromoteOnce pg_store (\<lambda>_. Inl ErrJSON) (host_clock 0))
     (snd (run_state (PromoteOnce pg_store (\<lambda>_. Inl ErrJSON) (host_clock 0)) (demo_world demo_db 2))) =
   (Inr 0, snd (run_state (PromoteOnce pg_store (\<lambda>_. Inl ErrJSON) (host_clock 0)) (demo_world demo_db 2)))"
  using promotion_complete [OF good_demo _ surjective_pairing, of "\<lambda>_. Inl ErrJSON" 0]
  by (simp add: demo_db_def empty_db_def)

text \<open>
  A schedule that never matches fires all the time. The cron library documents that \<open>Next\<close>
  returns the zero time when no instant satisfies the expression (\<open>0 0 30 2 *\<close> parses but has
  none); \<open>NextRunDue\<close> then finds the job due at every time after year 1, whatever its last run.
\<close>

definition zero_time :: time where
  "zero_time = -62135596800 * 1000000000"

theorem impossible_schedule_always_due:
  assumes "cron e = Inr next_after" and "\<And>t. next_after t = zero_time" and "zero_time \<le> now"
  shows "NextRunDue cron (Some e) lastScheduledAt createdAt now = Inr True"
  using assms by (simp add: NextRunDue_def Let_def)

theorem impossible_schedule_always_due_witness:
  "NextRunDue (\<lambda>_. Inr (\<lambda>_. zero_time)) (Some ''0 0 30 2 *'') (Some 1700000000) 1600000000 1700000001 = Inr True"
  by (rule impossible_schedule_always_due) (simp_all add: zero_time_def)

end
