(* ===== verification/Api.thy ===== *)
theory Api
  imports Scheduler
begin

text \<open>
  The HTTP handlers of \<open>src/internal/api/handlers.go\<close> over any \<open>store_api\<close>. A handler takes what the router and
  \<open>encoding/json\<close> extract from a request (the body decoded within its 64 KiB, or the decoding error, the path's id,
  the query parameters, with an absent one read as the empty string) and returns the status code and the body it
  writes.
\<close>

subsection \<open>Responses\<close>

datatype body =
    BError string
  | BJob job
  | BJobs "job list"
  | BRun JobRun
  | BRuns "JobRun list"
  | BWorkers "worker list"
  | BStatus string
  | BNull

type_synonym response = "int \<times> body"

text \<open>
  What \<open>encoding/json\<close> writes: a list that the store found empty is the nil slice and is written as \<open>null\<close>.
\<close>

fun encode_body :: "body \<Rightarrow> body" where
  "encode_body (BRun r) = BRun (run_json r)"
| "encode_body (BRuns rs) = (if rs = [] then BNull else BRuns (map run_json rs))"
| "encode_body (BJobs js) = (if js = [] then BNull else BJobs js)"
| "encode_body (BWorkers ws) = (if ws = [] then BNull else BWorkers ws)"
| "encode_body b = b"

definition writeJSON :: "int \<Rightarrow> body \<Rightarrow> response" where
  "writeJSON status v = (status, encode_body v)"

definition writeError :: "int \<Rightarrow> string \<Rightarrow> response" where
  "writeError status msg = writeJSON status (BError msg)"

definition serverError :: response where
  "serverError = writeError 500 ''internal server error''"

subsection \<open>Text\<close>

text \<open>
  \<open>strings.TrimSpace\<close> on UTF-8 bytes: white space characters of Unicode, which take one, two or three bytes, are removed
  from the front and, read backwards, from the end.
\<close>

definition ascii_space :: "char \<Rightarrow> bool" where
  "ascii_space c \<longleftrightarrow> of_char c \<in> ({9, 10, 11, 12, 13, 32} :: nat set)"

definition space2 :: "nat \<Rightarrow> nat \<Rightarrow> bool" where
  "space2 a b \<longleftrightarrow> a = 0xC2 \<and> (b = 0x85 \<or> b = 0xA0)"

definition space3 :: "nat \<Rightarrow> nat \<Rightarrow> nat \<Rightarrow> bool" where
  "space3 a b c \<longleftrightarrow> a = 0xE1 \<and> b = 0x9A \<and> c = 0x80 \<or>
     a = 0xE2 \<and> b = 0x80 \<and> (0x80 \<le> c \<and> c \<le> 0x8A \<or> c = 0xA8 \<or> c = 0xA9 \<or> c = 0xAF) \<or>
     a = 0xE2 \<and> b = 0x81 \<and> c = 0x9F \<or> a = 0xE3 \<and> b = 0x80 \<and> c = 0x80"

function trim_front :: "(nat \<Rightarrow> nat \<Rightarrow> bool) \<Rightarrow> (nat \<Rightarrow> nat \<Rightarrow> nat \<Rightarrow> bool) \<Rightarrow> string \<Rightarrow> string" where
  "trim_front p2 p3 [] = []"
| "trim_front p2 p3 (c # cs) =
     (if ascii_space c then trim_front p2 p3 cs
      else case cs of
          [] \<Rightarrow> [c]
        | c2 # cs2 \<Rightarrow>
            if p2 (of_char c) (of_char c2) then trim_front p2 p3 cs2
            else (case cs2 of
                [] \<Rightarrow> [c, c2]
              | c3 # cs3 \<Rightarrow> if p3 (of_char c) (of_char c2) (of_char c3) then trim_front p2 p3 cs3 else c # cs))"
  by pat_completeness auto
termination by (relation "measure (\<lambda>(_, _, s). length s)") auto

definition TrimSpace :: "string \<Rightarrow> string" where
  "TrimSpace s = rev (trim_front (\<lambda>a b. space2 b a) (\<lambda>a b c. space3 c b a) (rev (trim_front space2 space3 s)))"

definition blank :: "string \<Rightarrow> bool" where
  "blank s \<longleftrightarrow> TrimSpace s = []"

lemmas trim_defs = TrimSpace_def ascii_space_def space2_def space3_def

text \<open>\<open>strconv.Atoi\<close>: an optional sign and decimal digits within the 64-bit range.\<close>

definition digit :: "char \<Rightarrow> int option" where
  "digit c = (let n = of_char c :: int in if 48 \<le> n \<and> n \<le> 57 then Some (n - 48) else None)"

fun digits :: "int \<Rightarrow> string \<Rightarrow> int option" where
  "digits acc [] = Some acc"
| "digits acc (c # cs) = (case digit c of None \<Rightarrow> None | Some d \<Rightarrow> digits (10 * acc + d) cs)"

definition Atoi :: "string \<Rightarrow> int option" where
  "Atoi s =
     (let (neg, ds) = (case s of
          [] \<Rightarrow> (False, [])
        | c # cs \<Rightarrow> if c = CHR ''-'' then (True, cs) else if c = CHR ''+'' then (False, cs) else (False, s))
      in if ds = [] then None
         else (case digits 0 ds of
             None \<Rightarrow> None
           | Some n \<Rightarrow> let v = (if neg then - n else n)
               in if - (2 ^ 63) \<le> v \<and> v < 2 ^ 63 then Some v else None))"

subsection \<open>Query parameters\<close>

definition defaultListLimit :: int where
  "defaultListLimit = 50"

definition maxListLimit :: int where
  "maxListLimit = 200"

definition parseLimit :: "string \<Rightarrow> response + int" where
  "parseLimit raw =
     (case (if raw \<noteq> [] then Atoi raw else Some defaultListLimit) of
        None \<Rightarrow> Inl (writeError 400 ''invalid limit'')
      | Some v \<Rightarrow> if v < 0 then Inl (writeError 400 ''invalid limit'')
                  else Inr (if maxListLimit < v then maxListLimit else v))"

definition parseOffset :: "string \<Rightarrow> response + int" where
  "parseOffset raw =
     (if raw = [] then Inr 0
      else (case Atoi raw of
          None \<Rightarrow> Inl (writeError 400 ''invalid offset'')
        | Some v \<Rightarrow> if v < 0 then Inl (writeError 400 ''invalid offset'') else Inr v))"

definition parse_status :: "string \<Rightarrow> job_status option" where
  "parse_status s = (if s = ''active'' then Some JobStatusActive else if s = ''paused'' then Some JobStatusPaused
     else if s = ''archived'' then Some JobStatusArchived else None)"

subsection \<open>Handlers\<close>

text \<open>The checks of \<open>createJob\<close> up to the store: the input with its defaults, or the response of a bad request.\<close>

definition validate_job :: "cron_lib \<Rightarrow> err + new_job_input \<Rightarrow> response + new_job_input" where
  "validate_job cron decoded = (case decoded of
     Inl _ \<Rightarrow> Inl (writeError 400 ''invalid request body'')
   | Inr i \<Rightarrow>
       if blank (in_Name i) then Inl (writeError 400 ''name is required'')
       else if (case in_CronExpr i of None \<Rightarrow> False | Some e \<Rightarrow> (case cron e of Inl _ \<Rightarrow> True | Inr _ \<Rightarrow> False))
       then Inl (writeError 400 ''invalid cron_expr'')
       else if in_MaxAttempts i \<noteq> 0 \<and> in_MaxAttempts i <s 1 then Inl (writeError 400 ''max_attempts must be >= 1'')
       else let i = (if in_MaxAttempts i = 0 then i\<lparr>in_MaxAttempts := 5\<rparr> else i) in
       if in_TimeoutSeconds i \<noteq> 0 \<and> in_TimeoutSeconds i <s 1 then Inl (writeError 400 ''timeout_seconds must be >= 1'')
       else Inr (if in_TimeoutSeconds i = 0 then i\<lparr>in_TimeoutSeconds := 300\<rparr> else i))"

definition createJob :: "'s store_api \<Rightarrow> cron_lib \<Rightarrow> err + new_job_input \<Rightarrow> ('s, response) state" where
  "createJob st cron decoded = (case validate_job cron decoded of
     Inl resp \<Rightarrow> ret resp
   | Inr i \<Rightarrow>
       let create = do {
         r \<leftarrow> api_CreateJob st i;
         ret (case r of
           Inl e \<Rightarrow> if errors_Is e ErrIdempotencyConflict then writeError 409 ''idempotency key already used'' else serverError
         | Inr job \<Rightarrow> writeJSON 201 (BJob job)) }
       in (case in_IdempotencyKey i of
             None \<Rightarrow> create
           | Some key \<Rightarrow>
               if key = [] then create
               else do {
                 r \<leftarrow> api_GetJobByIdempotencyKey st key;
                 case r of
                   Inr existing \<Rightarrow> ret (writeJSON 200 (BJob existing))
                 | Inl e \<Rightarrow> if errors_Is e ErrNotFound then create else ret serverError }))"

definition listJobs :: "'s store_api \<Rightarrow> string \<Rightarrow> string \<Rightarrow> string \<Rightarrow> ('s, response) state" where
  "listJobs st status limit offset =
     (if status \<noteq> [] \<and> parse_status status = None then ret (writeError 400 ''invalid status'')
      else (case parseLimit limit of
          Inl resp \<Rightarrow> ret resp
        | Inr l \<Rightarrow> (case parseOffset offset of
            Inl resp \<Rightarrow> ret resp
          | Inr off \<Rightarrow> do {
              r \<leftarrow> api_ListJobs st (parse_status status) l off;
              ret (case r of Inl _ \<Rightarrow> serverError | Inr js \<Rightarrow> writeJSON 200 (BJobs js)) })))"

definition getJob :: "'s store_api \<Rightarrow> string \<Rightarrow> ('s, response) state" where
  "getJob st jobID = do {
     r \<leftarrow> api_GetJob st jobID;
     ret (case r of
       Inl e \<Rightarrow> if errors_Is e ErrNotFound then writeError 404 ''job not found'' else serverError
     | Inr job \<Rightarrow> writeJSON 200 (BJob job)) }"

definition updateJobStatus :: "'s store_api \<Rightarrow> string \<Rightarrow> job_status \<Rightarrow> ('s, response) state" where
  "updateJobStatus st jobID status = do {
     u \<leftarrow> api_UpdateJobStatus st jobID status;
     case u of
       Inl e \<Rightarrow> ret (if errors_Is e ErrNotFound then writeError 404 ''job not found'' else serverError)
     | Inr _ \<Rightarrow> do {
         r \<leftarrow> api_GetJob st jobID;
         ret (case r of Inl _ \<Rightarrow> serverError | Inr job \<Rightarrow> writeJSON 200 (BJob job)) } }"

definition pauseJob :: "'s store_api \<Rightarrow> string \<Rightarrow> ('s, response) state" where
  "pauseJob st jobID = updateJobStatus st jobID JobStatusPaused"

definition resumeJob :: "'s store_api \<Rightarrow> string \<Rightarrow> ('s, response) state" where
  "resumeJob st jobID = updateJobStatus st jobID JobStatusActive"

definition listJobRuns :: "'s store_api \<Rightarrow> string \<Rightarrow> string \<Rightarrow> ('s, response) state" where
  "listJobRuns st jobID limit = (case parseLimit limit of
     Inl resp \<Rightarrow> ret resp
   | Inr l \<Rightarrow> do {
       r \<leftarrow> api_ListJobRuns st jobID l;
       ret (case r of Inl _ \<Rightarrow> serverError | Inr runs \<Rightarrow> writeJSON 200 (BRuns runs)) })"

definition getRun :: "'s store_api \<Rightarrow> string \<Rightarrow> ('s, response) state" where
  "getRun st runID = do {
     r \<leftarrow> api_GetRun st runID;
     ret (case r of
       Inl e \<Rightarrow> if errors_Is e ErrNotFound then writeError 404 ''run not found'' else serverError
     | Inr run \<Rightarrow> writeJSON 200 (BRun run)) }"

definition listWorkers :: "'s store_api \<Rightarrow> ('s, response) state" where
  "listWorkers st = do {
     r \<leftarrow> api_ListWorkers st;
     ret (case r of Inl _ \<Rightarrow> serverError | Inr ws \<Rightarrow> writeJSON 200 (BWorkers ws)) }"

end
