(* ===== verification/RateLimit.thy ===== *)
theory RateLimit
  imports Float64 Api
begin

text \<open>
  \<open>src/internal/api/ratelimit.go\<close>: the token bucket per client address. Tokens and elapsed seconds are \<open>float64\<close>
  values, every operation on them rounded (theory \<open>Float64\<close>); the rate is a finite number. \<open>time.Now()\<close> is an argument, and
  the lock makes each call of \<open>allow\<close> one step.
\<close>

record bucket =
  tokens :: rat
  lastRefill :: time

record rateLimiter =
  buckets :: "string \<Rightarrow> bucket option"
  rps :: rat
  burst :: int

definition newRateLimiter :: "rat \<Rightarrow> int \<Rightarrow> rateLimiter" where
  "newRateLimiter r b = \<lparr>buckets = (\<lambda>_. None), rps = r, burst = b\<rparr>"

text \<open>\<open>time.Time.Sub\<close>, which saturates at the range of a \<open>Duration\<close>, and \<open>Duration.Seconds\<close>.\<close>

definition time_Sub :: "time \<Rightarrow> time \<Rightarrow> int" where
  "time_Sub t u = max (- (2 ^ 63)) (min (2 ^ 63 - 1) (t - u))"

definition Seconds :: "int \<Rightarrow> rat" where
  "Seconds d = (let sec = sgn d * (\<bar>d\<bar> div 1000000000); nsec = sgn d * (\<bar>d\<bar> mod 1000000000)
     in float64_round (float64_round (of_int sec) + float64_round (float64_round (of_int nsec) / 1000000000)))"

definition allow :: "string \<Rightarrow> time \<Rightarrow> rateLimiter \<Rightarrow> bool \<times> rateLimiter" where
  "allow key now rl =
     (let full = float64_round (of_int (burst rl));
          b = (case buckets rl key of Some b \<Rightarrow> b | None \<Rightarrow> \<lparr>tokens = full, lastRefill = now\<rparr>);
          elapsed = Seconds (time_Sub now (lastRefill b));
          t = float64_round (tokens b + float64_round (elapsed * rps rl));
          t = (if full < t then full else t)
      in if t < 1 then (False, rl\<lparr>buckets := (buckets rl)(key \<mapsto> \<lparr>tokens = t, lastRefill = now\<rparr>)\<rparr>)
         else (True, rl\<lparr>buckets := (buckets rl)(key \<mapsto> \<lparr>tokens = float64_round (t - 1), lastRefill = now\<rparr>)\<rparr>))"

text \<open>\<open>net.SplitHostPort\<close>: the host before the last colon, without the brackets of an IPv6 address.\<close>

definition index_of :: "char \<Rightarrow> string \<Rightarrow> nat option" where
  "index_of c s = (if c \<in> set s then Some (length (takeWhile (\<lambda>x. x \<noteq> c) s)) else None)"

definition last_index :: "char \<Rightarrow> string \<Rightarrow> nat option" where
  "last_index c s = map_option (\<lambda>i. length s - 1 - i) (index_of c (rev s))"

definition SplitHostPort :: "string \<Rightarrow> string option" where
  "SplitHostPort hostport = (case last_index CHR '':'' hostport of
     None \<Rightarrow> None
   | Some i \<Rightarrow>
       if hd hostport = CHR ''['' then
         (case index_of CHR '']'' hostport of
            None \<Rightarrow> None
          | Some e \<Rightarrow>
              if e + 1 \<noteq> i then None
              else if CHR ''['' \<in> set (drop 1 hostport) \<or> CHR '']'' \<in> set (drop (e + 1) hostport) then None
              else Some (take (e - 1) (drop 1 hostport)))
       else if CHR '':'' \<in> set (take i hostport) \<or> CHR ''['' \<in> set hostport \<or> CHR '']'' \<in> set hostport then None
       else Some (take i hostport))"

definition clientIP :: "string \<Rightarrow> string" where
  "clientIP remoteAddr = (case SplitHostPort remoteAddr of None \<Rightarrow> remoteAddr | Some host \<Rightarrow> host)"

lemma takeWhile_until: "c \<notin> set xs \<Longrightarrow> takeWhile (\<lambda>x. x \<noteq> c) (xs @ c # ys) = xs"
  by (induction xs) auto

lemma last_index_snoc: "c \<notin> set ys \<Longrightarrow> last_index c (xs @ c # ys) = Some (length xs)"
  using takeWhile_until [of c "rev ys" "rev xs"] by (simp add: last_index_def index_of_def)

lemma clientIP_ignores_port:
  assumes "CHR '':'' \<notin> set host" "CHR ''['' \<notin> set host" "CHR '']'' \<notin> set host" "host \<noteq> []"
    and "CHR '':'' \<notin> set port" "CHR ''['' \<notin> set port" "CHR '']'' \<notin> set port"
  shows "clientIP (host @ '':'' @ port) = host"
proof -
  have "last_index CHR '':'' (host @ '':'' @ port) = Some (length host)"
    using last_index_snoc [OF assms(5), of host] by simp
  moreover have "hd (host @ '':'' @ port) \<noteq> CHR ''[''" using assms(2,4) by (cases host) auto
  ultimately show ?thesis using assms by (simp add: clientIP_def SplitHostPort_def)
qed

lemma clientIP_bracketed:
  assumes "CHR ''['' \<notin> set host" "CHR '']'' \<notin> set host"
    and "CHR '':'' \<notin> set port" "CHR ''['' \<notin> set port" "CHR '']'' \<notin> set port"
  shows "clientIP (''['' @ host @ '']:'' @ port) = host"
proof -
  have "last_index CHR '':'' (''['' @ host @ '']:'' @ port) = Some (length host + 2)"
    using last_index_snoc [of "CHR '':''" port "''['' @ host @ '']''"] assms(3) by simp
  moreover have "index_of CHR '']'' (''['' @ host @ '']:'' @ port) = Some (length host + 1)"
    using assms(2) takeWhile_until [OF assms(2), of "'':'' @ port"] by (simp add: index_of_def)
  ultimately show ?thesis using assms by (simp add: clientIP_def SplitHostPort_def)
qed

subsection \<open>The bucket\<close>

definition refilled :: "string \<Rightarrow> time \<Rightarrow> rateLimiter \<Rightarrow> rat" where
  "refilled key now rl = (let full = float64_round (of_int (burst rl)) in case buckets rl key of
     None \<Rightarrow> min full (float64_round (full + float64_round (Seconds (time_Sub now now) * rps rl)))
   | Some b \<Rightarrow> min full (float64_round (tokens b + float64_round (Seconds (time_Sub now (lastRefill b)) * rps rl))))"

lemma allow_refilled:
  "allow key now rl = (1 \<le> refilled key now rl, rl\<lparr>buckets := (buckets rl)(key \<mapsto>
     \<lparr>tokens = (if refilled key now rl < 1 then refilled key now rl else float64_round (refilled key now rl - 1)),
      lastRefill = now\<rparr>)\<rparr>)"
  by (auto simp: allow_def refilled_def Let_def min_def split: option.splits)

lemma Seconds_0 [simp]: "Seconds 0 = 0"
  by (simp add: Seconds_def)

lemma time_Sub_self [simp]: "time_Sub t t = 0"
  by (simp add: time_Sub_def)

lemma Seconds_nonneg: "0 \<le> d \<Longrightarrow> 0 \<le> Seconds d"
  unfolding Seconds_def Let_def
  by (intro float64_round_nonneg add_nonneg_nonneg divide_nonneg_nonneg) (simp_all add: sgn_if pos_imp_zdiv_nonneg_iff)

lemma time_Sub_nonneg: "u \<le> t \<Longrightarrow> 0 \<le> time_Sub t u"
  by (simp add: time_Sub_def)

definition limiter_ok :: "time \<Rightarrow> rateLimiter \<Rightarrow> bool" where
  "limiter_ok t rl \<longleftrightarrow> 0 \<le> rps rl \<and> 0 \<le> burst rl \<and> burst rl < 2 ^ 53 \<and>
     (\<forall>key b. buckets rl key = Some b \<longrightarrow> 0 \<le> tokens b \<and> tokens b \<le> of_int (burst rl) \<and> lastRefill b \<le> t)"

lemma limiter_okD:
  assumes "limiter_ok t rl"
  shows "0 \<le> rps rl" "0 \<le> burst rl" "float64_round (of_int (burst rl)) = of_int (burst rl)"
    "buckets rl key = Some b \<Longrightarrow> 0 \<le> tokens b" "buckets rl key = Some b \<Longrightarrow> tokens b \<le> of_int (burst rl)"
    "buckets rl key = Some b \<Longrightarrow> t \<le> now \<Longrightarrow> lastRefill b \<le> now"
  using assms by (auto simp: limiter_ok_def float64_round_int intro: order_trans)

lemma refilled_bounds:
  assumes "limiter_ok t rl" and "t \<le> now"
  shows "0 \<le> refilled key now rl" and "refilled key now rl \<le> of_int (burst rl)"
proof -
  have "0 \<le> float64_round (tokens b + float64_round (Seconds (time_Sub now (lastRefill b)) * rps rl))"
    if "buckets rl key = Some b" for b
    using limiter_okD [OF assms(1)] that assms(2)
    by (intro float64_round_nonneg add_nonneg_nonneg mult_nonneg_nonneg Seconds_nonneg time_Sub_nonneg) auto
  then show "0 \<le> refilled key now rl" "refilled key now rl \<le> of_int (burst rl)"
    using limiter_okD [OF assms(1)] by (auto simp: refilled_def Let_def split: option.splits)
qed

lemma allow_ok:
  assumes "limiter_ok t rl" and "t \<le> now"
  shows "limiter_ok now (snd (allow key now rl))"
proof -
  note bounds = refilled_bounds [OF assms, of key] and ok = limiter_okD [OF assms(1)]
  have "float64_round (refilled key now rl - 1) \<le> of_int (burst rl)" if "1 \<le> refilled key now rl"
    using float64_round_mono [of "refilled key now rl - 1" "of_int (burst rl)"] bounds that ok(3) by simp
  moreover have "0 \<le> float64_round (refilled key now rl - 1)" if "1 \<le> refilled key now rl"
    using that by (simp add: float64_round_nonneg)
  ultimately show ?thesis using assms bounds ok
    by (auto simp: allow_refilled limiter_ok_def split: if_splits)
qed

text \<open>A client whose waiting time pays for a whole token is admitted, and so is a new one.\<close>

lemma waiting_admits:
  assumes "limiter_ok t rl" and "1 \<le> burst rl"
    and "case buckets rl key of None \<Rightarrow> True | Some b \<Rightarrow> 1 \<le> Seconds (time_Sub now (lastRefill b)) * rps rl"
  shows "fst (allow key now rl)"
proof -
  have "1 \<le> float64_round (tokens b + float64_round (Seconds (time_Sub now (lastRefill b)) * rps rl))"
    if b: "buckets rl key = Some b" for b
  proof -
    have "1 \<le> float64_round (Seconds (time_Sub now (lastRefill b)) * rps rl)" using assms(3) b by (simp add: float64_round_one_le)
    then show ?thesis using limiter_okD(4) [OF assms(1) b] by (intro float64_round_one_le) simp
  qed
  then show ?thesis using assms(2) limiter_okD(3) [OF assms(1)]
    by (auto simp: allow_refilled refilled_def Let_def split: option.splits)
qed

subsection \<open>Sequences of requests\<close>

primrec allow_all :: "(string \<times> time) list \<Rightarrow> rateLimiter \<Rightarrow> bool list \<times> rateLimiter" where
  "allow_all [] rl = ([], rl)"
| "allow_all (q # qs) rl = (let (a, rl) = allow (fst q) (snd q) rl; (as, rl) = allow_all qs rl in (a # as, rl))"

definition admitted :: "string \<Rightarrow> string list \<Rightarrow> bool list \<Rightarrow> nat" where
  "admitted key ks as = length (filter (\<lambda>(k, a). k = key \<and> a) (zip ks as))"

lemma allow_config [simp]: "rps (snd (allow k t rl)) = rps rl" "burst (snd (allow k t rl)) = burst rl"
  by (simp_all add: allow_refilled)

lemma allow_all_ok:
  assumes "limiter_ok t rl" and "sorted (t # map snd qs)" and "sorted (t # map snd qs @ [now])"
  shows "limiter_ok now (snd (allow_all qs rl)) \<and> rps (snd (allow_all qs rl)) = rps rl \<and> burst (snd (allow_all qs rl)) = burst rl"
  using assms
proof (induction qs arbitrary: t rl)
  case Nil
  then show ?case by (auto simp: limiter_ok_def intro: order_trans)
next
  case (Cons q qs)
  have "limiter_ok (snd q) (snd (allow (fst q) (snd q) rl))" using allow_ok Cons.prems by simp
  from Cons.IH [OF this] Cons.prems show ?case by (auto simp: Let_def split: prod.splits)
qed

text \<open>At one instant nothing is refilled, and the tokens are whole numbers.\<close>

definition available :: "time \<Rightarrow> rateLimiter \<Rightarrow> string \<Rightarrow> nat \<Rightarrow> bool" where
  "available now rl key n \<longleftrightarrow> int n \<le> burst rl \<and>
     (buckets rl key = None \<and> int n = burst rl \<or> buckets rl key = Some \<lparr>tokens = of_nat n, lastRefill = now\<rparr>)"

lemma allow_available:
  assumes "burst rl < 2 ^ 53" and "available now rl key n"
  shows "fst (allow key now rl) = (0 < n)" and "available now (snd (allow key now rl)) key (n - 1)"
proof -
  have exact: "float64_round (of_int m) = of_int m" if "0 \<le> m" "m \<le> burst rl" for m
    using that assms(1) by (simp add: float64_round_int)
  have "float64_round (of_nat n) = of_nat n" using exact [of "int n"] assms(2) by (simp add: available_def)
  moreover have "float64_round (of_nat n - 1) = of_nat (n - 1)" if "0 < n"
    using exact [of "int n - 1"] that assms(2) by (simp add: available_def of_nat_diff)
  moreover have "refilled key now rl = of_nat n"
  proof (cases "buckets rl key")
    case None
    then have "burst rl = int n" using assms(2) by (simp add: available_def)
    then show ?thesis using None exact [of "int n"] by (simp add: refilled_def)
  next
    case (Some b)
    then have n: "int n \<le> burst rl" and b: "b = \<lparr>tokens = of_nat n, lastRefill = now\<rparr>" using assms(2) by (simp_all add: available_def)
    then have "float64_round (of_int (burst rl)) = of_int (burst rl)" "float64_round (of_nat n) = of_nat n"
      using exact [of "burst rl"] exact [of "int n"] by simp_all
    moreover have "rat_of_nat n \<le> of_int (burst rl)" using n by (metis of_int_le_iff of_int_of_nat_eq)
    ultimately show ?thesis using Some b by (simp add: refilled_def)
  qed
  ultimately show "fst (allow key now rl) = (0 < n)" and "available now (snd (allow key now rl)) key (n - 1)"
    using assms(2) by (cases n; auto simp: allow_refilled available_def)+
qed

lemma allow_other: "k \<noteq> key \<Longrightarrow> available now (snd (allow k t rl)) key n = available now rl key n"
  by (simp add: allow_refilled available_def)

lemma allow_all_available:
  assumes "burst rl < 2 ^ 53" and "available now rl key n"
  shows "admitted key ks (fst (allow_all (map (\<lambda>k. (k, now)) ks) rl)) = min (count_list ks key) n"
  using assms
proof (induction ks arbitrary: rl n)
  case (Cons k ks)
  let ?rl = "snd (allow k now rl)"
  have small: "burst ?rl < 2 ^ 53" using Cons.prems(1) by simp
  show ?case
  proof (cases "k = key")
    case True
    note here = allow_available [OF Cons.prems]
    have "available now ?rl key (n - 1)" using here(2) True by simp
    from Cons.IH [OF small this] here(1) True show ?thesis
      by (cases n) (auto simp: admitted_def Let_def split: prod.splits)
  next
    case False
    then have "available now ?rl key n" using allow_other Cons.prems(2) by simp
    from Cons.IH [OF small this] False show ?thesis by (auto simp: admitted_def Let_def split: prod.splits)
  qed
qed (simp add: admitted_def)

text \<open>
  The limiter's bound on a burst is exact and per client: of any sequence of requests that reach a new limiter at one
  instant, in whatever order the clients' requests come, each client has exactly the first \<open>burst\<close> of its own requests
  admitted, or all of them if there are fewer.
\<close>

theorem burst_is_exact:
  assumes "0 \<le> b" and "b < 2 ^ 53"
  shows "admitted key ks (fst (allow_all (map (\<lambda>k. (k, now)) ks) (newRateLimiter r b))) = min (count_list ks key) (nat b)"
  by (rule allow_all_available) (use assms in \<open>simp_all add: newRateLimiter_def available_def\<close>)

theorem burst_is_exact_witness:
  "admitted ''10.0.0.1'' [''10.0.0.1'', ''10.0.0.2'', ''10.0.0.1'', ''10.0.0.1'']
     (fst (allow_all (map (\<lambda>k. (k, 0)) [''10.0.0.1'', ''10.0.0.2'', ''10.0.0.1'', ''10.0.0.1'']) (newRateLimiter 20 2))) = 2"
  using burst_is_exact [of 2 "''10.0.0.1''" "[''10.0.0.1'', ''10.0.0.2'', ''10.0.0.1'', ''10.0.0.1'']" 0 20] by simp

text \<open>
  C29. After any sequence of requests at times that do not go back, with all the rounding of \<open>float64\<close>, every bucket
  holds between 0 and \<open>burst\<close> tokens, and no client is locked out: a request from a client not seen before, or from one whose
  last request is so long ago that the elapsed seconds times the rate make at least one token, is admitted.
\<close>

theorem limiter_bounded_and_live:
  assumes "0 \<le> r" and "0 \<le> b" and "b < 2 ^ 53" and "sorted (map snd qs @ [now])"
    and "snd (allow_all qs (newRateLimiter r b)) = rl"
  shows "(\<forall>key q. buckets rl key = Some q \<longrightarrow> 0 \<le> tokens q \<and> tokens q \<le> of_int b \<and> lastRefill q \<le> now) \<and>
    (1 \<le> b \<longrightarrow> (case buckets rl key of None \<Rightarrow> True | Some q \<Rightarrow> 1 \<le> Seconds (time_Sub now (lastRefill q)) * r) \<longrightarrow>
       fst (allow key now rl))"
proof -
  define t where "t = hd (map snd qs @ [now])"
  have "limiter_ok t (newRateLimiter r b)" using assms(1-3) by (simp add: limiter_ok_def newRateLimiter_def)
  moreover have "sorted (t # map snd qs @ [now])" using assms(4) by (cases qs) (simp_all add: t_def)
  moreover from this have "sorted (t # map snd qs)" by (simp add: sorted_append)
  ultimately have "limiter_ok now rl" "rps rl = r" "burst rl = b"
    using allow_all_ok [of t "newRateLimiter r b" qs now] assms(5) by (simp_all add: newRateLimiter_def)
  then show ?thesis using waiting_admits [where t = now and rl = rl and key = key and now = now] by (auto simp: limiter_ok_def)
qed

theorem limiter_bounded_and_live_witness:
  "fst (allow ''10.0.0.1'' 1000000000 (snd (allow_all [(''10.0.0.1'', 0)] (newRateLimiter 20 1))))"
proof -
  let ?rl = "snd (allow_all [(''10.0.0.1'', 0)] (newRateLimiter 20 1))"
  have "Seconds (time_Sub 1000000000 0) = 1"
    using float64_round_int [of 1] by (simp add: Seconds_def time_Sub_def)
  then have "case buckets ?rl ''10.0.0.1'' of None \<Rightarrow> True | Some q \<Rightarrow> 1 \<le> Seconds (time_Sub 1000000000 (lastRefill q)) * (20 :: rat)"
    by (simp add: allow_refilled newRateLimiter_def)
  then show ?thesis using limiter_bounded_and_live [of 20 1 "[(''10.0.0.1'', 0)]" 1000000000, OF _ _ _ _ refl] by simp
qed

end
