(* ===== verification/Api_Props.thy ===== *)
theory Api_Props
  imports Api
begin

text \<open>
  Properties of the HTTP handlers over the Postgres store.
\<close>

subsection \<open>Validation\<close>

text \<open>The documented conditions on a create request, and the request with its defaults.\<close>

definition acceptable :: "cron_lib \<Rightarrow> new_job_input \<Rightarrow> bool" where
  "acceptable cron i \<longleftrightarrow> \<not> blank (in_Name i) \<and>
     (case in_CronExpr i of None \<Rightarrow> True | Some e \<Rightarrow> (case cron e of Inl _ \<Rightarrow> False | Inr _ \<Rightarrow> True)) \<and>
     0 \<le> sint (in_MaxAttempts i) \<and> 0 \<le> sint (in_TimeoutSeconds i)"

definition with_defaults :: "new_job_input \<Rightarrow> new_job_input" where
  "with_defaults i = i\<lparr>in_MaxAttempts := (if in_MaxAttempts i = 0 then 5 else in_MaxAttempts i),
     in_TimeoutSeconds := (if in_TimeoutSeconds i = 0 then 300 else in_TimeoutSeconds i)\<rparr>"

lemma with_defaults_fields [simp]:
  "in_Name (with_defaults i) = in_Name i" "in_CronExpr (with_defaults i) = in_CronExpr i"
  "in_IdempotencyKey (with_defaults i) = in_IdempotencyKey i" "in_Payload (with_defaults i) = in_Payload i"
  "in_DependsOn (with_defaults i) = in_DependsOn i"
  by (simp_all add: with_defaults_def)

lemma sint_zero_iff: "sint x = 0 \<longleftrightarrow> x = 0" for x :: "'a::len word"
  by (metis sint_0 sint_eq_iff)

lemma positive_or_zero:
  "x \<noteq> 0 \<and> x <s 1 \<longleftrightarrow> sint x < 0" "y \<noteq> 0 \<and> y <s 1 \<longleftrightarrow> sint y < 0" for x :: int16 and y :: int32
  using sint_zero_iff [of x] sint_zero_iff [of y] by (auto simp: word_sless_alt)

lemma with_defaults_positive:
  assumes "acceptable cron i"
  shows "1 \<le> sint (in_MaxAttempts (with_defaults i))" "1 \<le> sint (in_TimeoutSeconds (with_defaults i))"
  using assms sint_zero_iff [of "in_MaxAttempts i"] sint_zero_iff [of "in_TimeoutSeconds i"]
  by (auto simp: acceptable_def with_defaults_def)

lemma acceptable_cron: "acceptable cron i \<Longrightarrow> in_CronExpr i = Some e \<Longrightarrow> \<exists>next_after. cron e = Inr next_after"
  by (cases "cron e") (auto simp: acceptable_def)

lemma validate_acceptable: "acceptable cron i \<Longrightarrow> validate_job cron (Inr i) = Inr (with_defaults i)"
  by (auto simp: acceptable_def validate_job_def with_defaults_def positive_or_zero Let_def split: option.splits sum.splits)

lemma validate_unacceptable:
  assumes "\<not> acceptable cron i"
  shows "\<exists>msg. validate_job cron (Inr i) = Inl (writeError 400 msg)"
  using assms by (auto simp: acceptable_def validate_job_def positive_or_zero Let_def split: option.splits sum.splits)

lemma createJob_unacceptable:
  assumes "\<And>i. decoded = Inr i \<Longrightarrow> \<not> acceptable cron i"
  shows "\<exists>msg. run_state (createJob st cron decoded) w = (writeError 400 msg, w)"
  using assms validate_unacceptable [of cron]
  by (cases decoded) (force simp: createJob_def validate_job_def)+

lemma response_fst [simp]:
  "fst (writeError c m) = c" "fst (writeJSON c b) = c" "writeJSON c b = (c', b') \<longleftrightarrow> c = c' \<and> encode_body b = b'"
  "writeError c m = (c', b') \<longleftrightarrow> c = c' \<and> b' = BError m"
  by (auto simp: writeError_def writeJSON_def)

text \<open>What a create request does after its validation: the lookup of the key, if any, and the insertion.\<close>

definition key_given :: "new_job_input \<Rightarrow> bool" where
  "key_given i \<longleftrightarrow> in_IdempotencyKey i \<noteq> None \<and> in_IdempotencyKey i \<noteq> Some []"

definition create_response :: "err + job \<Rightarrow> response" where
  "create_response r = (case r of
     Inl e \<Rightarrow> if errors_Is e ErrIdempotencyConflict then writeError 409 ''idempotency key already used'' else serverError
   | Inr job \<Rightarrow> writeJSON 201 (BJob job))"

lemma create_response_simps:
  "create_response (Inr job) = (201, BJob job)"
  "create_response (Inl e) = (if errors_Is e ErrIdempotencyConflict then 409 else 500,
     BError (if errors_Is e ErrIdempotencyConflict then ''idempotency key already used'' else ''internal server error''))"
  by (simp_all add: create_response_def serverError_def writeError_def writeJSON_def)

lemma create_response_not_200 [simp]: "fst (create_response r) \<noteq> 400" "fst (create_response r) \<noteq> 200"
  by (cases r; simp add: create_response_simps)+

lemma create_response_201: "(201, b) = create_response r \<Longrightarrow> \<exists>job. r = Inr job \<and> b = BJob job"
  by (cases r) (auto simp: create_response_simps split: if_splits)

lemma createJob_acceptable:
  assumes "acceptable cron i"
  shows "createJob st cron (Inr i) =
    (let create = do { r \<leftarrow> api_CreateJob st (with_defaults i); ret (create_response r) }
     in if key_given i
        then do {
          r \<leftarrow> api_GetJobByIdempotencyKey st (the (in_IdempotencyKey i));
          case r of
            Inr existing \<Rightarrow> ret (writeJSON 200 (BJob existing))
          | Inl e \<Rightarrow> if errors_Is e ErrNotFound then create else ret serverError }
        else create)"
  by (auto simp: createJob_def validate_acceptable [OF assms] key_given_def create_response_def Let_def split: option.splits)

lemma createJob_cases:
  assumes "acceptable cron i" and "run_state (createJob pg_store cron (Inr i)) w = (resp, w')" and "tx_closed w"
  shows "primary w' = primary w \<and> fst resp \<noteq> 400 \<and> fst resp \<noteq> 201 \<or>
    (\<exists>w1 r. primary w1 = primary w \<and> tx_closed w1 \<and> run_state (CreateJob (with_defaults i)) w1 = (r, w') \<and> resp = create_response r)"
proof (cases "key_given i")
  case False
  then show ?thesis using assms by (auto simp: createJob_acceptable split: prod.splits)
next
  case True
  let ?get = "GetJobByIdempotencyKey (the (in_IdempotencyKey i))"
  obtain r w1 where get: "run_state ?get w = (r, w1)" by (cases "run_state ?get w")
  have "primary w1 = primary w" and "tx_closed w1"
    using io_relD [OF store_reads(2) get] keepsD [OF closed_store(3) get assms(3)] by simp_all
  then show ?thesis using assms(2) True get
    by (auto simp: createJob_acceptable [OF assms(1)] serverError_def split: sum.splits if_splits prod.splits)
qed

text \<open>
  C25. A create request is answered with 400 exactly when its body does not decode or breaks one of the documented
  conditions (a name that is not blank, a cron expression that parses, no negative attempt limit or timeout),
  and then nothing is asked of the store. Whatever is lost on the way, a job that a request adds to the table has a name
  that is not blank, a cron expression that parses, and a limit of at least one attempt and one second.
\<close>

theorem createJob_validation:
  assumes "tx_closed w" and "run_state (createJob pg_store cron decoded) w = (resp, w')"
  shows "(fst resp = 400 \<longleftrightarrow> \<not> (\<exists>i. decoded = Inr i \<and> acceptable cron i)) \<and> (fst resp = 400 \<longrightarrow> w' = w) \<and>
    (\<forall>r\<in>set (jobs (primary w')). r \<in> set (jobs (primary w)) \<or>
       \<not> blank (job_Name r) \<and> 1 \<le> sint (job_MaxAttempts r) \<and> 1 \<le> sint (job_TimeoutSeconds r) \<and>
       (\<forall>e. job_CronExpr r = Some e \<longrightarrow> (\<exists>next_after. cron e = Inr next_after)))"
proof (cases "\<exists>i. decoded = Inr i \<and> acceptable cron i")
  case False
  then have "w' = w \<and> fst resp = 400"
    using createJob_unacceptable [of decoded cron pg_store w] assms(2) by auto
  then show ?thesis using False by simp
next
  case True
  then obtain i where i: "decoded = Inr i" "acceptable cron i" by blast
  have "fst resp \<noteq> 400"
    using createJob_cases [OF i(2) assms(2) [unfolded i] assms(1)]
    by auto
  moreover have "r \<in> set (jobs (primary w)) \<or> \<not> blank (job_Name r) \<and> 1 \<le> sint (job_MaxAttempts r) \<and>
       1 \<le> sint (job_TimeoutSeconds r) \<and> (\<forall>e. job_CronExpr r = Some e \<longrightarrow> (\<exists>next_after. cron e = Inr next_after))"
    if "r \<in> set (jobs (primary w'))" for r
  proof -
    have "r \<in> set (jobs (primary w)) \<or> (\<exists>u t v. r = new_job_row u t (with_defaults i) v)"
      using createJob_cases [OF i(2) assms(2) [unfolded i] assms(1)]
    proof (elim disjE exE conjE)
      fix w1 q assume w1: "primary w1 = primary w" "tx_closed w1" "run_state (CreateJob (with_defaults i)) w1 = (q, w')"
      from CreateJob_cases [OF w1(2,3)] that w1(1) show ?thesis
        by (elim disjE exE conjE) (auto simp: created_db_def)
    qed (use that in simp)
    then show ?thesis
      using i(2) with_defaults_positive [OF i(2)] acceptable_cron [OF i(2)]
      by (auto simp: new_job_row_def acceptable_def)
  qed
  ultimately show ?thesis using True by blast
qed

theorem createJob_validation_witness:
  "run_state (createJob pg_store (\<lambda>_. Inl ErrJSON) (Inr (demo_input\<lparr>in_Name := '' ''\<rparr>))) (demo_world empty_db 0) =
     (writeError 400 ''name is required'', demo_world empty_db 0)"
proof -
  have "\<not> acceptable (\<lambda>_. Inl ErrJSON) (demo_input\<lparr>in_Name := '' ''\<rparr>)"
    by (simp add: acceptable_def blank_def trim_defs)
  then show ?thesis
    using createJob_validation [OF _ surjective_pairing, of "demo_world empty_db 0" "\<lambda>_. Inl ErrJSON"
        "Inr (demo_input\<lparr>in_Name := '' ''\<rparr>)"]
    by (simp add: createJob_def validate_job_def blank_def trim_defs)
qed

subsection \<open>Idempotent creation\<close>

lemma grows_job:
  assumes "grows d d'" and "r \<in> set (jobs d)"
  obtains s t where "r\<lparr>job_Status := s, job_UpdatedAt := t\<rparr> \<in> set (jobs d')"
  using assms by (fastforce simp: grows_def grows_by_def job_later_def in_set_conv_nth)

lemma find_unique_some:
  assumes "distinct (filter (\<lambda>k. k \<noteq> None) (map f xs))" and "x \<in> set xs" and "f x = Some key"
  shows "List.find (\<lambda>y. f y = Some key) xs = Some x"
  using assms
proof (induction xs)
  case (Cons y ys)
  have "f x \<in> set (filter (\<lambda>k. k \<noteq> None) (map f ys))" if "x \<in> set ys" using that Cons.prems(3) by force
  then show ?case using Cons by (auto split: if_splits)
qed simp

lemma find_key_job:
  assumes "integrity d" and "r \<in> set (jobs d)" and "job_IdempotencyKey r = Some key"
  shows "List.find (\<lambda>x. job_IdempotencyKey x = Some key) (jobs d) = Some r"
  using assms by (intro find_unique_some) (simp_all add: integrity_def)

text \<open>A request with a key that a job in the table has is answered with that job.\<close>

lemma createJob_existing:
  assumes "good w" and "r \<in> set (jobs (primary w))" and "job_IdempotencyKey r = Some key" and "key \<noteq> []"
    and "acceptable cron i" and "in_IdempotencyKey i = Some key"
  shows "run_state (createJob pg_store cron (Inr i)) w = ((200, BJob (job_view (primary w) r)), w)"
proof -
  have "run_state (GetJobByIdempotencyKey key) w = (Inr (job_view (primary w) r), w)"
    using GetJobByIdempotencyKey_good [OF assms(1), of key] find_key_job [OF good_fields(4) [OF assms(1)] assms(2,3)] by simp
  then show ?thesis using assms(4-6)
    by (simp add: createJob_acceptable key_given_def Let_def writeJSON_def)
qed

lemma createJob_closed:
  assumes "tx_closed w" and "run_state (createJob pg_store cron decoded) w = (resp, w')"
  shows "tx_closed w'"
proof -
  have "keeps tx_closed (createJob pg_store cron decoded)"
    unfolding createJob_def pg_store_simps by (intro keep.io_body closed_store)
  from keepsD [OF this assms(2,1)] show ?thesis .
qed

lemma createJob_created:
  assumes "acceptable cron i" and "tx_closed w" and "run_state (createJob pg_store cron (Inr i)) w = ((201, b), w')"
  obtains row us where "job_insertable row (primary w)"
    and "primary w' = created_db row us (primary w)" and "b = BJob (job_of_row row (in_Payload i) (in_DependsOn i))"
    and "job_IdempotencyKey row = in_IdempotencyKey i" and "json_Marshal (in_Payload i) = Inr (job_Payload row)"
proof -
  from createJob_cases [OF assms(1,3,2)] obtain w1 r where w1: "primary w1 = primary w" "tx_closed w1"
    and r: "run_state (CreateJob (with_defaults i)) w1 = (r, w')" "(201, b) = create_response r" by auto
  then obtain job where run: "run_state (CreateJob (with_defaults i)) w1 = (Inr job, w')" and b: "b = BJob job"
    using create_response_201 by blast
  obtain t v us row where "json_Marshal (in_Payload (with_defaults i)) = Inr v"
    and "row = new_job_row (uuid_gen w1 (uuid_next w1)) t (with_defaults i) v" and "job_insertable row (primary w1)"
    and "primary w' = created_db row us (primary w1)"
    and "job = job_of_row row (in_Payload (with_defaults i)) (in_DependsOn (with_defaults i))"
    by (rule CreateJob_Inr [OF w1(2) run])
  then show ?thesis using that [of row us] w1 b by (simp add: new_job_row_def)
qed

text \<open>
  C26. Creating a job is idempotent: after a request with a (non-empty) key was answered with 201, and after any
  number of further operations of all services, under whatever faults, a request with the same key that reaches a
  database without faults and without a replica is answered with 200 and the job created first. It has the identifier,
  name, payload, schedule, priority and limits it was created with, and the second request changes nothing.
\<close>

theorem createJob_idempotent:
  assumes "good w" and "acceptable cron i" and "in_IdempotencyKey i = Some key" and "key \<noteq> []"
    and "run_state (createJob pg_store cron (Inr i)) w = ((201, BJob job), w1)"
    and "store_steps w1 w2" and "good w2" and "acceptable cron2 i2" and "in_IdempotencyKey i2 = Some key"
  shows "\<exists>job2. run_state (createJob pg_store cron2 (Inr i2)) w2 = ((200, BJob job2), w2) \<and>
    job_ID job2 = job_ID job \<and> job_Name job2 = job_Name job \<and> job_Payload job2 = job_Payload job \<and>
    job_CronExpr job2 = job_CronExpr job \<and> job_Priority job2 = job_Priority job \<and>
    job_MaxAttempts job2 = job_MaxAttempts job \<and> job_TimeoutSeconds job2 = job_TimeoutSeconds job \<and>
    job_CreatedAt job2 = job_CreatedAt job"
proof -
  have closed: "tx_closed w" using assms(1) by (simp add: good_def wf_world_def)
  obtain row us where row: "primary w1 = created_db row us (primary w)" "job_IdempotencyKey row = Some key"
    "json_Marshal (in_Payload i) = Inr (job_Payload row)" and job: "job = job_of_row row (in_Payload i) (in_DependsOn i)"
    by (rule createJob_created [OF assms(2) closed assms(5)]) (auto simp: assms(3))
  have "tx_closed w1"
    using createJob_closed [OF closed assms(5)] by simp
  then have "grows (primary w1) (primary w2)" by (rule steps_grow [OF assms(6)])
  then obtain s t where r: "row\<lparr>job_Status := s, job_UpdatedAt := t\<rparr> \<in> set (jobs (primary w2))" (is "?r \<in> _")
    using row(1) by (auto simp: created_db_def elim: grows_job)
  have "run_state (createJob pg_store cron2 (Inr i2)) w2 = ((200, BJob (job_view (primary w2) ?r)), w2)"
    by (rule createJob_existing [OF assms(7) r _ assms(4,8,9)]) (simp add: row)
  moreover have "decode (job_Payload row) = in_Payload i" using json_roundtrip [OF row(3)] by (simp add: decode_def)
  ultimately show ?thesis using job by (simp add: job_view_def job_of_row_def)
qed

lemma acceptable_demo: "acceptable cron demo_input"
  by (simp add: acceptable_def demo_input_def blank_def trim_defs)

lemma demo_createJob:
  "run_state (createJob pg_store cron (Inr demo_input)) (demo_world empty_db 0) =
     ((201, BJob (job_of_row demo_job (in_Payload demo_input) [])), demo_world (empty_db\<lparr>jobs := [demo_job]\<rparr>) 1)"
proof -
  have no_jobs: "jobs empty_db = []" by (simp add: empty_db_def)
  have "key_given demo_input" "with_defaults demo_input = demo_input" "in_IdempotencyKey demo_input = Some ''key-1''"
    by (simp_all add: key_given_def with_defaults_def demo_input_def)
  then show ?thesis
    using GetJobByIdempotencyKey_good [OF good_demo_empty, of "''key-1''"] no_jobs
    by (simp add: createJob_acceptable [OF acceptable_demo] demo_CreateJob create_response_simps)
qed

theorem createJob_idempotent_witness:
  "\<exists>job2 w2. run_state (createJob pg_store (\<lambda>_. Inl ErrJSON) (Inr (demo_input\<lparr>in_Name := ''sleep''\<rparr>)))
     (demo_world (empty_db\<lparr>jobs := [demo_job]\<rparr>) 1) = ((200, BJob job2), w2) \<and> job_ID job2 = demo_uuid 0 \<and> job_Name job2 = ''echo''"
proof -
  let ?w = "demo_world (empty_db\<lparr>jobs := [demo_job]\<rparr>) 1" and ?i = "demo_input\<lparr>in_Name := ''sleep''\<rparr>"
  have "good ?w" by (rule good_store(1) [OF good_demo_empty demo_CreateJob])
  moreover have "acceptable (\<lambda>_. Inl ErrJSON) ?i" by (simp add: acceptable_def demo_input_def blank_def trim_defs)
  moreover have "in_IdempotencyKey demo_input = Some ''key-1''" by (simp add: demo_input_def)
  ultimately show ?thesis
    using createJob_idempotent [OF good_demo_empty acceptable_demo _ _ demo_createJob rtranclp.rtrancl_refl, of "''key-1''" "\<lambda>_. Inl ErrJSON" ?i]
    by (auto simp: job_of_row_def demo_job_def new_job_row_def demo_input_def)
qed

lemma CreateJob_conflict:
  assumes "good w" and "j \<in> set (jobs (primary w))" and "job_IdempotencyKey j = Some key"
    and "in_IdempotencyKey i = Some key" and "json_Marshal (in_Payload i) = Inr v"
  shows "\<exists>w'. run_state (CreateJob i) w = (Inl ErrIdempotencyConflict, w') \<and> primary w' = primary w"
proof -
  have "\<not> job_insertable (new_job_row u t i v) (primary w)" for u t v
    using assms(2-4) by (auto simp: job_insertable_def new_job_row_def)
  then show ?thesis using assms(5) good_fields [OF assms(1)]
    by (auto simp: CreateJob_def db_simps insert_job_def fresh_uuid_def Let_def sql_now_def)
qed

text \<open>
  An empty key is a key. A request whose key is the empty string skips the lookup, and the empty string is
  stored in the column that the schema keeps unique: the second such request, from any client and for any job, is answered
  with 409 for good.
\<close>

theorem createJob_empty_key_conflict:
  assumes "good w" and "acceptable cron i" and "in_IdempotencyKey i = Some []"
    and "run_state (createJob pg_store cron (Inr i)) w = ((201, b), w1)" and "store_steps w1 w2" and "good w2"
    and "acceptable cron2 i2" and "in_IdempotencyKey i2 = Some []" and "json_Marshal (in_Payload i2) = Inr v"
  shows "\<exists>w3. run_state (createJob pg_store cron2 (Inr i2)) w2 = ((409, BError ''idempotency key already used''), w3) \<and>
    primary w3 = primary w2"
proof -
  have closed: "tx_closed w" using assms(1) by (simp add: good_def wf_world_def)
  obtain row us where row: "primary w1 = created_db row us (primary w)" "job_IdempotencyKey row = Some []"
    by (rule createJob_created [OF assms(2) closed assms(4)]) (auto simp: assms(3))
  have "grows (primary w1) (primary w2)" by (rule steps_grow [OF assms(5) createJob_closed [OF closed assms(4)]])
  then obtain s t where "row\<lparr>job_Status := s, job_UpdatedAt := t\<rparr> \<in> set (jobs (primary w2))" (is "?r \<in> _")
    using row(1) by (auto simp: created_db_def elim: grows_job)
  then obtain w3 where "run_state (CreateJob (with_defaults i2)) w2 = (Inl ErrIdempotencyConflict, w3)" "primary w3 = primary w2"
    using CreateJob_conflict [OF assms(6), of ?r "[]" "with_defaults i2" v] row(2) assms(8,9) by auto
  then show ?thesis using assms(7,8)
    by (simp add: createJob_acceptable key_given_def create_response_simps)
qed

theorem createJob_empty_key_conflict_witness:
  "fst (run_state (createJob pg_store (\<lambda>_. Inl ErrJSON) (Inr (demo_input\<lparr>in_IdempotencyKey := Some []\<rparr>)))
     (snd (run_state (createJob pg_store (\<lambda>_. Inl ErrJSON) (Inr (demo_input\<lparr>in_IdempotencyKey := Some []\<rparr>)))
       (demo_world empty_db 0)))) = (409, BError ''idempotency key already used'')"
proof -
  let ?i = "demo_input\<lparr>in_IdempotencyKey := Some []\<rparr>" and ?cron = "\<lambda>_. Inl ErrJSON :: err + (time \<Rightarrow> time)"
  have ok: "acceptable ?cron ?i" by (simp add: acceptable_def demo_input_def blank_def trim_defs)
  obtain r w1 where run: "run_state (CreateJob ?i) (demo_world empty_db 0) = (Inr r, w1)"
    by (simp add: CreateJob_def demo_input_def json_Marshal_def json_Unmarshal_def db_simps insert_job_def
      fresh_uuid_def Let_def sql_now_def job_insertable_def empty_db_def write_db_def new_job_row_def demo_world_def)
  have "with_defaults ?i = ?i" "\<not> key_given ?i" by (simp_all add: with_defaults_def demo_input_def key_given_def)
  then have first: "run_state (createJob pg_store ?cron (Inr ?i)) (demo_world empty_db 0) = ((201, BJob r), w1)"
    using run by (simp add: createJob_acceptable [OF ok] create_response_simps)
  have "good w1" by (rule good_store(1) [OF good_demo_empty run])
  moreover have "json_Marshal (in_Payload ?i) = Inr (GObj [(''msg'', GStr ''hi'')])" by (simp add: demo_input_def json_Marshal_def)
  ultimately show ?thesis
    using createJob_empty_key_conflict [OF good_demo_empty ok _ first rtranclp.rtrancl_refl _ ok, of "GObj [(''msg'', GStr ''hi'')]"]
    by (auto simp: first)
qed

subsection \<open>Lists\<close>

text \<open>The decimal text of a number, as a client writes it into a query.\<close>

fun decimal :: "nat \<Rightarrow> string" where
  "decimal n = (if n < 10 then [char_of (48 + n)] else decimal (n div 10) @ [char_of (48 + n mod 10)])"

declare decimal.simps [simp del]

lemma digits_append: "digits a (xs @ ys) = (case digits a xs of None \<Rightarrow> None | Some b \<Rightarrow> digits b ys)"
  by (induction xs arbitrary: a) (auto split: option.splits)

lemma of_digit_char:
  assumes "n < (10 :: nat)"
  shows "(of_char (char_of (48 + n) :: char) :: nat) = 48 + n" "(of_char (char_of (48 + n) :: char) :: int) = 48 + int n"
proof -
  show "(of_char (char_of (48 + n) :: char) :: nat) = 48 + n" using assms by (simp add: of_char_of)
  then show "(of_char (char_of (48 + n) :: char) :: int) = 48 + int n"
    using of_nat_of_char [of "char_of (48 + n)", where ?'a = int] by simp
qed

lemma digit_char: "n < 10 \<Longrightarrow> digit (char_of (48 + n)) = Some (int n)"
  by (simp add: digit_def Let_def of_digit_char)

lemma digits_decimal: "digits 0 (decimal n) = Some (int n)"
proof (induction n rule: decimal.induct)
  case (1 n)
  show ?case
  proof (cases "n < 10")
    case True
    then show ?thesis by (simp add: decimal.simps [of n] digit_char)
  next
    case False
    have "10 * (int n div 10) + int (n mod 10) = int n" by (simp add: zmod_int)
    then show ?thesis using 1 [OF False] False
      by (simp add: decimal.simps [of n] digits_append digit_char zdiv_int)
  qed
qed

lemma decimal_first: "\<exists>d ds. decimal n = char_of (48 + d) # ds \<and> d < (10 :: nat)"
proof (induction n rule: decimal.induct)
  case (1 n)
  then show ?case by (cases "n < 10") (force simp: decimal.simps [of n])+
qed

lemma Atoi_decimal:
  assumes "n < 2 ^ 63"
  shows "Atoi (decimal n) = Some (int n)"
proof -
  obtain d ds where d: "decimal n = char_of (48 + d) # ds" "d < (10 :: nat)" using decimal_first by blast
  have "char_of (48 + d) \<noteq> CHR ''-''" "char_of (48 + d) \<noteq> CHR ''+''"
    using of_digit_char(1) [OF d(2)] by (auto dest: arg_cong [where f = "of_char :: char \<Rightarrow> nat"])
  moreover have "int n < 2 ^ 63" using assms by (simp add: nat_less_iff [symmetric] flip: of_nat_less_iff)
  ultimately show ?thesis using digits_decimal [of n] d by (simp add: Atoi_def Let_def)
qed

fun page :: "body \<Rightarrow> job list" where
  "page (BJobs js) = js"
| "page _ = []"

lemma page_encode [simp]: "page (encode_body (BJobs js)) = js"
  by simp

lemma parse_decimal:
  assumes "n < 2 ^ 63"
  shows "parseLimit (decimal n) = Inr (int (min n 200))" "parseOffset (decimal n) = Inr (int n)"
proof -
  have "decimal n \<noteq> []" using decimal_first [of n] by auto
  then show "parseLimit (decimal n) = Inr (int (min n 200))" "parseOffset (decimal n) = Inr (int n)"
    by (simp_all add: parseLimit_def parseOffset_def Atoi_decimal [OF assms] maxListLimit_def)
qed

lemma listJobs_page:
  assumes "good w" and "status = [] \<or> parse_status status \<noteq> None" and "l < 2 ^ 63" and "off < 2 ^ 63"
  shows "run_state (listJobs pg_store status (decimal l) (decimal off)) w =
    ((200, encode_body (BJobs (map (job_view (primary w)) (take (min l 200) (drop off (select_jobs (parse_status status) (primary w))))))), w)"
  using assms(2) ListJobs_good [OF assms(1), of "int (min l 200)" "int off" "parse_status status"]
  by (auto simp: listJobs_def parse_decimal [OF assms(3)] parse_decimal [OF assms(4)] writeJSON_def)

lemma concat_pages: "concat (map (\<lambda>k. take m (drop (k * m) xs)) [0..<n]) = take (n * m) xs"
proof (induction n)
  case (Suc n)
  have "take (Suc n * m) xs = take (n * m + m) xs" by (simp add: add.commute)
  then show ?case using Suc by (simp only: take_add) simp
qed simp

lemma strictly_newest_first:
  assumes "distinct (map job_CreatedAt (filter p (jobs d)))"
  shows "sorted_wrt (\<lambda>a b. job_CreatedAt b < job_CreatedAt a) (sort_key (\<lambda>r. - job_CreatedAt r) (filter p (jobs d)))"
proof -
  let ?rows = "sort_key (\<lambda>r. - job_CreatedAt r) (filter p (jobs d))"
  have "distinct (filter p (jobs d))" and inj: "inj_on job_CreatedAt (set (filter p (jobs d)))" using assms by (simp_all add: distinct_map)
  then have rows: "distinct ?rows" by simp
  have "sorted_wrt (\<lambda>a b. - job_CreatedAt a \<le> - job_CreatedAt b) ?rows" using sorted_sort_key [of "\<lambda>r. - job_CreatedAt r" "filter p (jobs d)"]
    by (simp add: sorted_map)
  then have "job_CreatedAt (?rows ! k) < job_CreatedAt (?rows ! i)" if "i < k" "k < length ?rows" for i k
  proof -
    have "job_CreatedAt (?rows ! k) \<le> job_CreatedAt (?rows ! i)" using that \<open>sorted_wrt _ ?rows\<close> by (simp add: sorted_wrt_iff_nth_less)
    moreover have "?rows ! k \<noteq> ?rows ! i" using rows that by (simp add: nth_eq_iff_index_eq)
    moreover have "?rows ! k \<in> set (filter p (jobs d))" "?rows ! i \<in> set (filter p (jobs d))"
      using that nth_mem [of k ?rows] nth_mem [of i ?rows] by (simp_all del: set_filter)
    ultimately show ?thesis using inj by (meson inj_onD order_le_less)
  qed
  then show ?thesis by (simp add: sorted_wrt_iff_nth_less)
qed

text \<open>
  C27. Paging through the jobs, on a database without faults and replica that nobody changes meanwhile and where no two jobs of the asked status were
  created at the same instant (the query orders by that time alone): for a client that asks for pages of \<open>l\<close> jobs and moves its offset by
  the smaller of \<open>l\<close> and 200 (the cap of the server), the pages put together are all jobs of the asked status, newest
  first, each exactly once, and no page has more than 200 jobs. Listing changes nothing.
\<close>

theorem listJobs_pages:
  fixes n l :: nat
  assumes "good w" and "status = [] \<or> parse_status status \<noteq> None" and "l < 2 ^ 63" and "m = min l 200" and "n * m < 2 ^ 63"
    and "length (jobs (primary w)) \<le> n * m"
  defines "asked \<equiv> \<lambda>r. status = [] \<or> parse_status status = Some (job_Status r)"
    and "resp \<equiv> \<lambda>k. run_state (listJobs pg_store status (decimal l) (decimal (k * m))) w"
  assumes "distinct (map job_CreatedAt (filter asked (jobs (primary w))))"
  shows "(\<exists>rows. set rows = {r \<in> set (jobs (primary w)). asked r} \<and> sorted_wrt (\<lambda>a b. job_CreatedAt b < job_CreatedAt a) rows \<and>
      concat (map (\<lambda>k. page (snd (fst (resp k)))) [0..<n]) = map (job_view (primary w)) rows) \<and>
    (\<forall>k<n. fst (fst (resp k)) = 200 \<and> length (page (snd (fst (resp k)))) \<le> 200 \<and> snd (resp k) = w)"
proof -
  let ?all = "select_jobs (parse_status status) (primary w)"
  have none: "parse_status [] = None" by (simp add: parse_status_def)
  have sel: "(case parse_status status of None \<Rightarrow> True | Some s \<Rightarrow> job_Status r = s) = asked r" for r
    using assms(2) none by (auto simp: asked_def split: option.splits)
  then have rows: "?all = sort_key (\<lambda>r. - job_CreatedAt r) (filter asked (jobs (primary w)))" by (simp add: select_jobs_def)
  have small: "k * m < 2 ^ 63" if "k < n" for k
    using that assms(5) by (meson le_less_trans less_imp_le mult_le_mono1)
  have resp: "resp k = ((200, encode_body (BJobs (map (job_view (primary w)) (take m (drop (k * m) ?all))))), w)" if "k < n" for k
    unfolding resp_def using listJobs_page [OF assms(1-3) small [OF that]] assms(4) by simp
  have "length ?all \<le> length (jobs (primary w))" by (simp add: select_jobs_def)
  then have all: "take (n * m) ?all = ?all" using assms(6) by simp
  have "concat (map (\<lambda>k. page (snd (fst (resp k)))) [0..<n]) =
      concat (map (\<lambda>k. map (job_view (primary w)) (take m (drop (k * m) ?all))) [0..<n])"
    by (intro arg_cong [where f = concat] map_cong refl) (simp add: resp del: encode_body.simps)
  also have "\<dots> = map (job_view (primary w)) (concat (map (\<lambda>k. take m (drop (k * m) ?all)) [0..<n]))"
    by (simp add: map_concat comp_def)
  finally have "concat (map (\<lambda>k. page (snd (fst (resp k)))) [0..<n]) = map (job_view (primary w)) ?all"
    by (simp only: concat_pages all)
  moreover have "set ?all = {r \<in> set (jobs (primary w)). asked r}" unfolding rows by simp
  moreover have "sorted_wrt (\<lambda>a b. job_CreatedAt b < job_CreatedAt a) ?all" unfolding rows by (rule strictly_newest_first [OF assms(9)])
  moreover have "length (take m (drop (k * m) ?all)) \<le> 200" for k using assms(4) by (simp add: min_le_iff_disj)
  ultimately show ?thesis using resp by (intro conjI exI [of _ ?all]) (simp_all del: encode_body.simps length_take)
qed

theorem listJobs_pages_witness:
  "set (concat (map (\<lambda>k. page (snd (fst (run_state (listJobs pg_store ''active'' (decimal 1) (decimal (k * 1))) (demo_world demo_db 2))))) [0..<3])) =
     {job_view demo_db demo_job}"
proof -
  let ?pages = "concat (map (\<lambda>k. page (snd (fst (run_state (listJobs pg_store ''active'' (decimal 1) (decimal (k * 1))) (demo_world demo_db 2))))) [0..<3])"
  have db: "jobs demo_db = [demo_job]" "job_Status demo_job = JobStatusActive" by (simp_all add: demo_db_def demo_job_def new_job_row_def)
  moreover have "parse_status ''active'' = Some JobStatusActive" by (simp add: parse_status_def)
  ultimately have "\<exists>rows. set rows = {r \<in> {demo_job}. JobStatusActive = job_Status r} \<and> ?pages = map (job_view demo_db) rows"
    using listJobs_pages [OF good_demo, of "''active''" 1 1 3] by (auto simp del: upt_Suc)
  then obtain rows where rows: "set rows = {r \<in> {demo_job}. JobStatusActive = job_Status r}" "?pages = map (job_view demo_db) rows" by blast
  have "{r \<in> {demo_job}. JobStatusActive = job_Status r} = {demo_job}" using db(2) by auto
  then show ?thesis unfolding rows(2) set_map rows(1) by simp
qed

subsection \<open>Status codes\<close>

lemma UpdateJobStatus_malformed:
  assumes "good w" and "uuid_in w j = None"
  shows "run_state (UpdateJobStatus j s) w = (Inl (PgError ''22P02''), w)"
  using assms good_fields [OF assms(1)] by (simp add: UpdateJobStatus_def db_simps)

lemma find_job: "job_exists u d \<longleftrightarrow> List.find (\<lambda>r. job_ID r = u) (jobs d) \<noteq> None"
  by (auto simp: job_exists_def find_None_iff)

lemma find_run: "run_exists u d \<longleftrightarrow> List.find (\<lambda>r. run_ID r = u) (job_runs d) \<noteq> None"
  by (auto simp: run_exists_def find_None_iff)

lemma set_status_job:
  assumes "good w" and "uuid_in w j = Some u" and "run_state (UpdateJobStatus j s) w = (r, w')"
  shows "job_exists u (primary w') \<longleftrightarrow> job_exists u (primary w)"
    and "x \<in> set (jobs (primary w')) \<Longrightarrow> job_ID x = u \<Longrightarrow> job_Status x = s" and "uuid_in w' = uuid_in w"
    and "job_runs (primary w') = job_runs (primary w)"
proof -
  have w': "w' = write_db (\<lambda>d. d\<lparr>jobs := update_where (\<lambda>r. job_ID r = u)
       (\<lambda>r. r\<lparr>job_Status := s, job_UpdatedAt := clock w\<rparr>) (jobs d)\<rparr>) w"
    using UpdateJobStatus_good [OF assms(1,2), of s] assms(3) by simp
  show "job_exists u (primary w') \<longleftrightarrow> job_exists u (primary w)"
    unfolding w' write_db_def by (simp add: job_exists_update_where job_changeI)
  show "job_Status x = s" if "x \<in> set (jobs (primary w'))" "job_ID x = u" for x
  proof -
    from that(1) obtain y where y: "x = (if job_ID y = u then y\<lparr>job_Status := s, job_UpdatedAt := clock w\<rparr> else y)"
      by (auto simp: w' write_db_def in_update_where)
    then show ?thesis using that(2) by (cases "job_ID y = u") simp_all
  qed
  show "uuid_in w' = uuid_in w" "job_runs (primary w') = job_runs (primary w)" by (simp_all add: w' write_db_def)
qed

lemma updateJobStatus_code:
  assumes "good w"
  shows "fst (fst (run_state (updateJobStatus pg_store j s) w)) =
    (case uuid_in w j of None \<Rightarrow> 500 | Some u \<Rightarrow> if job_exists u (primary w) then 200 else 404)"
proof (cases "uuid_in w j")
  case None
  then show ?thesis by (simp add: updateJobStatus_def UpdateJobStatus_malformed [OF assms] serverError_def)
next
  case (Some u)
  obtain r w1 where upd: "run_state (UpdateJobStatus j s) w = (r, w1)" by (cases "run_state (UpdateJobStatus j s) w")
  note after = set_status_job [OF assms Some upd]
  have "r = (if job_exists u (primary w) then Inr () else Inl ErrNotFound)"
    using UpdateJobStatus_good [OF assms Some, of s] upd by simp
  then show ?thesis
    using GetJob_good [OF good_store(2) [OF assms upd], of j] after(1,3) Some
    by (auto simp: updateJobStatus_def upd find_job split: option.splits)
qed

text \<open>
  The status codes of the single-entity routes: 200 when the identifier names a row, 404 when it is the text of a
  UUID and no row has it, and 500, not 404, when it is not the text of a UUID, since the store passes on the
  database's syntax error.
\<close>

theorem lookup_status_codes:
  assumes "good w"
  shows "fst (fst (run_state (getJob pg_store j) w)) =
      (case uuid_in w j of None \<Rightarrow> 500 | Some u \<Rightarrow> if job_exists u (primary w) then 200 else 404) \<and>
    fst (fst (run_state (pauseJob pg_store j) w)) =
      (case uuid_in w j of None \<Rightarrow> 500 | Some u \<Rightarrow> if job_exists u (primary w) then 200 else 404) \<and>
    fst (fst (run_state (resumeJob pg_store j) w)) =
      (case uuid_in w j of None \<Rightarrow> 500 | Some u \<Rightarrow> if job_exists u (primary w) then 200 else 404) \<and>
    fst (fst (run_state (getRun pg_store j) w)) =
      (case uuid_in w j of None \<Rightarrow> 500 | Some u \<Rightarrow> if run_exists u (primary w) then 200 else 404)"
  using GetJob_good [OF assms, of j] GetRun_good [OF assms, of j] updateJobStatus_code [OF assms, of j]
  by (auto simp: getJob_def getRun_def pauseJob_def resumeJob_def serverError_def find_job find_run split: option.splits)

theorem lookup_status_codes_witness:
  "fst (fst (run_state (getJob pg_store (demo_uuid 0)) (demo_world demo_db 2))) = 200 \<and>
   fst (fst (run_state (getJob pg_store (demo_uuid 7)) (demo_world demo_db 2))) = 404 \<and>
   fst (fst (run_state (getJob pg_store ''nope'') (demo_world demo_db 2))) = 500"
proof -
  have "job_exists (demo_uuid 0) demo_db" "\<not> job_exists (demo_uuid 7) demo_db" "demo_uuid_in ''nope'' = None"
    by (simp_all add: job_exists_def demo_db_def demo_job_def new_job_row_def demo_uuid_in_def)
  then show ?thesis using lookup_status_codes [OF good_demo] by simp
qed

subsection \<open>Pausing\<close>

lemma updateJobStatus_found:
  assumes "good w" and "uuid_in w j = Some u" and "job_exists u (primary w)"
  obtains x w' where "run_state (updateJobStatus pg_store j s) w = ((200, BJob (job_view (primary w') x)), w')" and "good w'"
    and "job_ID x = u" and "job_Status x = s" and "job_runs (primary w') = job_runs (primary w)" and "uuid_in w' = uuid_in w"
    and "\<forall>y\<in>set (jobs (primary w')). job_ID y = u \<longrightarrow> job_Status y = s" and "job_exists u (primary w')"
proof -
  obtain w' where run: "run_state (UpdateJobStatus j s) w = (Inr (), w')"
    using UpdateJobStatus_good [OF assms(1,2), of s] assms(3) by simp
  note after = set_status_job [OF assms(1,2) run] and good' = good_store(2) [OF assms(1) run]
  obtain x where x: "List.find (\<lambda>r. job_ID r = u) (jobs (primary w')) = Some x"
    using after(1) assms(3) by (auto simp: find_job)
  have "run_state (updateJobStatus pg_store j s) w = ((200, BJob (job_view (primary w') x)), w')"
    using GetJob_good [OF good', of j] after(3) x assms(2) by (simp add: updateJobStatus_def run writeJSON_def)
  then show ?thesis using that [of w' x] good' after assms(3) find_SomeD [OF x] by simp
qed

lemma promoted_active:
  assumes "good w" and "run_state (PromoteOnce pg_store cron (host_clock skew)) w = (res, w')"
  obtains new where "job_runs (primary w') = job_runs (primary w) @ new" and "jobs (primary w') = jobs (primary w)" and "good w'"
    and "\<forall>r\<in>set new. \<exists>row\<in>set (jobs (primary w)). job_ID row = run_JobID r \<and> job_Status row = JobStatusActive"
proof -
  let ?rows = "take 10000 (select_jobs (Some JobStatusActive) (primary w))"
  have w': "w' = promote_rows cron (clock w + skew) ?rows w" and "good w'"
    using PromoteOnce_good [OF assms(1), of cron skew] assms(2) by simp_all
  obtain new where new: "primary w' = (primary w)\<lparr>job_runs := job_runs (primary w) @ new\<rparr>"
    "\<And>r. r \<in> set new \<Longrightarrow> \<exists>row u. row \<in> set ?rows \<and> eligible cron (clock w + skew) (primary w) row \<and>
       r = new_run_row u (clock w) (job_ID row) (job_Priority row) (clock w + skew)"
    using promote_rows_sound [of cron "clock w + skew" ?rows w] unfolding w' by blast
  have "\<exists>row\<in>set (jobs (primary w)). job_ID row = run_JobID r \<and> job_Status row = JobStatusActive" if r: "r \<in> set new" for r
  proof -
    obtain row u where "row \<in> set ?rows" and row: "r = new_run_row u (clock w) (job_ID row) (job_Priority row) (clock w + skew)"
      using new(2) [OF r] by blast
    then have "row \<in> set (select_jobs (Some JobStatusActive) (primary w))" using in_set_takeD by fast
    then show ?thesis using row by (intro bexI [of _ row]) (simp_all add: select_jobs_def new_run_row_def)
  qed
  then show ?thesis using that [of new] new(1) \<open>good w'\<close> by simp
qed

text \<open>
  C28. A paused job is not promoted: after \<open>POST /v1/jobs/{id}/pause\<close> was answered with 200, the response carries the
  paused job, and a promotion pass of the scheduler creates no run for it; after a resume that is answered with 200 the
  job is listed as active again.
\<close>

theorem paused_job_not_promoted:
  assumes "good w" and "uuid_in w j = Some u" and "run_state (pauseJob pg_store j) w = ((200, b), w1)"
    and "run_state (PromoteOnce pg_store cron (host_clock skew)) w1 = (res, w2)"
  shows "(\<exists>job. b = BJob job \<and> job_ID job = u \<and> job_Status job = JobStatusPaused) \<and>
    filter (\<lambda>r. run_JobID r = u) (job_runs (primary w2)) = filter (\<lambda>r. run_JobID r = u) (job_runs (primary w)) \<and>
    (\<exists>job w3. run_state (resumeJob pg_store j) w2 = ((200, BJob job), w3) \<and> job_ID job = u \<and> job_Status job = JobStatusActive)"
proof -
  have ex: "job_exists u (primary w)"
    using updateJobStatus_code [OF assms(1), of j JobStatusPaused] assms(2,3) by (auto simp: pauseJob_def split: if_splits)
  obtain x v where run: "run_state (updateJobStatus pg_store j JobStatusPaused) w = ((200, BJob (job_view (primary v) x)), v)"
    and v: "good v" and x: "job_ID x = u" "job_Status x = JobStatusPaused" and same: "job_runs (primary v) = job_runs (primary w)"
      "uuid_in v = uuid_in w"
    and only: "\<forall>y\<in>set (jobs (primary v)). job_ID y = u \<longrightarrow> job_Status y = JobStatusPaused" and ex1: "job_exists u (primary v)"
    by (rule updateJobStatus_found [OF assms(1,2) ex, where s = JobStatusPaused])
  have w1: "v = w1" and b: "b = BJob (job_view (primary w1) x)" using run assms(3) by (auto simp: pauseJob_def)
  obtain new where new: "job_runs (primary w2) = job_runs (primary w1) @ new" "jobs (primary w2) = jobs (primary w1)" and w2: "good w2"
    and active: "\<forall>r\<in>set new. \<exists>row\<in>set (jobs (primary w1)). job_ID row = run_JobID r \<and> job_Status row = JobStatusActive"
    by (rule promoted_active [OF v [unfolded w1] assms(4)])
  have "run_JobID r \<noteq> u" if "r \<in> set new" for r using active that only w1 by fastforce
  then have none: "filter (\<lambda>r. run_JobID r = u) new = []" by (simp add: filter_empty_conv)
  have id: "uuid_in w2 j = Some u" "job_exists u (primary w2)"
    using io_relD [OF frame_PromoteOnce assms(4)] same ex1 w1 assms(2) new(2) by (simp_all add: env_frame_def job_exists_def)
  obtain y w3 where "run_state (updateJobStatus pg_store j JobStatusActive) w2 = ((200, BJob (job_view (primary w3) y)), w3)" "job_ID y = u"
      "job_Status y = JobStatusActive"
    by (rule updateJobStatus_found [OF w2 id, where s = JobStatusActive])
  then have "\<exists>job w3. run_state (resumeJob pg_store j) w2 = ((200, BJob job), w3) \<and> job_ID job = u \<and> job_Status job = JobStatusActive"
    by (intro exI [of _ "job_view (primary w3) y"] exI [of _ w3]) (simp add: resumeJob_def)
  then show ?thesis using b x new(1) none same w1 by simp
qed

theorem paused_job_not_promoted_witness:
  "\<exists>w1 job. run_state (pauseJob pg_store (demo_uuid 0)) (demo_world (empty_db\<lparr>jobs := [demo_job]\<rparr>) 1) = ((200, BJob job), w1) \<and>
     filter (\<lambda>r. run_JobID r = demo_uuid 0) (job_runs (primary (snd (run_state (PromoteOnce pg_store (\<lambda>_. Inl ErrJSON) (host_clock 0)) w1)))) = []"
proof -
  let ?w = "demo_world (empty_db\<lparr>jobs := [demo_job]\<rparr>) 1"
  have good: "good ?w" by (rule good_store(1) [OF good_demo_empty demo_CreateJob])
  have id: "uuid_in ?w (demo_uuid 0) = Some (demo_uuid 0)" by simp
  have ex: "job_exists (demo_uuid 0) (primary ?w)" by (simp add: job_exists_def demo_job_def new_job_row_def)
  obtain x w1 where pause: "run_state (pauseJob pg_store (demo_uuid 0)) ?w = ((200, BJob (job_view (primary w1) x)), w1)"
    unfolding pauseJob_def by (rule updateJobStatus_found [OF good id ex, where s = JobStatusPaused])
  have "filter (\<lambda>r. run_JobID r = demo_uuid 0) (job_runs (primary ?w)) = []" by (simp add: empty_db_def)
  with paused_job_not_promoted [OF good id pause surjective_pairing, of "\<lambda>_. Inl ErrJSON" 0] pause show ?thesis by metis
qed

end
