(* ===== verification/Router.thy ===== *)
theory Router
  imports RateLimit Api_Props
begin

text \<open>
  \<open>src/internal/api/auth.go\<close> and \<open>router.go\<close>: the bearer-token check and the chain of middlewares in front of the
  handlers. The JWT library is a parameter, a record of the two functions the code calls; what is assumed of it is stated where it
  is used. A \<open>route\<close> is a pattern of \<open>NewRouter\<close> with what the router extracted for it. The recoverer and the request
  logger, which pass every request on, are in theory \<open>Metrics\<close>.
\<close>

subsection \<open>Tokens\<close>

datatype jwt_method = SigningMethodHMAC string | SigningMethodOther string

record jwt_claims =
  Subject :: string
  IssuedAt :: time
  ExpiresAt :: time

text \<open>
  \<open>jwt_Parse lib now s keyfunc methods\<close> is \<open>jwt.Parse(s, keyfunc, jwt.WithValidMethods(methods))\<close> at the time \<open>now\<close>, its result
  the token's \<open>Valid\<close>; \<open>jwt_SignedString lib m c key\<close> is \<open>jwt.NewWithClaims(m, c).SignedString(key)\<close>.
\<close>

record jwt_lib =
  jwt_Parse :: "time \<Rightarrow> string \<Rightarrow> (jwt_method \<Rightarrow> err + string) \<Rightarrow> string list \<Rightarrow> err + bool"
  jwt_SignedString :: "jwt_method \<Rightarrow> jwt_claims \<Rightarrow> string \<Rightarrow> err + string"

definition keyfunc :: "string \<Rightarrow> jwt_method \<Rightarrow> err + string" where
  "keyfunc secret m = (case m of
     SigningMethodHMAC _ \<Rightarrow> Inr secret
   | SigningMethodOther _ \<Rightarrow> Inl (ErrNew ''unexpected signing method''))"

definition jwtAuth :: "jwt_lib \<Rightarrow> string \<Rightarrow> time \<Rightarrow> string \<Rightarrow> ('s, response) state \<Rightarrow> ('s, response) state" where
  "jwtAuth jwt secret now header next_handler =
     (let prefix = ''Bearer '' in
      if take (length prefix) header \<noteq> prefix \<or> TrimSpace (drop (length prefix) header) = []
      then ret (writeError 401 ''missing or malformed authorization header'')
      else (let tokenStr = TrimSpace (drop (length prefix) header) in
        case jwt_Parse jwt now tokenStr (keyfunc secret) [''HS256''] of
          Inl _ \<Rightarrow> ret (writeError 401 ''invalid or expired token'')
        | Inr valid \<Rightarrow> if \<not> valid then ret (writeError 401 ''invalid or expired token'') else next_handler))"

text \<open>\<open>jwt.NewNumericDate\<close> keeps whole seconds.\<close>

definition NewNumericDate :: "time \<Rightarrow> time" where
  "NewNumericDate t = t - t mod 1000000000"

definition MintToken :: "jwt_lib \<Rightarrow> string \<Rightarrow> string \<Rightarrow> duration \<Rightarrow> time \<Rightarrow> err + string" where
  "MintToken jwt secret subject ttl now = jwt_SignedString jwt (SigningMethodHMAC ''HS256'')
     \<lparr>Subject = subject, IssuedAt = NewNumericDate now, ExpiresAt = NewNumericDate (now + sint ttl)\<rparr> secret"

subsection \<open>Routes\<close>

datatype route =
    POST_jobs "err + new_job_input"
  | GET_jobs string string string
  | GET_job string
  | POST_job_pause string
  | POST_job_resume string
  | GET_job_runs string string
  | GET_run string
  | GET_workers

record request =
  RemoteAddr :: string
  Authorization :: string
  Route :: route

fun dispatch :: "'s store_api \<Rightarrow> cron_lib \<Rightarrow> route \<Rightarrow> ('s, response) state" where
  "dispatch st cron (POST_jobs decoded) = createJob st cron decoded"
| "dispatch st cron (GET_jobs status limit offset) = listJobs st status limit offset"
| "dispatch st cron (GET_job i) = getJob st i"
| "dispatch st cron (POST_job_pause i) = pauseJob st i"
| "dispatch st cron (POST_job_resume i) = resumeJob st i"
| "dispatch st cron (GET_job_runs i limit) = listJobRuns st i limit"
| "dispatch st cron (GET_run i) = getRun st i"
| "dispatch st cron GET_workers = listWorkers st"

definition rate_middleware :: "string \<Rightarrow> time \<Rightarrow> ('s, response) state \<Rightarrow> (rateLimiter \<times> 's, response) state" where
  "rate_middleware remoteAddr now next_handler = State (\<lambda>(rl, s). case allow (clientIP remoteAddr) now rl of
     (admit, rl') \<Rightarrow>
       if \<not> admit then (writeError 429 ''rate limit exceeded'', (rl', s))
       else (case run_state next_handler s of (resp, s') \<Rightarrow> (resp, (rl', s'))))"

text \<open>A request under \<open>/v1\<close>: the limiter's clock is read first, the token is checked at \<open>now2\<close>.\<close>

definition serve_v1 ::
  "'s store_api \<Rightarrow> cron_lib \<Rightarrow> jwt_lib \<Rightarrow> string \<Rightarrow> time \<Rightarrow> time \<Rightarrow> request \<Rightarrow> (rateLimiter \<times> 's, response) state" where
  "serve_v1 st cron jwt secret now now2 r =
     rate_middleware (RemoteAddr r) now (jwtAuth jwt secret now2 (Authorization r) (dispatch st cron (Route r)))"

definition healthzHandler :: response where
  "healthzHandler = writeJSON 200 (BStatus ''ok'')"

subsection \<open>Nothing reaches the store without a token\<close>

lemma jwtAuth_cases:
  "jwtAuth jwt secret now header next_handler = next_handler \<and>
     jwt_Parse jwt now (TrimSpace (drop 7 header)) (keyfunc secret) [''HS256''] = Inr True \<and> take 7 header = ''Bearer '' \<or>
   (\<exists>msg. jwtAuth jwt secret now header next_handler = ret (writeError 401 msg))"
  by (auto simp: jwtAuth_def Let_def eval_nat_numeral split: sum.splits)

text \<open>
  What stands behind the limiter and the token check: a request that is passed on or changes the state was admitted for its client address and has a
  token that the library accepts. Of the library it is assumed that a token is valid only if the algorithm of its signing method is one of the
  allowed ones, its signature verifies under the key that the key function returns for that method, and its expiry, where it has
  one, has not come. The library does not require an expiry unless it is asked to, and \<open>auth.go\<close> does not ask.
\<close>

fun method_Alg :: "jwt_method \<Rightarrow> string" where
  "method_Alg (SigningMethodHMAC alg) = alg"
| "method_Alg (SigningMethodOther alg) = alg"

definition jwt_checks :: "jwt_lib \<Rightarrow> (string \<Rightarrow> string \<Rightarrow> string \<Rightarrow> bool) \<Rightarrow> (string \<Rightarrow> time option) \<Rightarrow> bool" where
  "jwt_checks jwt signature_ok expiry \<longleftrightarrow> (\<forall>t s kf ms. jwt_Parse jwt t s kf ms = Inr True \<longrightarrow>
     (\<exists>m key. method_Alg m \<in> set ms \<and> kf m = Inr key \<and> signature_ok (method_Alg m) key s \<and> (\<forall>e. expiry s = Some e \<longrightarrow> t < e)))"

lemma token_guard:
  assumes "jwt_checks jwt signature_ok expiry"
    and "run_state (rate_middleware addr now (jwtAuth jwt secret now2 header next_handler)) (rl, s) = (resp, (rl', s'))"
  shows "s' = s \<and> (fst resp = 401 \<or> fst resp = 429) \<or>
    fst (allow (clientIP addr) now rl) \<and> take 7 header = ''Bearer '' \<and>
    signature_ok ''HS256'' secret (TrimSpace (drop 7 header)) \<and> (\<forall>e. expiry (TrimSpace (drop 7 header)) = Some e \<longrightarrow> now2 < e)"
proof -
  let ?tok = "TrimSpace (drop 7 header)"
  consider (turned) msg where "jwtAuth jwt secret now2 header next_handler = ret (writeError 401 msg)"
    | (valid) "jwt_Parse jwt now2 ?tok (keyfunc secret) [''HS256''] = Inr True" "take 7 header = ''Bearer ''"
    using jwtAuth_cases by blast
  then show ?thesis
  proof cases
    case turned
    then show ?thesis using assms(2) by (auto simp: rate_middleware_def split: prod.splits if_splits)
  next
    case valid
    obtain m key where "method_Alg m = ''HS256''" and "keyfunc secret m = Inr key" and "signature_ok (method_Alg m) key ?tok"
      and "\<forall>e. expiry ?tok = Some e \<longrightarrow> now2 < e" using assms(1) valid(1) by (force simp: jwt_checks_def)
    then have "signature_ok ''HS256'' secret ?tok \<and> (\<forall>e. expiry ?tok = Some e \<longrightarrow> now2 < e)"
      by (auto simp: keyfunc_def split: jwt_method.splits)
    then show ?thesis using assms(2) valid(2) by (auto simp: rate_middleware_def split: prod.splits if_splits)
  qed
qed

subsection \<open>A library that satisfies the assumptions\<close>

text \<open>Its tokens carry the expiry in unary and the key in clear.\<close>

definition demo_expiry :: "nat \<Rightarrow> time" where
  "demo_expiry n = (if even n then int (n div 2) else - int (n div 2) - 1)"

definition demo_sign :: "time \<Rightarrow> string \<Rightarrow> string" where
  "demo_sign t key = replicate (if 0 \<le> t then 2 * nat t else 2 * nat (- t - 1) + 1) CHR ''e'' @ ''.'' @ key @ ''.''"

definition demo_token_expiry :: "string \<Rightarrow> time" where
  "demo_token_expiry s = demo_expiry (length (takeWhile (\<lambda>c. c = CHR ''e'') s))"

definition demo_jwt :: jwt_lib where
  "demo_jwt = \<lparr>jwt_Parse = (\<lambda>now s kf ms.
       case kf (SigningMethodHMAC ''HS256'') of
         Inr key \<Rightarrow> if ''HS256'' \<in> set ms \<and> s = demo_sign (demo_token_expiry s) key \<and> now < demo_token_expiry s
                    then Inr True else Inl (ErrNew ''token is invalid'')
       | Inl e \<Rightarrow> Inl e),
     jwt_SignedString = (\<lambda>m c key. case m of
       SigningMethodHMAC alg \<Rightarrow> if alg = ''HS256'' then Inr (demo_sign (ExpiresAt c) key) else Inl (ErrNew ''unsupported'')
     | _ \<Rightarrow> Inl (ErrNew ''unsupported''))\<rparr>"

lemma demo_token_expiry_sign [simp]: "demo_token_expiry (demo_sign t key) = t"
proof -
  have "takeWhile (\<lambda>c. c = CHR ''e'') (replicate n CHR ''e'' @ CHR ''.'' # r) = replicate n CHR ''e''" for n r
    by (induction n) auto
  then show ?thesis by (simp add: demo_token_expiry_def demo_sign_def demo_expiry_def)
qed

lemma demo_sign_inj: "demo_sign t key = demo_sign t key' \<longleftrightarrow> key = key'"
  by (simp add: demo_sign_def)

lemma TrimSpace_visible:
  assumes "s = c # cs" and "s = ds @ [d]" and "\<not> ascii_space c" "\<not> ascii_space d" and "of_char c < (128 :: nat)" "of_char d < (128 :: nat)"
  shows "TrimSpace s = s"
proof -
  have front: "trim_front space2 space3 (c # cs) = c # cs"
    using assms(3,5) by (auto simp: space2_def space3_def split: list.splits)
  have ending: "trim_front (\<lambda>a b. space2 b a) (\<lambda>a b c. space3 c b a) (d # rev ds) = d # rev ds"
    using assms(4,6) by (auto simp: space2_def space3_def split: list.splits)
  have "rev s = d # rev ds" using assms(2) by simp
  then show ?thesis unfolding TrimSpace_def using front ending assms(1) by (metis rev_rev_ident)
qed

lemma demo_sign_trim: "TrimSpace (demo_sign t key) = demo_sign t key"
proof -
  define n where "n = (if 0 \<le> t then 2 * nat t else 2 * nat (- t - 1) + 1)"
  have sign: "demo_sign t key = replicate n CHR ''e'' @ ''.'' @ key @ ''.''" by (simp add: demo_sign_def n_def)
  then obtain c cs where c: "demo_sign t key = c # cs" "c = CHR ''e'' \<or> c = CHR ''.''" by (cases n) auto
  have "demo_sign t key = (replicate n CHR ''e'' @ ''.'' @ key) @ [CHR ''.'']" by (simp add: sign)
  from TrimSpace_visible [OF c(1) this] c(2) show ?thesis by (auto simp: ascii_space_def)
qed

lemma demo_jwt_signs:
  assumes "jwt_SignedString demo_jwt (SigningMethodHMAC alg) c key = Inr tok"
  shows "TrimSpace tok = tok \<and> tok \<noteq> [] \<and>
    (jwt_Parse demo_jwt t tok kf ms = Inr True \<longleftrightarrow> alg \<in> set ms \<and> kf (SigningMethodHMAC alg) = Inr key \<and> t < ExpiresAt c)"
proof -
  have "alg = ''HS256''" and tok: "tok = demo_sign (ExpiresAt c) key"
    using assms by (auto simp: demo_jwt_def split: if_splits)
  moreover have "tok \<noteq> []" by (simp add: tok demo_sign_def)
  ultimately show ?thesis
    by (auto simp: demo_jwt_def demo_sign_trim demo_sign_inj split: sum.splits if_splits)
qed

lemma demo_jwt_checks: "jwt_checks demo_jwt (\<lambda>alg key s. s = demo_sign (demo_token_expiry s) key) (\<lambda>s. Some (demo_token_expiry s))"
  unfolding jwt_checks_def
proof (intro allI impI)
  fix t s kf ms assume "jwt_Parse demo_jwt t s kf ms = Inr True"
  then show "\<exists>m key. method_Alg m \<in> set ms \<and> kf m = Inr key \<and> s = demo_sign (demo_token_expiry s) key \<and>
      (\<forall>e. Some (demo_token_expiry s) = Some e \<longrightarrow> t < e)"
    by (intro exI [of _ "SigningMethodHMAC ''HS256''"] exI [of _ "projr (kf (SigningMethodHMAC ''HS256''))"])
      (auto simp: demo_jwt_def split: sum.splits if_splits)
qed

text \<open>
  A minted token works until it expires: assume of the library that what it signs, it parses again, as valid exactly when the
  method is allowed, the key function returns the signing key and the expiry has not come, and that its tokens have no white space at
  their ends and are not empty. Then a request with the header \<open>Bearer\<close> and a token from \<open>MintToken\<close> is passed on to its
  handler at every time before the whole second in which \<open>now + ttl\<close> lies, and is answered with 401 from then on; with
  another secret it is answered with 401 at any time.
\<close>

theorem minted_token_accepted:
  assumes "\<And>alg c key tok t kf ms. jwt_SignedString jwt (SigningMethodHMAC alg) c key = Inr tok \<Longrightarrow>
      TrimSpace tok = tok \<and> tok \<noteq> [] \<and>
      (jwt_Parse jwt t tok kf ms = Inr True \<longleftrightarrow> alg \<in> set ms \<and> kf (SigningMethodHMAC alg) = Inr key \<and> t < ExpiresAt c)"
    and "MintToken jwt secret subject ttl now = Inr tok"
  shows "(\<forall>t < NewNumericDate (now + sint ttl). jwtAuth jwt secret t (''Bearer '' @ tok) next_handler = next_handler) \<and>
    (\<forall>t \<ge> NewNumericDate (now + sint ttl). jwtAuth jwt secret t (''Bearer '' @ tok) next_handler = ret (writeError 401 ''invalid or expired token'')) \<and>
    (\<forall>t other. other \<noteq> secret \<longrightarrow> jwtAuth jwt other t (''Bearer '' @ tok) next_handler = ret (writeError 401 ''invalid or expired token''))"
proof -
  note lib = assms(1) [OF assms(2) [unfolded MintToken_def]]
  have auth: "jwtAuth jwt key t (''Bearer '' @ tok) next_handler =
      (if key = secret \<and> t < NewNumericDate (now + sint ttl) then next_handler else ret (writeError 401 ''invalid or expired token''))" for key t
    using lib [of t "keyfunc key" "[''HS256'']"]
    by (cases "jwt_Parse jwt t tok (keyfunc key) [''HS256'']") (auto simp: jwtAuth_def keyfunc_def)
  show ?thesis unfolding auth by simp
qed

theorem minted_token_accepted_witness:
  "\<exists>tok. MintToken demo_jwt ''secret'' ''admin'' 3000000000 500000000 = Inr tok \<and>
     jwtAuth demo_jwt ''secret'' 2999999999 (''Bearer '' @ tok) (ret healthzHandler :: (unit, response) state) = ret healthzHandler \<and>
     jwtAuth demo_jwt ''secret'' 3000000000 (''Bearer '' @ tok) (ret healthzHandler :: (unit, response) state) = ret (writeError 401 ''invalid or expired token'')"
proof -
  have "MintToken demo_jwt ''secret'' ''admin'' 3000000000 500000000 = Inr (demo_sign 3000000000 ''secret'')"
    by (simp add: MintToken_def demo_jwt_def NewNumericDate_def)
  from this minted_token_accepted [OF demo_jwt_signs this, of "ret healthzHandler :: (unit, response) state"] show ?thesis
    by (auto simp: NewNumericDate_def)
qed

end
