(* ===== verification/Worker.thy ===== *)
theory Worker
  imports Scheduler Float64
begin

text \<open>
  \<open>src/internal/worker\<close>: the retry delay on Go's 64-bit durations, contexts with deadlines, the
  built-in handlers of \<open>handlers.go\<close>, \<open>executeOne\<close> and one turn of each loop of \<open>pool.go\<close> and
  \<open>janitor.go\<close>. The operations are written over any \<open>store_api\<close>. Logging, metrics and tracing
  spans have no effect on the state and are left out. A handler is any operation on the state;
  its result \<open>Inl e\<close> is a non-nil error. The HTTP client is a parameter of \<open>HTTPCallHandler\<close>.
\<close>

subsection \<open>The retry delay\<close>

definition time_Second :: duration where
  "time_Second = 1000000000"

definition maxBackoff :: duration where
  "maxBackoff = 300 * time_Second"

text \<open>\<open>1 << s\<close> on an \<open>int64\<close>: a shift by 64 or more gives 0.\<close>

definition shift_one :: "nat \<Rightarrow> duration" where
  "shift_one s = (if s < 64 then push_bit s 1 else 0)"

text \<open>\<open>uint(run.Attempt)\<close>: a negative \<open>int16\<close> is sign-extended to 64 bits.\<close>

definition uint_of_int16 :: "int16 \<Rightarrow> nat" where
  "uint_of_int16 a = nat (sint a mod 2 ^ 64)"

definition retry_backoff :: "int16 \<Rightarrow> duration" where
  "retry_backoff attempt =
     (let backoff = shift_one (uint_of_int16 attempt) * time_Second
      in if sint maxBackoff < sint backoff then maxBackoff else backoff)"

subsection \<open>Contexts\<close>

text \<open>
  A context is known by the instants of its deadline and of its parent's cancellation. Its error is
  that of the earlier one, once it has passed.
\<close>

record go_context =
  ctx_deadline :: "time option"
  ctx_canceled :: "time option"

definition ctx_done_at :: "go_context \<Rightarrow> (time \<times> err) option" where
  "ctx_done_at c = (case (ctx_deadline c, ctx_canceled c) of
     (None, None) \<Rightarrow> None
   | (Some d, None) \<Rightarrow> Some (d, ErrDeadlineExceeded)
   | (None, Some t) \<Rightarrow> Some (t, ErrCanceled)
   | (Some d, Some t) \<Rightarrow> Some (if d \<le> t then (d, ErrDeadlineExceeded) else (t, ErrCanceled)))"

definition ctx_Err :: "go_context \<Rightarrow> time \<Rightarrow> err option" where
  "ctx_Err c now = (case ctx_done_at c of
     None \<Rightarrow> None
   | Some (t, e) \<Rightarrow> if t \<le> now then Some e else None)"

definition WithTimeout :: "go_context \<Rightarrow> duration \<Rightarrow> time \<Rightarrow> go_context" where
  "WithTimeout parent d now = parent\<lparr>ctx_deadline := Some (case ctx_deadline parent of
     None \<Rightarrow> now + sint d | Some t \<Rightarrow> min t (now + sint d))\<rparr>"

text \<open>\<open>time.Duration(job.TimeoutSeconds) * time.Second\<close>\<close>

definition run_timeout :: "int32 \<Rightarrow> duration" where
  "run_timeout s = signed s * time_Second"

subsection \<open>Executing a run\<close>

type_synonym 's handler = "go_context \<Rightarrow> job \<Rightarrow> JobRun \<Rightarrow> ('s, err + gomap) state"

record 's pool =
  Store :: "'s store_api"
  WorkerID :: string
  LeaseDuration :: duration
  PollInterval :: duration
  handlers :: "string \<rightharpoonup> 's handler"

definition RegisterHandler :: "string \<Rightarrow> 's handler \<Rightarrow> 's pool \<Rightarrow> 's pool" where
  "RegisterHandler jobName h p = p\<lparr>handlers := (handlers p)(jobName \<mapsto> h)\<rparr>"

text \<open>
  A call of the store with a context: once the context is over the driver returns its error and sends nothing. A context that ends
  while a call is under way shows as a lost request or reply.
\<close>

definition ctx_call :: "go_context \<Rightarrow> ('s, time) state \<Rightarrow> ('s, err + 'a) state \<Rightarrow> ('s, err + 'a) state" where
  "ctx_call ctx time_Now call = do {
     now \<leftarrow> time_Now;
     case ctx_Err ctx now of Some e \<Rightarrow> fail e | None \<Rightarrow> call }"

definition fail_and_bury :: "'s pool \<Rightarrow> ('s, time) state \<Rightarrow> go_context \<Rightarrow> string \<Rightarrow> string \<Rightarrow> string \<Rightarrow> ('s, unit) state" where
  \<comment> \<open>\<open>FailRun(ctx, id, msg, false, 0)\<close> and then \<open>MarkDead(ctx, id, reason)\<close>, both errors only logged\<close>
  "fail_and_bury p time_Now ctx runID msg reason = do {
     _ \<leftarrow> ctx_call ctx time_Now (api_FailRun (Store p) runID msg False 0);
     _ \<leftarrow> ctx_call ctx time_Now (api_MarkDead (Store p) runID reason);
     ret () }"

definition finish_run :: "'s pool \<Rightarrow> ('s, time) state \<Rightarrow> go_context \<Rightarrow> JobRun \<Rightarrow> job \<Rightarrow> err + gomap \<Rightarrow> ('s, unit) state" where
  \<comment> \<open>the part of \<open>executeOne\<close> after the handler's outcome is known; \<open>ctx\<close> is that of the pool, not of the run\<close>
  "finish_run p time_Now ctx run job outcome = (case outcome of
     Inr result \<Rightarrow> do { _ \<leftarrow> ctx_call ctx time_Now (api_CompleteRun (Store p) (run_ID run) result); ret () }
   | Inl err \<Rightarrow>
       if run_Attempt run <s job_MaxAttempts job
       then do {
         _ \<leftarrow> ctx_call ctx time_Now (api_FailRun (Store p) (run_ID run) (Error err) True (retry_backoff (run_Attempt run)));
         ret () }
       else fail_and_bury p time_Now ctx (run_ID run) (Error err) ''max attempts exceeded'')"

definition executeOne :: "'s pool \<Rightarrow> ('s, time) state \<Rightarrow> go_context \<Rightarrow> JobRun \<Rightarrow> job \<Rightarrow> ('s, unit) state" where
  "executeOne p time_Now ctx run job = (case handlers p (job_Name job) of
     None \<Rightarrow> fail_and_bury p time_Now ctx (run_ID run) (''no handler registered for job: '' @ job_Name job) ''no handler''
   | Some h \<Rightarrow> do {
       _ \<leftarrow> ctx_call ctx time_Now (api_MarkRunning (Store p) (run_ID run));
       started \<leftarrow> time_Now;
       let runCtx = WithTimeout ctx (run_timeout (job_TimeoutSeconds job)) started;
       res \<leftarrow> h runCtx job run;
       now \<leftarrow> time_Now;
       finish_run p time_Now ctx run job (case res of
         Inl e \<Rightarrow> Inl e
       | Inr result \<Rightarrow> (case ctx_Err runCtx now of Some e \<Rightarrow> Inl e | None \<Rightarrow> Inr result)) })"

subsection \<open>The loops\<close>

text \<open>
  One turn of \<open>leaseLoop\<close> while the context is alive: whether it executed a run. \<open>False\<close> stands for the
  two branches that sleep for \<open>PollInterval\<close>.
\<close>

definition lease_turn :: "'s pool \<Rightarrow> ('s, time) state \<Rightarrow> go_context \<Rightarrow> ('s, bool) state" where
  "lease_turn p time_Now ctx = do {
     r \<leftarrow> ctx_call ctx time_Now (api_LeaseNextRun (Store p) (WorkerID p) (LeaseDuration p));
     case r of
       Inl _ \<Rightarrow> ret False
     | Inr None \<Rightarrow> ret False
     | Inr (Some (run, job)) \<Rightarrow> do { executeOne p time_Now ctx run job; ret True } }"

definition heartbeat_turn :: "'s pool \<Rightarrow> string option \<Rightarrow> ('s, unit) state" where
  \<comment> \<open>the host name is \<open>None\<close> when \<open>os.Hostname\<close> fails\<close>
  "heartbeat_turn p hostname = do {
     _ \<leftarrow> api_UpsertWorkerHeartbeat (Store p) (WorkerID p) (case hostname of None \<Rightarrow> ''unknown'' | Some h \<Rightarrow> h);
     ret () }"

definition janitor_turn :: "'s pool \<Rightarrow> ('s, unit) state" where
  "janitor_turn p = do { _ \<leftarrow> api_ReclaimExpiredLeases (Store p); ret () }"

subsection \<open>Handlers\<close>

definition EchoHandler :: "'s handler" where
  "EchoHandler ctx job run = ok (job_Payload job)"

text \<open>
  \<open>SleepHandler\<close> waits for a timer or for the context, whichever is ready first; where both are
  ready at the same instant Go's \<open>select\<close> picks one at random, here the context when \<open>tie\<close>.
\<close>

definition sleep_seconds :: "job \<Rightarrow> rat" where
  "sleep_seconds job = (case gomap_get (job_Payload job) ''seconds'' of Some (GNum f) \<Rightarrow> f | _ \<Rightarrow> 1)"

definition sleep_duration :: "rat \<Rightarrow> duration" where
  "sleep_duration seconds = int64_of_float (float64_round (seconds * 1000000000))"

definition SleepHandler :: "bool \<Rightarrow> int \<Rightarrow> world handler" where
  "SleepHandler tie skew ctx job run = State (\<lambda>w.
     let seconds = sleep_seconds job;
         now = clock w + skew;
         fire = now + max 0 (sint (sleep_duration seconds));
         slept = (Inr (Some [(''slept_seconds'', GNum seconds)]), w\<lparr>clock := fire - skew\<rparr>)
     in case ctx_done_at ctx of
          None \<Rightarrow> slept
        | Some (t, e) \<Rightarrow>
            if max now t < fire \<or> max now t = fire \<and> tie then (Inl e, w\<lparr>clock := max now t - skew\<rparr>) else slept)"

text \<open>
  \<open>HTTPCallHandler\<close>: \<open>new_request\<close> is what \<open>http.NewRequestWithContext\<close> rejects and \<open>client_do\<close> is
  \<open>httpCallClient.Do\<close>. A response body is the bytes it delivers and the error that ends it, \<open>None\<close>
  being the end of the stream. \<open>io.ReadFull\<close> of 4096 bytes fails only with an error of the
  stream that comes before them; a short body ends in \<open>io.EOF\<close> or \<open>io.ErrUnexpectedEOF\<close>, which the
  code accepts.
\<close>

record http_response =
  StatusCode :: int
  Body :: string
  body_error :: "err option"

definition maxBody :: nat where
  "maxBody = 4096"

definition read_body :: "http_response \<Rightarrow> err + string" where
  "read_body resp = (if length (Body resp) < maxBody
     then (case body_error resp of Some e \<Rightarrow> Inl e | None \<Rightarrow> Inr (Body resp))
     else Inr (take maxBody (Body resp)))"

definition HTTPCallHandler :: "(string \<Rightarrow> string \<Rightarrow> err option) \<Rightarrow>
    (go_context \<Rightarrow> string \<Rightarrow> string \<Rightarrow> ('s, err + http_response) state) \<Rightarrow> 's handler" where
  "HTTPCallHandler new_request client_do ctx job run =
     (case gomap_get (job_Payload job) ''url'' of
        None \<Rightarrow> fail (ErrNew ''http_call: payload missing required \"url\"'')
      | Some rawURL \<Rightarrow>
          let urlStr = (case rawURL of GStr u \<Rightarrow> u | _ \<Rightarrow> []) in
          if urlStr = [] then fail (ErrNew ''http_call: payload \"url\" must be a non-empty string'')
          else let meth = (case gomap_get (job_Payload job) ''method'' of
                   Some (GStr m) \<Rightarrow> if m \<noteq> [] then m else ''GET'' | _ \<Rightarrow> ''GET'') in
            (case new_request meth urlStr of
               Some e \<Rightarrow> fail (ErrWrap ''http_call: building request'' e)
             | None \<Rightarrow> do {
                 r \<leftarrow> client_do ctx meth urlStr;
                 ret (case r of
                   Inl e \<Rightarrow> Inl (ErrWrap ''http_call: request failed'' e)
                 | Inr resp \<Rightarrow> (case read_body resp of
                     Inl e \<Rightarrow> Inl (ErrWrap ''http_call: reading response body'' e)
                   | Inr body \<Rightarrow> Inr (Some [(''status_code'', GNum (of_int (StatusCode resp))), (''body'', GStr body)]))) }))"

subsection \<open>Properties of the retry delay\<close>

lemma uint_of_int16_nonneg: "0 \<le> sint a \<Longrightarrow> uint_of_int16 a = nat (sint a)"
  using sint_attempt_le [of a] by (simp add: uint_of_int16_def)

lemma backoff_table:
  "\<forall>n\<in>{0..<34}. sint (shift_one n * time_Second) = 2 ^ n * 1000000000"
  by (simp add: shift_one_def time_Second_def atLeast0_lessThan_Suc numeral_eq_Suc)

lemma backoff_value:
  assumes "0 \<le> sint a" and "sint a \<le> 33"
  shows "sint (shift_one (uint_of_int16 a) * time_Second) = 2 ^ nat (sint a) * 1000000000"
  using backoff_table uint_of_int16_nonneg [OF assms(1)] assms by auto

lemma sint_maxBackoff: "sint maxBackoff = 300000000000"
  by (simp add: maxBackoff_def time_Second_def)

text \<open>
  C15. Up to the 33rd attempt the delay before the next try is exactly the exponential backoff the
  documentation promises: 2 to the number of attempts in seconds, capped at five minutes.
\<close>

theorem backoff_exact:
  assumes "0 \<le> sint attempt" and "sint attempt \<le> 33"
  shows "sint (retry_backoff attempt) = min (2 ^ nat (sint attempt) * 1000000000) 300000000000"
  using backoff_value [OF assms] by (simp add: retry_backoff_def Let_def sint_maxBackoff)

theorem backoff_exact_witness: "sint (retry_backoff 3) = 8000000000"
  using backoff_exact [of 3] by simp

text \<open>
  C16. From the 34th attempt on the 64-bit product wraps around before it is compared with the
  cap: at attempt 34 the delay is negative, so the retry is scheduled in the past, and from
  attempt 55 on it is exactly zero, so retries follow each other without any delay.
\<close>

theorem backoff_wraps:
  "(sint attempt = 34 \<longrightarrow> sint (retry_backoff attempt) = -1266874889709551616) \<and>
   (55 \<le> sint attempt \<longrightarrow> retry_backoff attempt = 0)"
proof (intro conjI impI)
  show "sint (retry_backoff attempt) = -1266874889709551616" if "sint attempt = 34"
    using that uint_of_int16_nonneg [of attempt]
    by (simp add: retry_backoff_def shift_one_def time_Second_def maxBackoff_def Let_def)
  have "shift_one n * time_Second = 0" if "55 \<le> n" for n
  proof (cases "n < 64")
    case True
    then have "n = 55 \<or> n = 56 \<or> n = 57 \<or> n = 58 \<or> n = 59 \<or> n = 60 \<or> n = 61 \<or> n = 62 \<or> n = 63"
      using that by linarith
    then show ?thesis by (elim disjE) (simp_all add: shift_one_def time_Second_def)
  qed (simp add: shift_one_def)
  then show "retry_backoff attempt = 0" if "55 \<le> sint attempt"
    using that uint_of_int16_nonneg [of attempt] by (simp add: retry_backoff_def Let_def sint_maxBackoff)
qed

theorem backoff_wraps_witness: "sint (retry_backoff 34) < 0 \<and> retry_backoff 60 = 0"
  using backoff_wraps [of 34] backoff_wraps [of 60] by simp

subsection \<open>Executing a run on the Postgres store\<close>

text \<open>
  The handler ran from the state after \<open>MarkRunning\<close> until the clock showed \<open>c\<close>, left the database
  alone and returned \<open>res\<close>; \<open>outcome\<close> is what \<open>executeOne\<close> makes of it.
\<close>

definition run_context :: "go_context \<Rightarrow> job \<Rightarrow> int \<Rightarrow> world \<Rightarrow> go_context" where
  "run_context ctx job skew w = WithTimeout ctx (run_timeout (job_TimeoutSeconds job)) (clock w + skew)"

definition handler_ran :: "world handler \<Rightarrow> go_context \<Rightarrow> job \<Rightarrow> JobRun \<Rightarrow> int \<Rightarrow> world \<Rightarrow> time \<Rightarrow> err + gomap \<Rightarrow> bool" where
  "handler_ran h ctx job run skew w c res \<longleftrightarrow> clock w \<le> c \<and>
     (let w1 = edit_run (run_ID run) (mark_running_row (clock w)) w
      in run_state (h (run_context ctx job skew w) job run) w1 = (res, w1\<lparr>clock := c\<rparr>))"

definition outcome :: "go_context \<Rightarrow> time \<Rightarrow> err + gomap \<Rightarrow> err + gomap" where
  "outcome runCtx now res = (case res of
     Inl e \<Rightarrow> Inl e
   | Inr result \<Rightarrow> (case ctx_Err runCtx now of Some e \<Rightarrow> Inl e | None \<Rightarrow> Inr result))"

lemma run_edit_exists:
  "good w \<Longrightarrow> run_exists u (primary w) \<Longrightarrow> (\<And>r. run_change r (f r)) \<Longrightarrow> good (edit_run u f w) \<and> run_exists u (primary (edit_run u f w))"
proof -
  assume good: "good w" and u: "run_exists u (primary w)" and change: "\<And>r. run_change r (f r)"
  have exists: "run_exists v (primary (edit_run u f w)) = run_exists v (primary w)" for v
    unfolding edit_run_def write_db_def
    using run_exists_update_where [of "primary w" "\<lambda>r. run_ID r = u" f] change by (simp add: run_change_def)
  have same: "job_exists v (primary (edit_run u f w)) = job_exists v (primary w)"
    "dead_letters (primary (edit_run u f w)) = dead_letters (primary w)" for v
    by (simp_all add: edit_run_def write_db_def)
  have "integrity (primary (edit_run u f w))"
    unfolding edit_run_def write_db_def using integrity_update_runs [OF good_fields(4) [OF good]] change by simp
  then have "good (edit_run u f w)"
    using good unfolding good_def wf_world_def ids_issued_def exists same by (simp add: edit_run_def write_db_def)
  then show ?thesis using u exists by simp
qed

lemma good_clock: "good w \<Longrightarrow> good (w\<lparr>clock := c\<rparr>)"
  by (simp add: good_def wf_world_def)

text \<open>A context that is alive at a time was alive before.\<close>

lemma ctx_Err_mono: "ctx_Err ctx t = None \<Longrightarrow> s \<le> t \<Longrightarrow> ctx_Err ctx s = None"
  by (auto simp: ctx_Err_def split: option.splits if_splits)

lemma run_host_clock: "run_state (host_clock skew) w = (clock w + skew, w)"
  by (simp add: host_clock_def)

lemma ctx_call_alive:
  "ctx_Err ctx (clock w + skew) = None \<Longrightarrow> run_state (ctx_call ctx (host_clock skew) m) w = run_state m w"
  by (simp add: ctx_call_def host_clock_def)

lemma ctx_call_over:
  "ctx_Err ctx (clock w + skew) = Some e \<Longrightarrow> run_state (ctx_call ctx (host_clock skew) m) w = (Inl e, w)"
  by (simp add: ctx_call_def host_clock_def)

lemma executeOne_good:
  assumes "good w" and "Store p = pg_store" and "handlers p (job_Name job) = Some h"
    and "run_exists (run_ID run) (primary w)" and "handler_ran h ctx job run skew w c res" and "ctx_Err ctx (clock w + skew) = None"
  shows "run_state (executeOne p (host_clock skew) ctx run job) w =
    run_state (finish_run p (host_clock skew) ctx run job (outcome (run_context ctx job skew w) (c + skew) res))
      ((edit_run (run_ID run) (mark_running_row (clock w)) w)\<lparr>clock := c\<rparr>)"
proof -
  have "uuid_in w (run_ID run) = Some (run_ID run)" using good_uuid assms(1,4) by blast
  with assms show ?thesis
    by (cases res) (simp_all add: executeOne_def ctx_call_alive MarkRunning_good run_host_clock handler_ran_def run_context_def
        outcome_def Let_def)
qed

lemma started_good:
  assumes "good w" and "run_exists u (primary w)"
  shows "good ((edit_run u (mark_running_row t) w)\<lparr>clock := c\<rparr>)"
    and "run_exists u (primary ((edit_run u (mark_running_row t) w)\<lparr>clock := c\<rparr>))"
  using run_edit_exists [OF assms, of "mark_running_row t"] good_clock by simp_all

lemma fail_and_bury_good:
  assumes "good w" and "Store p = pg_store" and "r \<in> set (job_runs (primary w))"
    and "json_Marshal (dead_letter_payload (run_view (fail_row msg (clock w) r))) = Inr raw" and "ctx_Err ctx (clock w + skew) = None"
  shows "run_state (fail_and_bury p (host_clock skew) ctx (run_ID r) msg reason) w =
    ((), edit_run (run_ID r) (\<lambda>r. r\<lparr>run_Status := RunStatusDead\<rparr>)
      (write_db (\<lambda>d. d\<lparr>dead_letters := dead_letters d @ [\<lparr>dl_ID = uuid_gen w (uuid_next w), dl_JobRunID = run_ID r,
         dl_Reason = reason, dl_Payload = raw, dl_CreatedAt = clock w\<rparr>]\<rparr>)
       ((edit_run (run_ID r) (fail_row msg (clock w)) w)\<lparr>uuid_next := Suc (uuid_next w)\<rparr>)))"
proof -
  let ?w1 = "edit_run (run_ID r) (fail_row msg (clock w)) w"
  have ex: "run_exists (run_ID r) (primary w)" using assms(3) by (rule run_in_exists)
  have id: "uuid_in w (run_ID r) = Some (run_ID r)" using good_uuid assms(1) ex by blast
  have good1: "good ?w1" using run_edit_exists [OF assms(1) ex, of "fail_row msg (clock w)"] by simp
  have row: "fail_row msg (clock w) r \<in> set (job_runs (primary ?w1))" "run_ID (fail_row msg (clock w) r) = run_ID r"
    using assms(3) by (auto simp: in_update_where fail_row_def)
  have "run_state (FailRun (run_ID r) msg False 0) w = (Inr (), ?w1)"
    using FailRun_good [OF assms(1) id, of msg False 0] ex by simp
  moreover have "uuid_gen ?w1 = uuid_gen w" "uuid_next ?w1 = uuid_next w" by (simp_all add: edit_run_def write_db_def)
  moreover have "run_state (MarkDead (run_ID r) reason) ?w1 = (Inr (), edit_run (run_ID r) (\<lambda>r. r\<lparr>run_Status := RunStatusDead\<rparr>)
      (write_db (\<lambda>d. d\<lparr>dead_letters := dead_letters d @ [\<lparr>dl_ID = uuid_gen ?w1 (uuid_next ?w1), dl_JobRunID = run_ID r,
         dl_Reason = reason, dl_Payload = raw, dl_CreatedAt = clock w\<rparr>]\<rparr>) (?w1\<lparr>uuid_next := Suc (uuid_next ?w1)\<rparr>)))"
    using MarkDead_good [OF good1 _ row(1), of "run_ID r" raw reason] row(2) assms(4) id by simp
  ultimately show ?thesis using assms(2,5) by (simp add: fail_and_bury_def ctx_call_alive)
qed

lemma update_where_twice:
  "(\<And>x. p (g x) = p x) \<Longrightarrow> update_where p f (update_where p g xs) = update_where p (\<lambda>x. f (g x)) xs"
  by (induction xs) auto

lemma edit_run_primary:
  "primary (edit_run u f w) = (primary w)\<lparr>job_runs := update_where (\<lambda>r. run_ID r = u) f (job_runs (primary w))\<rparr>"
  by (simp add: edit_run_def write_db_def)

lemma edit_after_start:
  "primary (edit_run u f ((edit_run u (mark_running_row t) w)\<lparr>clock := c\<rparr>)) =
     (primary w)\<lparr>job_runs := update_where (\<lambda>r. run_ID r = u) (\<lambda>r. f (mark_running_row t r)) (job_runs (primary w))\<rparr>"
  by (simp add: edit_run_primary update_where_twice mark_running_row_def)

subsection \<open>A worker for the examples\<close>

definition demo_ctx :: go_context where
  "demo_ctx = \<lparr>ctx_deadline = None, ctx_canceled = None\<rparr>"

lemma demo_ctx_alive [simp]: "ctx_Err demo_ctx t = None"
  by (simp add: demo_ctx_def ctx_Err_def ctx_done_at_def)

definition boom_handler :: "world handler" where
  "boom_handler ctx job run = fail (ErrNew ''boom'')"

definition demo_pool :: "world pool" where
  "demo_pool = \<lparr>Store = pg_store, WorkerID = ''w1'', LeaseDuration = 30000000000, PollInterval = 1000000000,
     handlers = [''echo'' \<mapsto> EchoHandler]\<rparr>"

abbreviation demo_job_struct :: job where
  "demo_job_struct \<equiv> job_view demo_db demo_job"

lemma demo_names [simp]:
  "job_Name demo_job = ''echo''" "run_Attempt demo_run = 0" "job_TimeoutSeconds demo_job = 300" "job_MaxAttempts demo_job = 5"
  "job_Payload demo_job_struct = Some [(''msg'', GStr ''hi'')]"
  by (simp_all add: demo_job_def demo_input_def new_job_row_def demo_run_def new_run_row_def job_view_def job_of_row_def
      decode_def json_Unmarshal_def)

lemma demo_tables [simp]: "job_runs demo_db = [demo_run]" "dead_letters demo_db = []" "run_ID demo_run = demo_uuid (Suc 0)"
  by (simp_all add: demo_db_def empty_db_def demo_run_def new_run_row_def)

lemma demo_exists: "run_exists (run_ID (run_view demo_run)) (primary (demo_world demo_db 2))"
  using run_in_exists [OF demo_in(1)] by (simp add: demo_in)

lemma handler_ran_now:
  "(\<And>w. run_state (h (run_context ctx job 0 w0) job run) w = (res, w)) \<Longrightarrow> handler_ran h ctx job run 0 w0 (clock w0) res"
  by (simp add: handler_ran_def Let_def edit_run_def write_db_def)

text \<open>
  A run whose handler returns a result before its deadline ends up succeeded: the row records
  the start, the end and the encoded result, and no other row changes.
\<close>

theorem execute_success:
  assumes "good w" and "Store p = pg_store" and "handlers p (job_Name job) = Some h"
    and "run_exists (run_ID run) (primary w)" and "handler_ran h ctx job run skew w c (Inr result)"
    and "ctx_Err (run_context ctx job skew w) (c + skew) = None" and "json_Marshal result = Inr raw" and "ctx_Err ctx (c + skew) = None"
  shows "primary (snd (run_state (executeOne p (host_clock skew) ctx run job) w)) =
    (primary w)\<lparr>job_runs := update_where (\<lambda>r. run_ID r = run_ID run)
      (\<lambda>r. r\<lparr>run_StartedAt := Some (clock w), run_Status := RunStatusSucceeded, run_FinishedAt := Some c, run_Result := Some raw\<rparr>)
      (job_runs (primary w))\<rparr>"
proof -
  let ?w1 = "(edit_run (run_ID run) (mark_running_row (clock w)) w)\<lparr>clock := c\<rparr>"
  have "uuid_in ?w1 (run_ID run) = Some (run_ID run)" using good_uuid assms(1,4) by simp
  from CompleteRun_good [OF started_good(1) [OF assms(1,4)] this assms(7)] started_good(2) [OF assms(1,4)]
  have "run_state (executeOne p (host_clock skew) ctx run job) w = ((), edit_run (run_ID run) (complete_row raw c) ?w1)"
    using assms by (simp add: executeOne_good [OF assms(1-5) ctx_Err_mono [OF assms(8)]] handler_ran_def ctx_call_alive outcome_def finish_run_def)
  then show ?thesis by (simp add: edit_after_start complete_row_def mark_running_row_def)
qed

theorem execute_success_witness:
  "\<exists>r\<in>set (job_runs (primary (snd (run_state (executeOne demo_pool (host_clock 0) demo_ctx (run_view demo_run) demo_job_struct)
      (demo_world demo_db 2))))). run_Status r = RunStatusSucceeded \<and> run_Result r = Some (GObj [(''msg'', GStr ''hi'')])"
proof -
  have "handler_ran EchoHandler demo_ctx demo_job_struct (run_view demo_run) 0 (demo_world demo_db 2) (clock (demo_world demo_db 2))
      (Inr (Some [(''msg'', GStr ''hi'')]))" by (rule handler_ran_now) (simp add: EchoHandler_def)
  from execute_success [OF good_demo _ _ demo_exists this, of demo_pool "GObj [(''msg'', GStr ''hi'')]"] show ?thesis
    by (simp add: demo_pool_def demo_ctx_def run_context_def WithTimeout_def ctx_Err_def ctx_done_at_def run_timeout_def
        time_Second_def json_Marshal_def)
qed

text \<open>
  C17. A run that fails (its handler returns an error, or returns after the run's deadline) with attempts left, while the pool's
  own context is not over, goes back to the queue, on a database whose calls do not fail: pending, unleased, with the error recorded, and due again after the
  backoff of its attempt. No other row changes and no dead letter is written.
\<close>

theorem execute_retry:
  assumes "good w" and "Store p = pg_store" and "handlers p (job_Name job) = Some h"
    and "run_exists (run_ID run) (primary w)" and "handler_ran h ctx job run skew w c res"
    and "outcome (run_context ctx job skew w) (c + skew) res = Inl e" and "sint (run_Attempt run) < sint (job_MaxAttempts job)"
    and "ctx_Err ctx (c + skew) = None"
  shows "primary (snd (run_state (executeOne p (host_clock skew) ctx run job) w)) =
    (primary w)\<lparr>job_runs := update_where (\<lambda>r. run_ID r = run_ID run)
      (\<lambda>r. r\<lparr>run_StartedAt := Some (clock w), run_Status := RunStatusPending,
         run_ScheduledAt := c + sint (retry_backoff (run_Attempt run)), run_Error := Some (Error e),
         run_LeasedBy := None, run_LeasedAt := None, run_LeaseExpiresAt := None\<rparr>) (job_runs (primary w))\<rparr>"
proof -
  let ?w1 = "(edit_run (run_ID run) (mark_running_row (clock w)) w)\<lparr>clock := c\<rparr>"
  let ?f = "requeue_row (retry_backoff (run_Attempt run)) (Error e) c"
  have "uuid_in ?w1 (run_ID run) = Some (run_ID run)" using good_uuid assms(1,4) by simp
  from FailRun_good [OF started_good(1) [OF assms(1,4)] this] started_good(2) [OF assms(1,4)]
  have "run_state (executeOne p (host_clock skew) ctx run job) w = ((), edit_run (run_ID run) ?f ?w1)"
    using assms by (simp add: executeOne_good [OF assms(1-5) ctx_Err_mono [OF assms(8)]] handler_ran_def ctx_call_alive finish_run_def word_sless_alt)
  then show ?thesis by (simp add: edit_after_start requeue_row_def mark_running_row_def)
qed

theorem execute_retry_witness:
  "\<exists>r\<in>set (job_runs (primary (snd (run_state (executeOne (RegisterHandler ''echo'' boom_handler demo_pool) (host_clock 0) demo_ctx
      (run_view demo_run) demo_job_struct) (demo_world demo_db 2))))).
     run_Status r = RunStatusPending \<and> run_ScheduledAt r = 1000000000 \<and> run_Error r = Some ''boom''"
proof -
  have "handler_ran boom_handler demo_ctx demo_job_struct (run_view demo_run) 0 (demo_world demo_db 2) (clock (demo_world demo_db 2))
      (Inl (ErrNew ''boom''))" by (rule handler_ran_now) (simp add: boom_handler_def)
  from execute_retry [OF good_demo _ _ demo_exists this, of "RegisterHandler ''echo'' boom_handler demo_pool" "ErrNew ''boom''"] show ?thesis
    by (simp add: demo_pool_def RegisterHandler_def outcome_def
        retry_backoff_def shift_one_def uint_of_int16_def time_Second_def maxBackoff_def Let_def)
qed

lemma run_existsE: "run_exists u d \<Longrightarrow> \<exists>r\<in>set (job_runs d). run_ID r = u"
  by (auto simp: run_exists_def)

lemma dead_letter_error:
  assumes "json_Marshal (dead_letter_payload (run_view r)) = Inr raw" and "run_Error r = Some msg"
  shows "\<exists>result. raw = GObj [(''result'', result), (''error'', GStr msg)]"
  using assms by (auto simp: json_Marshal_def dead_letter_payload_def split: if_splits option.splits)

lemma buried_run:
  assumes "good w" and "Store p = pg_store" and "r \<in> set (job_runs (primary w))" and "ctx_Err ctx (clock w + skew) = None"
  shows "\<exists>l result. primary (snd (run_state (fail_and_bury p (host_clock skew) ctx (run_ID r) msg reason) w)) =
      (primary w)\<lparr>dead_letters := dead_letters (primary w) @ [l], job_runs := update_where (\<lambda>x. run_ID x = run_ID r)
         (\<lambda>x. x\<lparr>run_FinishedAt := Some (clock w), run_Error := Some msg, run_Status := RunStatusDead\<rparr>) (job_runs (primary w))\<rparr> \<and>
    dl_JobRunID l = run_ID r \<and> dl_Reason l = reason \<and> dl_CreatedAt l = clock w \<and>
    dl_Payload l = GObj [(''result'', result), (''error'', GStr msg)]"
proof -
  let ?r1 = "fail_row msg (clock w) r"
  have "run_Result ?r1 = run_Result r" "run_Error ?r1 = Some msg" by (simp_all add: fail_row_def)
  moreover obtain raw where raw: "json_Marshal (dead_letter_payload (run_view ?r1)) = Inr raw"
    using json_Marshal_dead_letter [of ?r1] integrity_run [OF good_fields(4) [OF assms(1)] assms(3)] calculation(1) by auto
  ultimately obtain result where "raw = GObj [(''result'', result), (''error'', GStr msg)]"
    using dead_letter_error by blast
  then show ?thesis
    by (intro exI [of _ "\<lparr>dl_ID = uuid_gen w (uuid_next w), dl_JobRunID = run_ID r, dl_Reason = reason,
          dl_Payload = raw, dl_CreatedAt = clock w\<rparr>"] exI [of _ result])
       (simp add: fail_and_bury_good [OF assms(1-3) raw assms(4)] edit_run_primary write_db_def update_where_twice fail_row_def)
qed

text \<open>
  C18. A run that fails with no attempt left, while the pool's own context is not over, is buried, on a database whose calls do
  not fail: its row is dead with the error and the time
  recorded, and one dead letter is added that names the run, the reason
  \<open>max attempts exceeded\<close> and the error. No other row changes.
\<close>

theorem execute_exhausted:
  assumes "good w" and "Store p = pg_store" and "handlers p (job_Name job) = Some h"
    and "run_exists (run_ID run) (primary w)" and "handler_ran h ctx job run skew w c res"
    and "outcome (run_context ctx job skew w) (c + skew) res = Inl e" and "sint (job_MaxAttempts job) \<le> sint (run_Attempt run)"
    and "ctx_Err ctx (c + skew) = None"
  shows "\<exists>l result. primary (snd (run_state (executeOne p (host_clock skew) ctx run job) w)) =
      (primary w)\<lparr>dead_letters := dead_letters (primary w) @ [l], job_runs := update_where (\<lambda>r. run_ID r = run_ID run)
         (\<lambda>r. r\<lparr>run_StartedAt := Some (clock w), run_FinishedAt := Some c, run_Error := Some (Error e), run_Status := RunStatusDead\<rparr>)
         (job_runs (primary w))\<rparr> \<and>
    dl_JobRunID l = run_ID run \<and> dl_Reason l = ''max attempts exceeded'' \<and> dl_CreatedAt l = c \<and>
    dl_Payload l = GObj [(''result'', result), (''error'', GStr (Error e))]"
proof -
  let ?w1 = "(edit_run (run_ID run) (mark_running_row (clock w)) w)\<lparr>clock := c\<rparr>"
  have exec: "run_state (executeOne p (host_clock skew) ctx run job) w =
      run_state (fail_and_bury p (host_clock skew) ctx (run_ID run) (Error e) ''max attempts exceeded'') ?w1"
    using assms by (simp add: executeOne_good [OF assms(1-5) ctx_Err_mono [OF assms(8)]] handler_ran_def finish_run_def word_sless_alt)
  obtain r where r: "r \<in> set (job_runs (primary ?w1))" "run_ID r = run_ID run"
    using run_existsE [OF started_good(2) [OF assms(1,4), of c "clock w"]] by blast
  from buried_run [OF started_good(1) [OF assms(1,4)] assms(2) r(1), of ctx skew] assms(8) show ?thesis
    unfolding exec r(2)
    by (simp add: edit_run_primary update_where_twice mark_running_row_def)
qed

theorem execute_exhausted_witness:
  "\<exists>l. dead_letters (primary (snd (run_state (executeOne (RegisterHandler ''echo'' boom_handler demo_pool) (host_clock 0) demo_ctx
      ((run_view demo_run)\<lparr>run_Attempt := 5\<rparr>) demo_job_struct) (demo_world demo_db 2)))) = [l] \<and> dl_Reason l = ''max attempts exceeded''"
proof -
  let ?run = "(run_view demo_run)\<lparr>run_Attempt := 5\<rparr>"
  have ex: "run_exists (run_ID ?run) (primary (demo_world demo_db 2))" using demo_exists by simp
  have "handler_ran boom_handler demo_ctx demo_job_struct ?run 0 (demo_world demo_db 2) (clock (demo_world demo_db 2))
      (Inl (ErrNew ''boom''))" by (rule handler_ran_now) (simp add: boom_handler_def)
  from execute_exhausted [OF good_demo _ _ ex this, of "RegisterHandler ''echo'' boom_handler demo_pool" "ErrNew ''boom''"] show ?thesis
    by (auto simp: demo_pool_def RegisterHandler_def outcome_def)
qed

text \<open>
  A run of a job nobody registered a handler for is buried at once, whatever its attempts,
  with the reason \<open>no handler\<close>; it is never marked running.
\<close>

theorem execute_no_handler:
  assumes "good w" and "Store p = pg_store" and "handlers p (job_Name job) = None" and "run_exists (run_ID run) (primary w)"
    and "ctx_Err ctx (clock w + skew) = None"
  shows "\<exists>l result. primary (snd (run_state (executeOne p (host_clock skew) ctx run job) w)) =
      (primary w)\<lparr>dead_letters := dead_letters (primary w) @ [l], job_runs := update_where (\<lambda>r. run_ID r = run_ID run)
         (\<lambda>r. r\<lparr>run_FinishedAt := Some (clock w), run_Error := Some (''no handler registered for job: '' @ job_Name job),
            run_Status := RunStatusDead\<rparr>) (job_runs (primary w))\<rparr> \<and>
    dl_JobRunID l = run_ID run \<and> dl_Reason l = ''no handler'' \<and>
    dl_Payload l = GObj [(''result'', result), (''error'', GStr (''no handler registered for job: '' @ job_Name job))]"
proof -
  obtain r where r: "r \<in> set (job_runs (primary w))" "run_ID r = run_ID run"
    using assms(4) by (auto simp: run_exists_def)
  have "run_state (executeOne p (host_clock skew) ctx run job) w =
      run_state (fail_and_bury p (host_clock skew) ctx (run_ID r) (''no handler registered for job: '' @ job_Name job) ''no handler'') w"
    using assms(3) r(2) by (simp add: executeOne_def)
  then show ?thesis using buried_run [OF assms(1,2) r(1) assms(5)] r(2) by metis
qed

theorem execute_no_handler_witness:
  "\<exists>l. dead_letters (primary (snd (run_state (executeOne (demo_pool\<lparr>handlers := Map.empty\<rparr>) (host_clock 0) demo_ctx
      (run_view demo_run) demo_job_struct) (demo_world demo_db 2)))) = [l] \<and> dl_Reason l = ''no handler''"
proof -
  obtain l where "primary (snd (run_state (executeOne (demo_pool\<lparr>handlers := Map.empty\<rparr>) (host_clock 0) demo_ctx
      (run_view demo_run) demo_job_struct) (demo_world demo_db 2))) =
      demo_db\<lparr>dead_letters := dead_letters demo_db @ [l], job_runs := update_where (\<lambda>r. run_ID r = demo_uuid 1)
         (\<lambda>r. r\<lparr>run_FinishedAt := Some 0, run_Error := Some (''no handler registered for job: '' @ ''echo''),
            run_Status := RunStatusDead\<rparr>) (job_runs demo_db)\<rparr>" and "dl_Reason l = ''no handler''"
    using execute_no_handler [OF good_demo _ _ demo_exists, of "demo_pool\<lparr>handlers := Map.empty\<rparr>" demo_job_struct demo_ctx 0]
    by (auto simp: demo_pool_def)
  then show ?thesis by simp
qed

lemma run_timeout_exact: "sint (run_timeout s) = sint s * 1000000000"
proof -
  have "- (2 ^ 31) \<le> sint s" "sint s < 2 ^ 31" using sint_ge [of s] sint_lt [of s] by simp_all
  then have "- (2 ^ 63) \<le> sint s * 1000000000" "sint s * 1000000000 < 2 ^ 63" by simp_all
  moreover have "sint (signed s :: duration) = sint s" by (simp add: sint_up_scast is_up)
  ultimately show ?thesis
    by (simp add: run_timeout_def time_Second_def sint_word_mult signed_take_bit_int_eq_self)
qed


definition shutdown_ctx :: go_context where
  "shutdown_ctx = \<lparr>ctx_deadline = None, ctx_canceled = Some 500000000\<rparr>"


subsection \<open>What the handlers do\<close>

text \<open>
  The sleep handler honours the run's timeout: asked for a whole number of seconds (up to the
  9007199 for which the nanoseconds are exact), it returns them when they are fewer than the
  timeout, having taken exactly that time, and otherwise gives up at the deadline with
  \<open>context deadline exceeded\<close>, which \<open>executeOne\<close> treats as a failed attempt.
\<close>

theorem sleep_honours_timeout:
  assumes "gomap_get (job_Payload job) ''seconds'' = Some (GNum (of_int n))" and "0 \<le> n" and "n \<le> 9007199"
    and "0 \<le> sint (job_TimeoutSeconds job)" and "n \<noteq> sint (job_TimeoutSeconds job)"
  shows "run_state (SleepHandler tie skew (run_context \<lparr>ctx_deadline = None, ctx_canceled = None\<rparr> job skew w) job run) w =
    (if n < sint (job_TimeoutSeconds job)
     then (Inr (Some [(''slept_seconds'', GNum (of_int n))]), w\<lparr>clock := clock w + n * 1000000000\<rparr>)
     else (Inl ErrDeadlineExceeded, w\<lparr>clock := clock w + sint (job_TimeoutSeconds job) * 1000000000\<rparr>))"
proof -
  have "(of_int n * 1000000000 :: rat) = of_int (n * 1000000000)" by simp
  moreover have "\<bar>n * 1000000000\<bar> < 2 ^ 53" using assms(2,3) by simp
  ultimately have "sint (sleep_duration (of_int n)) = n * 1000000000"
    using float64_round_int [of "n * 1000000000"] int64_of_float_int [of "n * 1000000000"]
    by (simp add: sleep_duration_def)
  then show ?thesis using assms
    by (auto simp: SleepHandler_def sleep_seconds_def run_context_def WithTimeout_def ctx_done_at_def run_timeout_exact Let_def
        max_def)
qed

theorem sleep_honours_timeout_witness:
  "fst (run_state (SleepHandler True 0 (run_context \<lparr>ctx_deadline = None, ctx_canceled = None\<rparr>
      (demo_job_struct\<lparr>job_Payload := Some [(''seconds'', GNum (of_int 301))]\<rparr>) 0 (demo_world demo_db 2))
      (demo_job_struct\<lparr>job_Payload := Some [(''seconds'', GNum (of_int 301))]\<rparr>) (run_view demo_run)) (demo_world demo_db 2)) =
   Inl ErrDeadlineExceeded"
  using sleep_honours_timeout [of "demo_job_struct\<lparr>job_Payload := Some [(''seconds'', GNum (of_int 301))]\<rparr>" 301 True 0 "demo_world demo_db 2" "run_view demo_run"]
  by (simp add: gomap_get_def)

lemma read_body_Inr: "read_body resp = Inr body \<Longrightarrow> body = take 4096 (Body resp)"
  by (auto simp: read_body_def maxBody_def split: if_splits option.splits)

lemma http_call_Inr:
  assumes "fst (run_state (HTTPCallHandler new_request client_do ctx job run) s) = Inr result"
  obtains u meth resp where "gomap_get (job_Payload job) ''url'' = Some (GStr u)" and "u \<noteq> []"
    and "fst (run_state (client_do ctx meth u) s) = Inr resp"
    and "result = Some [(''status_code'', GNum (of_int (StatusCode resp))), (''body'', GStr (take 4096 (Body resp)))]"
proof -
  obtain v where v: "gomap_get (job_Payload job) ''url'' = Some v"
    using assms by (cases "gomap_get (job_Payload job) ''url''") (simp_all add: HTTPCallHandler_def)
  obtain u where u: "v = GStr u" "u \<noteq> []"
    using assms v by (cases v) (auto simp: HTTPCallHandler_def Let_def split: if_splits)
  let ?meth = "case gomap_get (job_Payload job) ''method'' of
      Some (GStr m) \<Rightarrow> if m \<noteq> [] then m else ''GET'' | _ \<Rightarrow> ''GET''"
  have "new_request ?meth u = None"
    using assms v u by (cases "new_request ?meth u") (simp_all add: HTTPCallHandler_def Let_def)
  moreover obtain r s' where call: "run_state (client_do ctx ?meth u) s = (r, s')"
    by (cases "run_state (client_do ctx ?meth u) s")
  ultimately obtain resp body where "r = Inr resp" and "read_body resp = Inr body"
    and "result = Some [(''status_code'', GNum (of_int (StatusCode resp))), (''body'', GStr body)]"
    using assms v u by (cases r) (auto simp: HTTPCallHandler_def Let_def split: sum.splits)
  then show ?thesis using that [OF v [unfolded u(1)] u(2), of ?meth resp] call read_body_Inr by simp
qed

text \<open>
  The HTTP handler never blows up a result: whatever the server sends, a successful result can be
  stored (it has a JSON form), its body is a prefix of the response of at most 4096 bytes, the
  whole response when that is shorter; a payload without a usable URL fails before any request is made.
\<close>

theorem http_result_bounded:
  "(fst (run_state (HTTPCallHandler new_request client_do ctx job run) s) = Inr result \<longrightarrow>
     (\<exists>body resp u meth. result = Some [(''status_code'', GNum (of_int (StatusCode resp))), (''body'', GStr body)] \<and>
        gomap_get (job_Payload job) ''url'' = Some (GStr u) \<and> u \<noteq> [] \<and>
        fst (run_state (client_do ctx meth u) s) = Inr resp \<and> body = take 4096 (Body resp) \<and> length body \<le> 4096 \<and>
        (\<exists>raw. json_Marshal result = Inr raw))) \<and>
   ((\<forall>u. gomap_get (job_Payload job) ''url'' = Some (GStr u) \<longrightarrow> u = []) \<longrightarrow>
     (\<exists>msg. run_state (HTTPCallHandler new_request client_do ctx job run) s = (Inl (ErrNew msg), s)))"
proof (intro conjI impI)
  assume "fst (run_state (HTTPCallHandler new_request client_do ctx job run) s) = Inr result"
  then obtain u meth resp where "gomap_get (job_Payload job) ''url'' = Some (GStr u)" "u \<noteq> []"
    "fst (run_state (client_do ctx meth u) s) = Inr resp"
    and result: "result = Some [(''status_code'', GNum (of_int (StatusCode resp))), (''body'', GStr (take 4096 (Body resp)))]"
    by (rule http_call_Inr)
  moreover have "\<exists>raw. json_Marshal result = Inr raw" by (simp add: result json_Marshal_def)
  moreover have "length (take 4096 (Body resp)) \<le> 4096" by simp
  ultimately show "\<exists>body resp u meth. result = Some [(''status_code'', GNum (of_int (StatusCode resp))), (''body'', GStr body)] \<and>
        gomap_get (job_Payload job) ''url'' = Some (GStr u) \<and> u \<noteq> [] \<and>
        fst (run_state (client_do ctx meth u) s) = Inr resp \<and> body = take 4096 (Body resp) \<and> length body \<le> 4096 \<and>
        (\<exists>raw. json_Marshal result = Inr raw)" by blast
next
  assume no_url: "\<forall>u. gomap_get (job_Payload job) ''url'' = Some (GStr u) \<longrightarrow> u = []"
  show "\<exists>msg. run_state (HTTPCallHandler new_request client_do ctx job run) s = (Inl (ErrNew msg), s)"
  proof (cases "gomap_get (job_Payload job) ''url''")
    case (Some v)
    then show ?thesis using no_url by (cases v) (simp_all add: HTTPCallHandler_def Let_def)
  qed (simp add: HTTPCallHandler_def)
qed

theorem http_result_bounded_witness:
  "\<exists>msg. run_state (HTTPCallHandler (\<lambda>_ _. None) (\<lambda>_ _ _. ok \<lparr>StatusCode = 200, Body = ''ok'', body_error = None\<rparr>) demo_ctx
     demo_job_struct (run_view demo_run)) () = (Inl (ErrNew msg), ())"
  using http_result_bounded [of "\<lambda>_ _. None" "\<lambda>_ _ _. ok \<lparr>StatusCode = 200, Body = ''ok'', body_error = None\<rparr>" demo_ctx
      demo_job_struct "run_view demo_run" "()" None]
  by (simp add: gomap_get_def)

end
