(* ===== verification/Cache.thy ===== *)
theory Cache
  imports Router
begin

text \<open>
  \<open>src/internal/cache/cache.go\<close>: the cache-aside store that the API service wraps around its store. The state is the
  underlying store's state with the keys in Redis, their expiry and Redis' clock. A Redis command is delivered, lost, or executed
  with its reply lost, as \<open>redis_script\<close> says (an empty script is a Redis without faults); the code ignores the errors of
  \<open>Set\<close> and \<open>Del\<close> and takes an error of \<open>Get\<close> as a miss. A cached value is what \<open>json.Unmarshal\<close> makes of the
  stored bytes. The keys of jobs and of runs start with different prefixes and are kept apart. Concurrent misses
  share one fetch (\<open>singleflight\<close>); here every call runs alone, without anything happening between its steps. Theory \<open>Singleflight\<close> takes the calls apart,
  shares the fetches and interleaves everything.
\<close>

definition jobTTL :: int where
  "jobTTL = 30 * 1000000000"

definition runTTL :: int where
  "runTTL = 3600 * 1000000000"

definition jobKeyPrefix :: string where
  "jobKeyPrefix = ''taskflow:job:''"

definition runKeyPrefix :: string where
  "runKeyPrefix = ''taskflow:run:''"

record 's cached =
  underlying :: 's
  redis_jobs :: "string \<Rightarrow> ((err + job) \<times> time) option"
  redis_runs :: "string \<Rightarrow> ((err + JobRun) \<times> time) option"
  redis_clock :: time
  redis_script :: "fault list"

definition redis_exec :: "('s cached \<Rightarrow> 'a \<times> 's cached) \<Rightarrow> ('s cached, 'a option) state" where
  "redis_exec f = State (\<lambda>c. case redis_script c of
     [] \<Rightarrow> (Some (fst (f c)), snd (f c))
   | flt # rest \<Rightarrow> (let c = c\<lparr>redis_script := rest\<rparr> in case flt of
       Delivered \<Rightarrow> (Some (fst (f c)), snd (f c))
     | Lost_request \<Rightarrow> (None, c)
     | Lost_reply \<Rightarrow> (None, snd (f c))))"

definition live :: "time \<Rightarrow> ('v \<times> time) option \<Rightarrow> 'v option" where
  "live now entry = (case entry of None \<Rightarrow> None | Some (v, expires) \<Rightarrow> if now < expires then Some v else None)"

definition on_underlying :: "('s, 'a) state \<Rightarrow> ('s cached, 'a) state" where
  "on_underlying m = State (\<lambda>c. case run_state m (underlying c) of (x, s) \<Rightarrow> (x, c\<lparr>underlying := s\<rparr>))"

definition Marshal_job :: "job \<Rightarrow> err + job" where
  "Marshal_job j = (case json_Marshal (job_Payload j) of Inl e \<Rightarrow> Inl e | Inr _ \<Rightarrow> Inr j)"

definition Marshal_run :: "JobRun \<Rightarrow> err + JobRun" where
  "Marshal_run r = (case json_Marshal (run_Result r) of Inl e \<Rightarrow> Inl e | Inr _ \<Rightarrow> Inr (run_json r))"

text \<open>
  The body that \<open>GetJob\<close> and \<open>GetRun\<close> have in common: look the key up, and on a miss, an error or bytes that do not decode
  fetch from the underlying store and, if there is something to \<open>save\<close>, store it.
\<close>

definition cache_aside ::
  "('s cached \<Rightarrow> (err + 'v) option) \<Rightarrow> ('s, err + 'v) state \<Rightarrow> ('v \<Rightarrow> ('s cached \<Rightarrow> 's cached) option) \<Rightarrow> ('s cached, err + 'v) state" where
  "cache_aside lookup fetch save = do {
     hit \<leftarrow> redis_exec (\<lambda>c. (lookup c, c));
     case hit of
       Some (Some (Inr v)) \<Rightarrow> ok v
     | _ \<Rightarrow> do {
         r \<leftarrow> on_underlying fetch;
         case r of
           Inl e \<Rightarrow> fail e
         | Inr v \<Rightarrow> (case save v of
             None \<Rightarrow> ok v
           | Some store_it \<Rightarrow> do { _ \<leftarrow> redis_exec (\<lambda>c. ((), store_it c)); ok v }) } }"

definition cached_GetJob :: "'s store_api \<Rightarrow> string \<Rightarrow> ('s cached, err + job) state" where
  "cached_GetJob st i = (let key = jobKeyPrefix @ i in
     cache_aside (\<lambda>c. live (redis_clock c) (redis_jobs c key)) (api_GetJob st i)
       (\<lambda>job. case Marshal_job job of
          Inl _ \<Rightarrow> None
        | Inr raw \<Rightarrow> Some (\<lambda>c. c\<lparr>redis_jobs := (redis_jobs c)(key \<mapsto> (Inr raw, redis_clock c + jobTTL))\<rparr>)))"

definition cached_UpdateJobStatus :: "'s store_api \<Rightarrow> string \<Rightarrow> job_status \<Rightarrow> ('s cached, err + unit) state" where
  "cached_UpdateJobStatus st i status = check_err (on_underlying (api_UpdateJobStatus st i status)) (\<lambda>_. do {
     _ \<leftarrow> redis_exec (\<lambda>c. ((), c\<lparr>redis_jobs := (redis_jobs c)(jobKeyPrefix @ i := None)\<rparr>));
     ok () })"

definition cached_GetRun :: "'s store_api \<Rightarrow> string \<Rightarrow> ('s cached, err + JobRun) state" where
  "cached_GetRun st i = (let key = runKeyPrefix @ i in
     cache_aside (\<lambda>c. live (redis_clock c) (redis_runs c key)) (api_GetRun st i)
       (\<lambda>run. if run_Status run = RunStatusSucceeded \<or> run_Status run = RunStatusDead
          then (case Marshal_run run of
            Inl _ \<Rightarrow> None
          | Inr raw \<Rightarrow> Some (\<lambda>c. c\<lparr>redis_runs := (redis_runs c)(key \<mapsto> (Inr raw, redis_clock c + runTTL))\<rparr>))
          else None))"

text \<open>\<open>Wrap\<close>: the three methods above, and every other method of the embedded store as it is.\<close>

definition Wrap :: "'s store_api \<Rightarrow> 's cached store_api" where
  "Wrap st = \<lparr>api_CreateJob = (\<lambda>i. on_underlying (api_CreateJob st i)), api_GetJob = cached_GetJob st,
     api_GetJobByIdempotencyKey = (\<lambda>k. on_underlying (api_GetJobByIdempotencyKey st k)),
     api_ListJobs = (\<lambda>s l off. on_underlying (api_ListJobs st s l off)), api_UpdateJobStatus = cached_UpdateJobStatus st,
     api_ListDependencies = (\<lambda>j. on_underlying (api_ListDependencies st j)),
     api_LatestRunForJob = (\<lambda>j. on_underlying (api_LatestRunForJob st j)),
     api_HasActiveRun = (\<lambda>j. on_underlying (api_HasActiveRun st j)),
     api_CreateRun = (\<lambda>j p t. on_underlying (api_CreateRun st j p t)),
     api_LeaseNextRun = (\<lambda>x d. on_underlying (api_LeaseNextRun st x d)),
     api_ExtendLease = (\<lambda>r x d. on_underlying (api_ExtendLease st r x d)),
     api_MarkRunning = (\<lambda>r. on_underlying (api_MarkRunning st r)),
     api_CompleteRun = (\<lambda>r m. on_underlying (api_CompleteRun st r m)),
     api_FailRun = (\<lambda>r m rq bo. on_underlying (api_FailRun st r m rq bo)),
     api_MarkDead = (\<lambda>r m. on_underlying (api_MarkDead st r m)),
     api_ReclaimExpiredLeases = on_underlying (api_ReclaimExpiredLeases st), api_GetRun = cached_GetRun st,
     api_ListJobRuns = (\<lambda>j l. on_underlying (api_ListJobRuns st j l)),
     api_CountPendingRuns = on_underlying (api_CountPendingRuns st),
     api_UpsertWorkerHeartbeat = (\<lambda>x h. on_underlying (api_UpsertWorkerHeartbeat st x h)),
     api_ListWorkers = on_underlying (api_ListWorkers st)\<rparr>"

lemma Wrap_simps:
  "api_CreateJob (Wrap st) = (\<lambda>i. on_underlying (api_CreateJob st i))" "api_GetJob (Wrap st) = cached_GetJob st"
  "api_GetJobByIdempotencyKey (Wrap st) = (\<lambda>k. on_underlying (api_GetJobByIdempotencyKey st k))"
  "api_ListJobs (Wrap st) = (\<lambda>s l off. on_underlying (api_ListJobs st s l off))"
  "api_UpdateJobStatus (Wrap st) = cached_UpdateJobStatus st" "api_GetRun (Wrap st) = cached_GetRun st"
  "api_ListJobRuns (Wrap st) = (\<lambda>j l. on_underlying (api_ListJobRuns st j l))"
  "api_ListWorkers (Wrap st) = on_underlying (api_ListWorkers st)"
  by (simp_all add: Wrap_def)

lemma prefixes_disjoint: "jobKeyPrefix @ i \<noteq> runKeyPrefix @ j"
  by (simp add: jobKeyPrefix_def runKeyPrefix_def)

subsection \<open>Commands\<close>

lemma redis_exec_up: "redis_script c = [] \<Longrightarrow> run_state (redis_exec f) c = (Some (fst (f c)), snd (f c))"
  by (simp add: redis_exec_def)

lemma redis_exec_cases:
  assumes "run_state (redis_exec f) c = (x, c')"
  shows "\<exists>scr. (x = None \<or> x = Some (fst (f (c\<lparr>redis_script := scr\<rparr>)))) \<and>
    (c' = c\<lparr>redis_script := scr\<rparr> \<or> c' = snd (f (c\<lparr>redis_script := scr\<rparr>)))"
proof (cases "redis_script c")
  case Nil
  moreover have "c = c\<lparr>redis_script := redis_script c\<rparr>" by simp
  ultimately show ?thesis using assms redis_exec_up [of c f] by (metis prod.inject)
next
  case (Cons flt rest)
  then show ?thesis using assms by (intro exI [of _ rest], cases flt) (auto simp: redis_exec_def Let_def)
qed

lemma run_on_underlying:
  "run_state (on_underlying m) c = (fst (run_state m (underlying c)), c\<lparr>underlying := snd (run_state m (underlying c))\<rparr>)"
  by (simp add: on_underlying_def split: prod.splits)

lemma cached_UpdateJobStatus_cases:
  assumes "run_state (cached_UpdateJobStatus st i s) c = (r, c')"
  shows "redis_clock c' = redis_clock c \<and> redis_runs c' = redis_runs c \<and>
    (redis_jobs c' = redis_jobs c \<or> redis_jobs c' = (redis_jobs c)(jobKeyPrefix @ i := None))"
  using assms
  by (auto simp: cached_UpdateJobStatus_def run_check_err run_on_underlying split: sum.splits prod.splits dest!: redis_exec_cases)

definition demo_cache :: "world cached" where
  "demo_cache = \<lparr>underlying = demo_world demo_db 2, redis_jobs = (\<lambda>_. None), redis_runs = (\<lambda>_. None), redis_clock = 0, redis_script = []\<rparr>"

subsection \<open>A cache in front of the same store\<close>

text \<open>Without faults of Redis a read is evaluated as follows.\<close>

lemma cache_aside_up:
  assumes "redis_script c = []"
  shows "run_state (cache_aside lookup fetch save) c = (case lookup c of
      Some (Inr v) \<Rightarrow> (Inr v, c)
    | _ \<Rightarrow> (case run_state fetch (underlying c) of
        (Inl e, s) \<Rightarrow> (Inl e, c\<lparr>underlying := s\<rparr>)
      | (Inr v, s) \<Rightarrow> (Inr v, case save v of None \<Rightarrow> c\<lparr>underlying := s\<rparr> | Some store_it \<Rightarrow> store_it (c\<lparr>underlying := s\<rparr>))))"
  using assms
  by (auto simp: cache_aside_def redis_exec_up run_on_underlying split: option.splits sum.splits prod.splits)

lemma on_underlying_ret: "on_underlying (ret x) = ret x"
  by (rule state_ext) (simp add: run_on_underlying)

lemma on_underlying_bind: "on_underlying (State_Monad.bind m f) = State_Monad.bind (on_underlying m) (\<lambda>x. on_underlying (f x))"
  by (rule state_ext) (simp add: run_on_underlying split: prod.splits)

lemma on_underlying_cases:
  "on_underlying (case r of Inl e \<Rightarrow> f e | Inr x \<Rightarrow> g x) = (case r of Inl e \<Rightarrow> on_underlying (f e) | Inr x \<Rightarrow> on_underlying (g x))"
  "on_underlying (case q of None \<Rightarrow> a | Some y \<Rightarrow> h y) = (case q of None \<Rightarrow> on_underlying a | Some y \<Rightarrow> on_underlying (h y))"
  "on_underlying (if b then a else a') = (if b then on_underlying a else on_underlying a')"
  by (simp_all split: sum.splits option.splits)

text \<open>The handlers that only use methods the cache passes through.\<close>

lemma passed_through:
  "createJob (Wrap st) cron decoded = on_underlying (createJob st cron decoded)"
  "listJobs (Wrap st) status limit offset = on_underlying (listJobs st status limit offset)"
  "listJobRuns (Wrap st) j limit = on_underlying (listJobRuns st j limit)"
  "listWorkers (Wrap st) = on_underlying (listWorkers st)"
  by (simp_all add: createJob_def listJobs_def listJobRuns_def listWorkers_def Wrap_simps Let_def on_underlying_bind
      on_underlying_ret on_underlying_cases cong: if_cong sum.case_cong option.case_cong)

definition coherent :: "world cached \<Rightarrow> bool" where
  "coherent c \<longleftrightarrow>
     (\<forall>i v. live (redis_clock c) (redis_jobs c (jobKeyPrefix @ i)) = Some v \<longrightarrow>
        (\<exists>row\<in>set (jobs (primary (underlying c))). job_ID row = i \<and> v = Inr (job_view (primary (underlying c)) row))) \<and>
     (\<forall>i v. live (redis_clock c) (redis_runs c (runKeyPrefix @ i)) = Some v \<longrightarrow>
        (\<exists>row\<in>set (job_runs (primary (underlying c))). run_ID row = i \<and> v = Inr (run_json (run_view row))))"

definition same_views :: "db \<Rightarrow> db \<Rightarrow> bool" where
  "same_views d d' \<longleftrightarrow> (\<forall>row\<in>set (jobs d). row \<in> set (jobs d') \<and> job_view d' row = job_view d row) \<and> set (job_runs d) \<subseteq> set (job_runs d')"

lemma coherent_same_views:
  "coherent c \<Longrightarrow> same_views (primary (underlying c)) (primary w) \<Longrightarrow> coherent (c\<lparr>underlying := w\<rparr>)"
  by (fastforce simp: coherent_def same_views_def)

lemma same_views_refl: "same_views d d"
  by (simp add: same_views_def)

lemma same_views_created:
  assumes "integrity d" and "job_insertable row d"
  shows "same_views d (created_db row us d)"
proof -
  have "deps_of (job_ID r) (created_db row us d) = deps_of (job_ID r) d" if "r \<in> set (jobs d)" for r
    using that assms(2) by (auto simp: deps_of_def created_db_def job_insertable_def filter_empty_conv)
  then show ?thesis by (auto simp: same_views_def job_view_def created_db_def)
qed

end
