(* ===== verification/Cache_Props.thy ===== *)
theory Cache_Props
  imports Cache
begin

definition in_step :: "world cached \<Rightarrow> bool" where
  "in_step c \<longleftrightarrow> good (underlying c) \<and> coherent c \<and> redis_script c = []"

text \<open>\<open>m'\<close> over the cache answers like \<open>m\<close> over the store and leaves the two in step.\<close>

definition follows :: "(world cached, 'a) state \<Rightarrow> (world, 'a) state \<Rightarrow> world cached \<Rightarrow> bool" where
  "follows m' m c \<longleftrightarrow> fst (run_state m' c) = fst (run_state m (underlying c)) \<and>
     underlying (snd (run_state m' c)) = snd (run_state m (underlying c)) \<and> in_step (snd (run_state m' c))"

definition canonical :: "world \<Rightarrow> string \<Rightarrow> bool" where
  "canonical w i \<longleftrightarrow> (\<forall>u. uuid_in w i = Some u \<longrightarrow> u = i)"

lemma follows_ret: "in_step c \<Longrightarrow> follows (ret x) (ret x) c"
  by (simp add: follows_def)

lemma follows_bind:
  assumes "follows m' m c" and "\<And>x c1. fst (run_state m (underlying c)) = x \<Longrightarrow> snd (run_state m' c) = c1 \<Longrightarrow>
      underlying c1 = snd (run_state m (underlying c)) \<Longrightarrow> in_step c1 \<Longrightarrow> follows (f' x) (f x) c1"
  shows "follows (State_Monad.bind m' f') (State_Monad.bind m f) c"
  using assms by (auto simp: follows_def split: prod.splits)

lemma follows_underlying:
  assumes "in_step c" and "good (snd (run_state m (underlying c)))"
    and "same_views (primary (underlying c)) (primary (snd (run_state m (underlying c))))"
  shows "follows (on_underlying m) m c"
  using assms coherent_same_views by (simp add: follows_def in_step_def run_on_underlying)

lemma cached_GetJob_follows:
  assumes "in_step c" and "canonical (underlying c) i"
  shows "follows (cached_GetJob pg_store i) (GetJob i) c"
proof -
  let ?w = "underlying c"
  have good: "good ?w" and coh: "coherent c" and up: "redis_script c = []" using assms(1) by (simp_all add: in_step_def)
  note get = GetJob_good [OF good, of i]
  show ?thesis
  proof (cases "live (redis_clock c) (redis_jobs c (jobKeyPrefix @ i))")
    case (Some v)
    then obtain row where row: "row \<in> set (jobs (primary ?w))" "job_ID row = i" "v = Inr (job_view (primary ?w) row)"
      using coh unfolding coherent_def by blast
    then have "uuid_in ?w i = Some i" using good_uuid [OF good] job_in_exists by blast
    moreover have "List.find (\<lambda>r. job_ID r = i) (jobs (primary ?w)) = Some row"
      using find_key [OF integrity_jobs [OF good_fields(4) [OF good]] row(1)] row(2) by simp
    ultimately have "run_state (GetJob i) ?w = (v, ?w)" using get row(3) by simp
    then show ?thesis using Some row(3) assms(1)
      by (simp add: follows_def cached_GetJob_def Let_def cache_aside_up [OF up])
  next
    case None
    obtain r where r: "run_state (GetJob i) ?w = (r, ?w)" using get by simp
    have entry: "\<exists>row\<in>set (jobs (primary ?w)). job_ID row = i \<and> j = job_view (primary ?w) row" if "r = Inr j" for j
      using get r that assms(2) by (auto simp: canonical_def split: option.splits dest: find_SomeD)
    show ?thesis
    proof (cases r)
      case (Inl e)
      then show ?thesis using None r assms(1) by (simp add: follows_def cached_GetJob_def Let_def cache_aside_up [OF up])
    next
      case (Inr j)
      have "coherent (c\<lparr>redis_jobs := (redis_jobs c)(jobKeyPrefix @ i \<mapsto> (Inr j, redis_clock c + jobTTL))\<rparr>)"
        using coh entry [OF Inr] by (auto simp: coherent_def live_def)
      then show ?thesis using None r Inr good up coh
        by (auto simp: follows_def cached_GetJob_def Let_def cache_aside_up [OF up] in_step_def Marshal_job_def split: sum.splits)
    qed
  qed
qed

lemma cached_UpdateJobStatus_follows:
  assumes "in_step c" and "canonical (underlying c) i"
  shows "follows (cached_UpdateJobStatus pg_store i s) (UpdateJobStatus i s) c"
proof -
  let ?w = "underlying c"
  have good: "good ?w" and coh: "coherent c" and up: "redis_script c = []" using assms(1) by (simp_all add: in_step_def)
  show ?thesis
  proof (cases "uuid_in ?w i")
    case None
    then show ?thesis using UpdateJobStatus_malformed [OF good] assms(1)
      by (simp add: follows_def cached_UpdateJobStatus_def run_check_err run_on_underlying)
  next
    case (Some u)
    then have u: "u = i" using assms(2) by (simp add: canonical_def)
    let ?w' = "write_db (\<lambda>d. d\<lparr>jobs := update_where (\<lambda>r. job_ID r = i)
       (\<lambda>r. r\<lparr>job_Status := s, job_UpdatedAt := clock ?w\<rparr>) (jobs d)\<rparr>) ?w"
    have run: "run_state (UpdateJobStatus i s) ?w = (if job_exists i (primary ?w) then Inr () else Inl ErrNotFound, ?w')"
      using UpdateJobStatus_good [OF good Some [unfolded u], of s] .
    have good': "good ?w'" by (rule good_store(2) [OF good run])
    have kept: "row \<in> set (jobs (primary ?w')) \<and> job_view (primary ?w') row = job_view (primary ?w) row"
      if "row \<in> set (jobs (primary ?w))" "job_ID row \<noteq> i" for row
      using that by (auto simp: write_db_def in_update_where job_view_def deps_of_def)
    have runs: "job_runs (primary ?w') = job_runs (primary ?w)" by (simp add: write_db_def)
    show ?thesis
    proof (cases "job_exists i (primary ?w)")
      case True
      have "coherent (c\<lparr>underlying := ?w', redis_jobs := (redis_jobs c)(jobKeyPrefix @ i := None)\<rparr>)"
        unfolding coherent_def using coh kept by (auto simp: coherent_def runs live_def) fastforce
      then show ?thesis using True run good' up
        by (simp add: follows_def cached_UpdateJobStatus_def run_check_err run_on_underlying redis_exec_up in_step_def)
    next
      case False
      have "same_views (primary ?w) (primary ?w')"
        unfolding same_views_def runs using kept False by (auto simp: job_exists_def)
      then show ?thesis using False run good' up coherent_same_views [OF coh]
        by (simp add: follows_def cached_UpdateJobStatus_def run_check_err run_on_underlying in_step_def)
    qed
  qed
qed

lemma cached_GetRun_follows:
  assumes "in_step c" and "canonical (underlying c) i"
  shows "follows (getRun (Wrap pg_store) i) (getRun pg_store i) c"
proof -
  let ?w = "underlying c"
  have good: "good ?w" and coh: "coherent c" and up: "redis_script c = []" using assms(1) by (simp_all add: in_step_def)
  note get = GetRun_good [OF good, of i]
  show ?thesis
  proof (cases "live (redis_clock c) (redis_runs c (runKeyPrefix @ i))")
    case (Some v)
    then obtain row where row: "row \<in> set (job_runs (primary ?w))" "run_ID row = i" "v = Inr (run_json (run_view row))"
      using coh unfolding coherent_def by blast
    then have "uuid_in ?w i = Some i" using good_uuid [OF good] run_in_exists by blast
    moreover have "List.find (\<lambda>r. run_ID r = i) (job_runs (primary ?w)) = Some row"
      using find_key [OF integrity_runs [OF good_fields(4) [OF good]] row(1)] row(2) by simp
    ultimately have "run_state (GetRun i) ?w = (Inr (run_view row), ?w)" using get by simp
    then show ?thesis using Some row(3) assms(1)
      by (simp add: follows_def getRun_def Wrap_simps cached_GetRun_def Let_def cache_aside_up [OF up] writeJSON_def)
  next
    case None
    obtain r where r: "run_state (GetRun i) ?w = (r, ?w)" using get by simp
    have entry: "\<exists>row\<in>set (job_runs (primary ?w)). run_ID row = i \<and> q = run_view row" if "r = Inr q" for q
      using get r that assms(2) by (auto simp: canonical_def split: option.splits dest: find_SomeD)
    show ?thesis
    proof (cases r)
      case (Inl e)
      then show ?thesis using None r assms(1)
        by (simp add: follows_def getRun_def Wrap_simps cached_GetRun_def Let_def cache_aside_up [OF up])
    next
      case (Inr q)
      have "coherent (c\<lparr>redis_runs := (redis_runs c)(runKeyPrefix @ i \<mapsto> (Inr (run_json q), redis_clock c + runTTL))\<rparr>)"
        using coh entry [OF Inr] by (auto simp: coherent_def live_def)
      then show ?thesis using None r Inr good up coh
        by (auto simp: follows_def getRun_def Wrap_simps cached_GetRun_def Let_def cache_aside_up [OF up] in_step_def Marshal_run_def
            split: sum.splits)
    qed
  qed
qed

lemma in_step_read:
  assumes "in_step c" and "good (snd (run_state m (underlying c)))" and "io_rel (\<lambda>w w'. primary w' = primary w) m"
  shows "follows (on_underlying m) m c"
  using assms(3) by (intro follows_underlying [OF assms(1,2)]) (simp add: io_rel_def same_views_refl)

lemma good_reads:
  "good w \<Longrightarrow> run_state (GetJobByIdempotencyKey key) w = (r1, w') \<Longrightarrow> good w'"
  "good w \<Longrightarrow> run_state (ListJobs s l off) w = (r2, w') \<Longrightarrow> good w'"
  "good w \<Longrightarrow> run_state (ListJobRuns j l) w = (r3, w') \<Longrightarrow> good w'"
  "good w \<Longrightarrow> run_state ListWorkers w = (r4, w') \<Longrightarrow> good w'"
  by (erule (1) good_kept; rule frame_store closed_store schema.keeps_store ids.keeps_store)+

lemma good_handlers:
  "keeps good (createJob pg_store cron decoded)" "keeps good (listJobs pg_store status limit offset)"
  "keeps good (listJobRuns pg_store j limit)" "keeps good (listWorkers pg_store)"
proof -
  have ops: "keeps good (CreateJob i)" "keeps good (GetJobByIdempotencyKey key)" "keeps good (ListJobs s l off)"
    "keeps good (ListJobRuns j l)" "keeps good ListWorkers" for i key s l off j
    by (auto intro!: io_relI dest: good_store(1) good_reads simp: surjective_pairing [symmetric]
        elim: good_store(1) [OF _ surjective_pairing] good_reads [OF _ surjective_pairing])
  show "keeps good (createJob pg_store cron decoded)" "keeps good (listJobs pg_store status limit offset)"
    "keeps good (listJobRuns pg_store j limit)" "keeps good (listWorkers pg_store)"
    unfolding createJob_def listJobs_def listJobRuns_def listWorkers_def pg_store_simps
    by (intro keep.io_body ops)+
qed

lemma read_handlers:
  "io_rel (\<lambda>w w'. primary w' = primary w) (listJobs pg_store status limit offset)"
  "io_rel (\<lambda>w w'. primary w' = primary w) (listJobRuns pg_store j limit)"
  "io_rel (\<lambda>w w'. primary w' = primary w) (listWorkers pg_store)"
  unfolding listJobs_def listJobRuns_def listWorkers_def pg_store_simps by (intro tabs.io_body store_reads)+

lemma createJob_same_views:
  assumes "good w"
  shows "same_views (primary w) (primary (snd (run_state (createJob pg_store cron decoded) w)))"
proof (cases "\<exists>i. decoded = Inr i \<and> acceptable cron i")
  case False
  then show ?thesis using createJob_unacceptable [of decoded cron pg_store w] same_views_refl by auto
next
  case True
  then obtain i where i: "decoded = Inr i" "acceptable cron i" by blast
  obtain resp w' where run: "run_state (createJob pg_store cron (Inr i)) w = (resp, w')"
    by (cases "run_state (createJob pg_store cron (Inr i)) w")
  have closed: "tx_closed w" and intg: "integrity (primary w)" using assms by (simp_all add: good_def wf_world_def)
  from createJob_cases [OF i(2) run closed] have "same_views (primary w) (primary w')"
  proof (elim disjE exE conjE)
    fix w1 r assume w1: "primary w1 = primary w" "tx_closed w1" "run_state (CreateJob (with_defaults i)) w1 = (r, w')"
    from CreateJob_cases [OF w1(2,3)] show ?thesis unfolding w1(1)
      by (elim disjE exE conjE) (simp_all add: same_views_refl same_views_created [OF intg])
  qed (simp add: same_views_refl)
  then show ?thesis using run i(1) by simp
qed

fun route_id :: "route \<Rightarrow> string option" where
  "route_id (GET_job i) = Some i"
| "route_id (POST_job_pause i) = Some i"
| "route_id (POST_job_resume i) = Some i"
| "route_id (GET_run i) = Some i"
| "route_id _ = None"

lemma frame_handlers:
  "io_rel env_frame (createJob pg_store cron decoded)" "io_rel env_frame (listJobs pg_store status limit offset)"
  "io_rel env_frame (getJob pg_store i)" "io_rel env_frame (updateJobStatus pg_store i s)"
  "io_rel env_frame (listJobRuns pg_store i limit)" "io_rel env_frame (getRun pg_store i)" "io_rel env_frame (listWorkers pg_store)"
  unfolding createJob_def listJobs_def getJob_def updateJobStatus_def listJobRuns_def getRun_def listWorkers_def pg_store_simps
  by (intro frame.io_body frame_store)+

lemma frame_dispatch: "io_rel env_frame (dispatch pg_store cron rt)"
  by (cases rt) (simp_all add: frame_handlers pauseJob_def resumeJob_def)

lemma getJob_follows:
  assumes "in_step c" and "canonical (underlying c) i"
  shows "follows (getJob (Wrap pg_store) i) (getJob pg_store i) c"
  unfolding getJob_def Wrap_simps pg_store_simps
  by (intro follows_bind [OF cached_GetJob_follows [OF assms]] follows_ret)

lemma updateJobStatus_follows:
  assumes "in_step c" and "canonical (underlying c) i"
  shows "follows (updateJobStatus (Wrap pg_store) i s) (updateJobStatus pg_store i s) c"
  unfolding updateJobStatus_def Wrap_simps pg_store_simps
proof (rule follows_bind [OF cached_UpdateJobStatus_follows [OF assms]])
  fix u c1 assume c1: "underlying c1 = snd (run_state (UpdateJobStatus i s) (underlying c))" and step: "in_step c1"
  have "uuid_in (underlying c1) = uuid_in (underlying c)"
    using io_relD [OF frame_writes(1) surjective_pairing] unfolding c1 by (simp add: env_frame_def)
  then have "canonical (underlying c1) i" using assms(2) by (simp add: canonical_def)
  then have "follows (do { r \<leftarrow> cached_GetJob pg_store i; ret (case r of Inl _ \<Rightarrow> serverError | Inr job \<Rightarrow> writeJSON 200 (BJob job)) })
      (do { r \<leftarrow> GetJob i; ret (case r of Inl _ \<Rightarrow> serverError | Inr job \<Rightarrow> writeJSON 200 (BJob job)) }) c1"
    by (intro follows_bind [OF cached_GetJob_follows [OF step]] follows_ret)
  then show "follows (case u of Inl e \<Rightarrow> ret (if errors_Is e ErrNotFound then writeError 404 ''job not found'' else serverError)
      | Inr _ \<Rightarrow> do { r \<leftarrow> cached_GetJob pg_store i; ret (case r of Inl _ \<Rightarrow> serverError | Inr job \<Rightarrow> writeJSON 200 (BJob job)) })
     (case u of Inl e \<Rightarrow> ret (if errors_Is e ErrNotFound then writeError 404 ''job not found'' else serverError)
      | Inr _ \<Rightarrow> do { r \<leftarrow> GetJob i; ret (case r of Inl _ \<Rightarrow> serverError | Inr job \<Rightarrow> writeJSON 200 (BJob job)) }) c1"
    using follows_ret [OF step, of "writeError 404 ''job not found''"] follows_ret [OF step, of serverError] by (cases u) simp_all
qed

lemma dispatch_follows:
  assumes "in_step c" and "\<And>i. route_id rt = Some i \<Longrightarrow> canonical (underlying c) i"
  shows "follows (dispatch (Wrap pg_store) cron rt) (dispatch pg_store cron rt) c"
proof -
  have good: "good (underlying c)" using assms(1) by (simp add: in_step_def)
  show ?thesis
  proof (cases rt)
    case (POST_jobs decoded)
    then show ?thesis
      using follows_underlying [OF assms(1) keeps_snd [OF good_handlers(1) good] createJob_same_views [OF good]]
      by (simp add: passed_through)
  next
    case (GET_jobs status l off)
    then show ?thesis using in_step_read [OF assms(1) keeps_snd [OF good_handlers(2) good] read_handlers(1)]
      by (simp add: passed_through)
  next
    case (GET_job_runs j l)
    then show ?thesis using in_step_read [OF assms(1) keeps_snd [OF good_handlers(3) good] read_handlers(2)]
      by (simp add: passed_through)
  next
    case GET_workers
    then show ?thesis using in_step_read [OF assms(1) keeps_snd [OF good_handlers(4) good] read_handlers(3)]
      by (simp add: passed_through)
  qed (use assms getJob_follows updateJobStatus_follows cached_GetRun_follows in \<open>simp_all add: pauseJob_def resumeJob_def\<close>)
qed

text \<open>Requests in turn, with time passing for Redis before each.\<close>

definition serve_cached :: "cron_lib \<Rightarrow> nat \<times> route \<Rightarrow> (world cached, response) state" where
  "serve_cached cron q = State (\<lambda>c.
     run_state (dispatch (Wrap pg_store) cron (snd q)) (c\<lparr>redis_clock := redis_clock c + int (fst q)\<rparr>))"

lemma live_later: "live (t + int dt) e = Some v \<Longrightarrow> live t e = Some v"
  by (auto simp: live_def split: option.splits if_splits)

lemma in_step_later: "in_step c \<Longrightarrow> in_step (c\<lparr>redis_clock := redis_clock c + int dt\<rparr>)"
  unfolding in_step_def coherent_def by (auto dest: live_later)

text \<open>
  C33. The cache is transparent to the API that owns it: with a Redis and a database without faults, no replica, nobody else
  writing, and clients that use the identifiers the API gave them, any sequence of requests, with any amount of time between
  them, is answered with the same statuses and bodies and has the same effect on the database as without the cache.
\<close>

theorem cache_transparent:
  assumes "good (underlying c)" and "coherent c" and "redis_script c = []"
    and "\<And>q i. q \<in> set qs \<Longrightarrow> route_id (snd q) = Some i \<Longrightarrow> canonical (underlying c) i"
  shows "fst (run_state (for_each (serve_cached cron) qs) c) = fst (run_state (for_each (\<lambda>q. dispatch pg_store cron (snd q)) qs) (underlying c)) \<and>
    underlying (snd (run_state (for_each (serve_cached cron) qs) c)) =
      snd (run_state (for_each (\<lambda>q. dispatch pg_store cron (snd q)) qs) (underlying c))"
proof -
  have "follows (for_each (serve_cached cron) qs) (for_each (\<lambda>q. dispatch pg_store cron (snd q)) qs) c"
    if "in_step c" "\<And>q i. q \<in> set qs \<Longrightarrow> route_id (snd q) = Some i \<Longrightarrow> canonical (underlying c) i" for qs c
    using that
  proof (induction qs arbitrary: c)
    case (Cons q qs)
    let ?c = "c\<lparr>redis_clock := redis_clock c + int (fst q)\<rparr>"
    have "follows (dispatch (Wrap pg_store) cron (snd q)) (dispatch pg_store cron (snd q)) ?c"
      by (rule dispatch_follows [OF in_step_later [OF Cons.prems(1)]]) (simp, meson Cons.prems(2) list.set_intros(1))
    then have one: "follows (serve_cached cron q) (dispatch pg_store cron (snd q)) c"
      by (simp add: follows_def serve_cached_def)
    show ?case unfolding for_each.simps
    proof (rule follows_bind [OF one], rule follows_bind [OF Cons.IH], assumption)
      fix x c1 p i assume c1: "underlying c1 = snd (run_state (dispatch pg_store cron (snd q)) (underlying c))"
        and p: "p \<in> set qs" "route_id (snd p) = Some i"
      have "uuid_in (underlying c1) = uuid_in (underlying c)"
        using io_relD [OF frame_dispatch surjective_pairing] unfolding c1 by (simp add: env_frame_def)
      then show "canonical (underlying c1) i" using Cons.prems(2) [of p i] p by (simp add: canonical_def)
    qed (rule follows_ret)
  qed (simp add: follows_ret)
  from this [of c qs] assms show ?thesis by (simp add: follows_def in_step_def)
qed


theorem cache_transparent_witness:
  "fst (run_state (for_each (serve_cached (\<lambda>_. Inl ErrJSON))
      [(0, GET_job (demo_uuid 0)), (1, POST_job_pause (demo_uuid 0)), (1, GET_job (demo_uuid 0))]) demo_cache) =
   fst (run_state (for_each (\<lambda>q. dispatch pg_store (\<lambda>_. Inl ErrJSON) (snd q))
      [(0::nat, GET_job (demo_uuid 0)), (1, POST_job_pause (demo_uuid 0)), (1, GET_job (demo_uuid 0))]) (demo_world demo_db 2))"
proof -
  have "canonical (demo_world demo_db 2) i" for i by (simp add: canonical_def demo_uuid_in_def)
  then show ?thesis
    using cache_transparent [of demo_cache "[(0, GET_job (demo_uuid 0)), (1, POST_job_pause (demo_uuid 0)), (1, GET_job (demo_uuid 0))]"
        "\<lambda>_. Inl ErrJSON"]
    by (simp add: demo_cache_def good_demo coherent_def live_def)
qed

subsection \<open>A cache over a lagging replica\<close>

lemma GetJob_replica:
  assumes "script w = []" and "replica w = Some d" and "integrity d" and "uuid_in w i = Some i"
    and "row \<in> set (jobs d)" and "job_ID row = i"
  shows "run_state (GetJob i) w = (Inr (job_view d row), w)"
proof -
  have "List.find (\<lambda>r. job_ID r = i) (jobs d) = Some row"
    using find_key [OF integrity_jobs [OF assms(3)] assms(5)] assms(6) by simp
  moreover have "json_Unmarshal (job_Payload row) = Inr (decode (job_Payload row))"
    by (rule Unmarshal_decode [OF integrity_payload [OF assms(3,5)]])
  ultimately show ?thesis using assms
    by (simp add: GetJob_def readPool_def querier_db_def fetchJob_def scanJobRow_def fetchDependencies_sane db_simps row_result_def wrap_err_def
        job_view_def)
qed

lemma Marshal_view:
  assumes "integrity d" and "row \<in> set (jobs d)"
  shows "Marshal_job (job_view d row) = Inr (job_view d row)"
  using json_column_Unmarshal [OF integrity_payload [OF assms]]
  by (auto simp: Marshal_job_def job_view_def job_of_row_def decode_def)

text \<open>
  With a read replica (\<open>REPLICA_DATABASE_URL\<close>) the invalidation does not keep the promise of the caching section of
  \<open>docs/ARCHITECTURE.md\<close>, that a read after a pause is never a stale active job: \<open>updateJobStatus\<close> reads the job back through the
  cache, the miss is served by the replica, and the replica's old row is answered and stored. Then every read of the next 30
  seconds returns that row, even when the replica has caught up.
\<close>

theorem cached_replica_stale_pause:
  assumes "redis_script c = []" and "script (underlying c) = []" and "uuid_in (underlying c) i = Some i"
    and "job_exists i (primary (underlying c))"
    and "replica (underlying c) = Some d" and "integrity d" and "row \<in> set (jobs d)" and "job_ID row = i"
  shows "\<exists>c'. run_state (pauseJob (Wrap pg_store) i) c = (writeJSON 200 (BJob (job_view d row)), c') \<and>
    (\<forall>x\<in>set (jobs (primary (underlying c'))). job_ID x = i \<longrightarrow> job_Status x = JobStatusPaused) \<and>
    (\<forall>t w. t < redis_clock c + jobTTL \<longrightarrow>
       fst (run_state (cached_GetJob pg_store i) (c'\<lparr>underlying := w, redis_clock := t\<rparr>)) = Inr (job_view d row))"
proof -
  let ?paused = "\<lambda>r. r\<lparr>job_Status := JobStatusPaused, job_UpdatedAt := sql_now (underlying c)\<rparr>"
  let ?w = "write_db (\<lambda>d. d\<lparr>jobs := update_where (\<lambda>r. job_ID r = i) ?paused (jobs d)\<rparr>) (underlying c)"
  let ?c = "c\<lparr>underlying := ?w, redis_jobs := (redis_jobs c)(jobKeyPrefix @ i := None)\<rparr>"
  let ?c' = "c\<lparr>underlying := ?w, redis_jobs := (redis_jobs c)(jobKeyPrefix @ i \<mapsto> (Inr (job_view d row), redis_clock c + jobTTL))\<rparr>"
  have "rows_affected (\<lambda>r. job_ID r = i) (jobs (primary (underlying c))) \<noteq> 0"
    using assms(4) by (auto simp: rows_affected_eq_0 job_exists_def)
  then have "run_state (UpdateJobStatus i JobStatusPaused) (underlying c) = (Inr (), ?w)"
    using assms(2,3) by (simp add: UpdateJobStatus_def db_simps update_jobs_def)
  then have update: "run_state (cached_UpdateJobStatus pg_store i JobStatusPaused) c = (Inr (), ?c)"
    using assms(1) by (simp add: cached_UpdateJobStatus_def run_check_err run_on_underlying redis_exec_up)
  have "run_state (GetJob i) ?w = (Inr (job_view d row), ?w)"
    by (rule GetJob_replica [OF _ _ assms(6) _ assms(7,8)]) (use assms in \<open>simp_all add: write_db_def\<close>)
  then have get: "run_state (cached_GetJob pg_store i) ?c = (Inr (job_view d row), ?c')"
    using assms(1) Marshal_view [OF assms(6,7)] by (simp add: cached_GetJob_def Let_def cache_aside_up live_def)
  have "run_state (pauseJob (Wrap pg_store) i) c = (writeJSON 200 (BJob (job_view d row)), ?c')"
    using update get by (simp add: pauseJob_def updateJobStatus_def Wrap_simps)
  moreover have "job_Status x = JobStatusPaused" if x: "x \<in> set (jobs (primary ?w))" "job_ID x = i" for x
  proof -
    from x(1) obtain y where "x = (if job_ID y = i then ?paused y else y)" by (auto simp: write_db_def in_update_where)
    then show ?thesis using x(2) by (cases "job_ID y = i") simp_all
  qed
  moreover have "fst (run_state (cached_GetJob pg_store i) (?c'\<lparr>underlying := w, redis_clock := t\<rparr>)) = Inr (job_view d row)"
    if "t < redis_clock c + jobTTL" for t w
    using that assms(1) by (simp add: cached_GetJob_def Let_def cache_aside_up live_def)
  ultimately show ?thesis by (intro exI [of _ ?c']) simp
qed

text \<open>Only the spelling that was updated is invalidated: the same UUID in another spelling is another key.\<close>

theorem cached_alias_stale:
  assumes "i' \<noteq> i" and "live (redis_clock c) (redis_jobs c (jobKeyPrefix @ i')) = Some (Inr job)"
  shows "fst (run_state (cached_GetJob st i') ((snd (run_state (cached_UpdateJobStatus st i s) c))\<lparr>redis_script := []\<rparr>)) = Inr job"
proof -
  let ?c = "snd (run_state (cached_UpdateJobStatus st i s) c)"
  note eff = cached_UpdateJobStatus_cases [OF surjective_pairing, of st i s c]
  have "redis_clock ?c = redis_clock c" "redis_jobs ?c (jobKeyPrefix @ i') = redis_jobs c (jobKeyPrefix @ i')"
    using eff assms(1) by auto
  then show ?thesis using assms(2) by (simp add: cached_GetJob_def Let_def cache_aside_up)
qed

end
