(* ===== verification/Migrate.thy ===== *)
theory Migrate
  imports Model "HOL-Library.Char_ord" "HOL-Library.List_Lexorder"
begin

text \<open>
  \<open>src/internal/store/migrate.go\<close>. Every service calls \<open>RunMigrations\<close> when it starts, so several replicas
  may run it at the same time. It is modelled as the tree of the calls it makes (\<open>Call\<close> with the
  continuation for each reply), so that the same definition is run alone, by \<open>run_prog\<close>, and interleaved with
  other processes, by \<open>fleet_step\<close>. The state of the server is the catalogue that the migrations change, the table
  \<open>schema_migrations\<close> in insertion order (\<open>None\<close> when it does not exist), the working copy of each open transaction and the
  session that holds the advisory lock. What the SQL text of a migration does to the catalogue is the argument
  \<open>exec_sql\<close>: it runs inside the transaction and does not touch \<open>schema_migrations\<close>. The directory is an argument too.
\<close>

subsection \<open>The code\<close>

definition migrationLockKey :: int where
  "migrationLockKey = 727433002"

datatype stmt =
    Acquire | Release
  | AdvisoryLock int | AdvisoryUnlock int
  | CreateTable | SelectApplied string
  | Begin | ExecBody string | InsertVersion string | Commit | Rollback

datatype reply = Failed err | Reply bool

datatype prog = Return "err option" | Call stmt "reply \<Rightarrow> prog"

text \<open>\<open>if _, err := call; err != nil { ... }\<close>\<close>

definition call :: "stmt \<Rightarrow> (err \<Rightarrow> prog) \<Rightarrow> (bool \<Rightarrow> prog) \<Rightarrow> prog" where
  "call a on_err rest = Call a (\<lambda>r. case r of Failed e \<Rightarrow> on_err e | Reply b \<Rightarrow> rest b)"

record migrations_dir =
  ReadDir :: "err + (string \<times> bool) list"   \<comment> \<open>name and \<open>IsDir()\<close> of the entries\<close>
  ReadFile :: "string \<Rightarrow> err + string"

definition HasSuffix :: "string \<Rightarrow> string \<Rightarrow> bool" where
  "HasSuffix s suf \<longleftrightarrow> length suf \<le> length s \<and> drop (length s - length suf) s = suf"

definition sql_versions :: "(string \<times> bool) list \<Rightarrow> string list" where
  "sql_versions entries = sort (map fst (filter (\<lambda>e. \<not> (snd e \<or> \<not> HasSuffix (fst e) ''.sql'')) entries))"

text \<open>The deferred calls, in the order they run: the unlock, then \<open>conn.Release()\<close>.\<close>

definition released :: "err option \<Rightarrow> prog" where
  "released e = Call Release (\<lambda>_. Return e)"

definition unlocked :: "err option \<Rightarrow> prog" where
  "unlocked e = Call (AdvisoryUnlock migrationLockKey) (\<lambda>_. released e)"

definition rolled_back :: "err \<Rightarrow> prog" where
  "rolled_back e = Call Rollback (\<lambda>_. unlocked (Some e))"

fun apply_versions :: "(string \<Rightarrow> err + string) \<Rightarrow> string list \<Rightarrow> prog" where
  "apply_versions read_file [] = unlocked None"
| "apply_versions read_file (version # versions) =
     call (SelectApplied version) (\<lambda>e. unlocked (Some (ErrWrap (''check migration '' @ version) e))) (\<lambda>applied.
     if applied then apply_versions read_file versions
     else (case read_file version of
       Inl e \<Rightarrow> unlocked (Some (ErrWrap (''read migration '' @ version) e))
     | Inr body \<Rightarrow>
         call Begin (\<lambda>e. unlocked (Some (ErrWrap (''begin migration '' @ version) e))) (\<lambda>_.
         call (ExecBody body) (\<lambda>e. rolled_back (ErrWrap (''exec migration '' @ version) e)) (\<lambda>_.
         call (InsertVersion version) (\<lambda>e. rolled_back (ErrWrap (''record migration '' @ version) e)) (\<lambda>_.
         call Commit (\<lambda>e. unlocked (Some (ErrWrap (''commit migration '' @ version) e))) (\<lambda>_.
         apply_versions read_file versions))))))"

definition locked_body :: "migrations_dir \<Rightarrow> prog" where
  "locked_body dir =
     call CreateTable (\<lambda>e. unlocked (Some (ErrWrap ''create schema_migrations'' e))) (\<lambda>_.
     case ReadDir dir of
       Inl e \<Rightarrow> unlocked (Some (ErrWrap ''read migrations dir'' e))
     | Inr entries \<Rightarrow> apply_versions (ReadFile dir) (sql_versions entries))"

definition take_lock :: "migrations_dir \<Rightarrow> prog" where
  "take_lock dir = call (AdvisoryLock migrationLockKey) (\<lambda>e. released (Some (ErrWrap ''acquire migration lock'' e))) (\<lambda>_. locked_body dir)"

definition RunMigrations :: "migrations_dir \<Rightarrow> prog" where
  "RunMigrations dir = call Acquire (\<lambda>e. Return (Some (ErrWrap ''acquire migration lock connection'' e))) (\<lambda>_. take_lock dir)"

subsection \<open>The server, for one session\<close>

record 'd mig_db =
  catalog :: 'd
  schema_migrations :: "string list option"

text \<open>A session sees the committed state, or the working copy of its transaction.\<close>

type_synonym 'd sess = "'d mig_db \<times> 'd mig_db option"

definition current :: "'d sess \<Rightarrow> 'd mig_db" where
  "current s = (case snd s of None \<Rightarrow> fst s | Some w \<Rightarrow> w)"

definition change :: "('d mig_db \<Rightarrow> 'd mig_db) \<Rightarrow> 'd sess \<Rightarrow> 'd sess" where
  "change f s = (case snd s of None \<Rightarrow> (f (fst s), None) | Some w \<Rightarrow> (fst s, Some (f w)))"

fun sql_call :: "(string \<Rightarrow> 'd \<Rightarrow> err + 'd) \<Rightarrow> stmt \<Rightarrow> 'd sess \<Rightarrow> reply \<times> 'd sess" where
  "sql_call exec_sql CreateTable s =
     (Reply True, change (\<lambda>d. case schema_migrations d of None \<Rightarrow> d\<lparr>schema_migrations := Some []\<rparr> | Some _ \<Rightarrow> d) s)"
| "sql_call exec_sql (SelectApplied v) s = (case schema_migrations (current s) of
     None \<Rightarrow> (Failed (PgError ''42P01''), s)
   | Some vs \<Rightarrow> (Reply (v \<in> set vs), s))"
| "sql_call exec_sql Begin s = (Reply True, (fst s, Some (current s)))"
| "sql_call exec_sql (ExecBody body) s = (case exec_sql body (catalog (current s)) of
     Inl e \<Rightarrow> (Failed e, s)
   | Inr c \<Rightarrow> (Reply True, change (\<lambda>d. d\<lparr>catalog := c\<rparr>) s))"
| "sql_call exec_sql (InsertVersion v) s = (case schema_migrations (current s) of
     None \<Rightarrow> (Failed (PgError ''42P01''), s)
   | Some vs \<Rightarrow> if v \<in> set vs then (Failed (PgError ''23505''), s)
       else (Reply True, change (\<lambda>d. d\<lparr>schema_migrations := Some (vs @ [v])\<rparr>) s))"
| "sql_call exec_sql Commit s = (Reply True, (current s, None))"
| "sql_call exec_sql Rollback s = (Reply True, (fst s, None))"
| "sql_call exec_sql _ s = (Reply True, s)"

text \<open>\<open>RunMigrations\<close> run alone, every call answered.\<close>

primrec run_prog :: "(string \<Rightarrow> 'd \<Rightarrow> err + 'd) \<Rightarrow> prog \<Rightarrow> 'd sess \<Rightarrow> err option \<times> 'd sess" where
  "run_prog exec_sql (Return e) = (\<lambda>s. (e, s))"
| "run_prog exec_sql (Call a k) = (\<lambda>s. run_prog exec_sql (k (fst (sql_call exec_sql a s))) (snd (sql_call exec_sql a s)))"

lemma run_call [simp]:
  "run_prog exec_sql (call a f g) s = (case sql_call exec_sql a s of
     (Failed e, s') \<Rightarrow> run_prog exec_sql (f e) s' | (Reply b, s') \<Rightarrow> run_prog exec_sql (g b) s')"
  by (simp add: call_def split: prod.splits reply.splits)

subsection \<open>Any number of processes\<close>

text \<open>
  \<open>procs\<close> is what each process has still to do. A process whose calls no longer reach the server, because its connection
  or its context is gone, is \<open>cut_off\<close>.
\<close>

record 'd fleet =
  committed :: "'d mig_db"
  work :: "nat \<Rightarrow> 'd mig_db option"
  lock_owner :: "nat option"
  cut_off :: "nat \<Rightarrow> bool"
  procs :: "nat \<Rightarrow> prog"

fun server_call :: "(string \<Rightarrow> 'd \<Rightarrow> err + 'd) \<Rightarrow> nat \<Rightarrow> stmt \<Rightarrow> 'd fleet \<Rightarrow> reply \<times> 'd fleet" where
  "server_call exec_sql p (AdvisoryLock key) f = (Reply True, f\<lparr>lock_owner := Some p\<rparr>)"
| "server_call exec_sql p (AdvisoryUnlock key) f =
     (Reply True, if lock_owner f = Some p then f\<lparr>lock_owner := None\<rparr> else f)"
| "server_call exec_sql p a f = (case sql_call exec_sql a (committed f, work f p) of
     (r, (d, w)) \<Rightarrow> (r, f\<lparr>committed := d, work := (work f)(p := w)\<rparr>))"

text \<open>\<open>pg_advisory_lock\<close> waits while another session holds the lock.\<close>

fun enabled :: "nat \<Rightarrow> stmt \<Rightarrow> 'd fleet \<Rightarrow> bool" where
  "enabled p (AdvisoryLock key) f = (lock_owner f = None \<or> lock_owner f = Some p)"
| "enabled p _ f = True"

text \<open>
  A call is answered, or is executed with the answer lost, or never arrives; and the server may end any session, which
  rolls its transaction back and frees its lock.
\<close>

inductive fleet_step :: "(string \<Rightarrow> 'd \<Rightarrow> err + 'd) \<Rightarrow> 'd fleet \<Rightarrow> 'd fleet \<Rightarrow> bool" for exec_sql where
  answered: "\<not> cut_off f p \<Longrightarrow> procs f p = Call a k \<Longrightarrow> enabled p a f \<Longrightarrow> server_call exec_sql p a f = (r, f') \<Longrightarrow>
     fleet_step exec_sql f (f'\<lparr>procs := (procs f)(p := k r)\<rparr>)"
| answer_lost: "\<not> cut_off f p \<Longrightarrow> procs f p = Call a k \<Longrightarrow> enabled p a f \<Longrightarrow> server_call exec_sql p a f = (r, f') \<Longrightarrow>
     fleet_step exec_sql f (f'\<lparr>cut_off := (cut_off f)(p := True), procs := (procs f)(p := k (Failed e))\<rparr>)"
| not_delivered: "procs f p = Call a k \<Longrightarrow>
     fleet_step exec_sql f (f\<lparr>cut_off := (cut_off f)(p := True), procs := (procs f)(p := k (Failed e))\<rparr>)"
| session_end: "fleet_step exec_sql f
     (f\<lparr>work := (work f)(p := None), lock_owner := (if lock_owner f = Some p then None else lock_owner f), cut_off := (cut_off f)(p := True)\<rparr>)"

definition fleet_start :: "(nat \<Rightarrow> migrations_dir) \<Rightarrow> 'd \<Rightarrow> 'd fleet" where
  "fleet_start dir d = \<lparr>committed = \<lparr>catalog = d, schema_migrations = None\<rparr>, work = (\<lambda>_. None), lock_owner = None,
     cut_off = (\<lambda>_. False), procs = (\<lambda>p. RunMigrations (dir p))\<rparr>"

subsection \<open>Applied at most once\<close>

definition recorded :: "'d mig_db \<Rightarrow> string list" where
  "recorded d = (case schema_migrations d of None \<Rightarrow> [] | Some vs \<Rightarrow> vs)"

primrec exec_all :: "(string \<Rightarrow> 'd \<Rightarrow> err + 'd) \<Rightarrow> string list \<Rightarrow> 'd \<Rightarrow> err + 'd" where
  "exec_all exec_sql [] d = Inr d"
| "exec_all exec_sql (b # bs) d = (case exec_sql b d of Inl e \<Rightarrow> Inl e | Inr d' \<Rightarrow> exec_all exec_sql bs d')"

lemma exec_all_append:
  "exec_all exec_sql (bs @ bs') d = (case exec_all exec_sql bs d of Inl e \<Rightarrow> Inl e | Inr d' \<Rightarrow> exec_all exec_sql bs' d')"
  by (induction bs arbitrary: d) (auto split: sum.splits)

text \<open>
  The database is the result of running the bodies of the recorded migrations, each once, in the order of the
  records; \<open>src v b\<close> says which bodies a version may have.
\<close>

definition applied_once :: "(string \<Rightarrow> 'd \<Rightarrow> err + 'd) \<Rightarrow> (string \<Rightarrow> string \<Rightarrow> bool) \<Rightarrow> 'd \<Rightarrow> 'd mig_db \<Rightarrow> bool" where
  "applied_once exec_sql src d0 d \<longleftrightarrow> (\<exists>applied. distinct (map fst applied) \<and> recorded d = map fst applied \<and>
     exec_all exec_sql (map snd applied) d0 = Inr (catalog d) \<and> (\<forall>(v, b)\<in>set applied. src v b))"

lemma applied_once_more:
  assumes "applied_once exec_sql src d0 d" and "v \<notin> set (recorded d)" and "exec_sql b (catalog d) = Inr c" and "src v b"
  shows "applied_once exec_sql src d0 \<lparr>catalog = c, schema_migrations = Some (recorded d @ [v])\<rparr>"
proof -
  obtain applied where app: "distinct (map fst applied)" "recorded d = map fst applied"
    "exec_all exec_sql (map snd applied) d0 = Inr (catalog d)" "\<forall>(v, b)\<in>set applied. src v b"
    using assms(1) unfolding applied_once_def by blast
  then show ?thesis unfolding applied_once_def using assms(2-4)
    by (intro exI [of _ "applied @ [(v, b)]"]) (auto simp: exec_all_append recorded_def)
qed

text \<open>What is left of a process after the unlock, and of one that holds the lock.\<close>

primrec harmless :: "prog \<Rightarrow> bool" where
  "harmless (Return e) = True"
| "harmless (Call a k) = (a = Release \<and> (\<forall>r. harmless (k r)))"

fun no_lock_call :: "stmt \<Rightarrow> bool" where
  "no_lock_call (AdvisoryLock key) = False"
| "no_lock_call (AdvisoryUnlock key) = False"
| "no_lock_call a = True"

primrec safe :: "('d mig_db \<Rightarrow> bool) \<Rightarrow> (string \<Rightarrow> 'd \<Rightarrow> err + 'd) \<Rightarrow> prog \<Rightarrow> 'd sess \<Rightarrow> bool" where
  "safe I exec_sql (Return e) = (\<lambda>s. True)"
| "safe I exec_sql (Call a k) = (\<lambda>s.
     if no_lock_call a then I (fst (snd (sql_call exec_sql a s))) \<and> safe I exec_sql (k (fst (sql_call exec_sql a s))) (snd (sql_call exec_sql a s))
     else a = AdvisoryUnlock migrationLockKey \<and> snd s = None \<and> (\<forall>r. harmless (k r)))"

lemma safe_call [simp]:
  "safe I exec_sql (call a f g) s = (if no_lock_call a then I (fst (snd (sql_call exec_sql a s))) \<and>
       (case sql_call exec_sql a s of (Failed e, s') \<Rightarrow> safe I exec_sql (f e) s' | (Reply b, s') \<Rightarrow> safe I exec_sql (g b) s')
     else a = AdvisoryUnlock migrationLockKey \<and> snd s = None \<and> (\<forall>e. harmless (f e)) \<and> (\<forall>b. harmless (g b)))"
  by (auto simp: call_def split: prod.splits reply.splits)

lemma harmless_released: "harmless (released e)"
  by (simp add: released_def)

lemma safe_finish [simp]: "safe I exec_sql (unlocked e) s \<longleftrightarrow> snd s = None"
  "safe I exec_sql (rolled_back e') s \<longleftrightarrow> I (fst s)"
  by (simp_all add: unlocked_def rolled_back_def harmless_released)

lemma safe_apply_versions:
  assumes "applied_once exec_sql src d0 d" and "schema_migrations d \<noteq> None"
    and "\<And>v b. v \<in> set vs \<Longrightarrow> read_file v = Inr b \<Longrightarrow> src v b"
  shows "safe (applied_once exec_sql src d0) exec_sql (apply_versions read_file vs) (d, None)"
  using assms
proof (induction vs arbitrary: d)
  case (Cons v vs)
  obtain old where old: "schema_migrations d = Some old" using Cons.prems(2) by auto
  have rest: "safe (applied_once exec_sql src d0) exec_sql (apply_versions read_file vs) (d', None)"
    if "applied_once exec_sql src d0 d'" "schema_migrations d' \<noteq> None" for d'
    using Cons.IH [OF that] Cons.prems(3) by simp
  have more: "applied_once exec_sql src d0 \<lparr>catalog = c, schema_migrations = Some (old @ [v])\<rparr>"
    if "v \<notin> set old" "read_file v = Inr b" "exec_sql b (catalog d) = Inr c" for b c
    using applied_once_more [OF Cons.prems(1), of v b c] that old Cons.prems(3) by (simp add: recorded_def)
  have upd: "d\<lparr>catalog := c, schema_migrations := Some (old @ [v])\<rparr> = \<lparr>catalog = c, schema_migrations = Some (old @ [v])\<rparr>" for c
    by (cases d) simp
  show ?case using old Cons.prems(1) rest [OF Cons.prems(1,2)] more
    by (auto simp: current_def change_def upd rest split: sum.splits)
qed simp

definition offers :: "migrations_dir \<Rightarrow> string \<Rightarrow> string \<Rightarrow> bool" where
  "offers dir v b \<longleftrightarrow> (\<exists>entries. ReadDir dir = Inr entries \<and> v \<in> set (sql_versions entries)) \<and> ReadFile dir v = Inr b"

lemma safe_locked_body:
  assumes "applied_once exec_sql src d0 d" and "\<And>v b. offers dir v b \<Longrightarrow> src v b"
  shows "safe (applied_once exec_sql src d0) exec_sql (locked_body dir) (d, None)"
proof -
  have rest: "safe (applied_once exec_sql src d0) exec_sql (apply_versions (ReadFile dir) (sql_versions entries)) (d', None)"
    if "applied_once exec_sql src d0 d'" "schema_migrations d' \<noteq> None" "ReadDir dir = Inr entries" for d' entries
    using safe_apply_versions [OF that(1,2)] assms(2) that(3) by (simp add: offers_def)
  have "applied_once exec_sql src d0 (d\<lparr>schema_migrations := Some []\<rparr>)" if "schema_migrations d = None"
    using assms(1) that by (simp add: applied_once_def recorded_def)
  then show ?thesis using assms(1) rest
    by (cases "schema_migrations d") (auto simp: locked_body_def change_def split: sum.splits)
qed

definition settled :: "('d mig_db \<Rightarrow> bool) \<Rightarrow> (string \<Rightarrow> 'd \<Rightarrow> err + 'd) \<Rightarrow> migrations_dir \<Rightarrow> nat \<Rightarrow> 'd fleet \<Rightarrow> bool" where
  "settled I exec_sql dir q f \<longleftrightarrow> cut_off f q \<or>
     (procs f q = RunMigrations dir \<or> procs f q = take_lock dir \<or> harmless (procs f q)) \<and> lock_owner f \<noteq> Some q \<or>
     lock_owner f = Some q \<and> safe I exec_sql (procs f q) (committed f, work f q)"

definition fleet_inv :: "('d mig_db \<Rightarrow> bool) \<Rightarrow> (string \<Rightarrow> 'd \<Rightarrow> err + 'd) \<Rightarrow> (nat \<Rightarrow> migrations_dir) \<Rightarrow> 'd fleet \<Rightarrow> bool" where
  "fleet_inv I exec_sql dir f \<longleftrightarrow> I (committed f) \<and> (\<forall>q. work f q \<noteq> None \<longrightarrow> lock_owner f = Some q) \<and>
     (\<forall>q. settled I exec_sql (dir q) q f)"

lemma server_sql: "no_lock_call a \<Longrightarrow> server_call exec_sql p a f =
    (fst (sql_call exec_sql a (committed f, work f p)), f\<lparr>committed := fst (snd (sql_call exec_sql a (committed f, work f p))),
       work := (work f)(p := snd (snd (sql_call exec_sql a (committed f, work f p))))\<rparr>)"
  by (cases a) (auto split: prod.splits)

lemma call_keeps_inv:
  fixes f :: "'d fleet"
  assumes inv: "fleet_inv I exec_sql dir f" and "\<not> cut_off f p" and "procs f p = Call a k" and "enabled p a f"
    and "server_call exec_sql p a f = (r, f')"
    and start: "\<And>d. I d \<Longrightarrow> safe I exec_sql (locked_body (dir p)) (d, None)"
  shows "fleet_inv I exec_sql dir (f'\<lparr>procs := (procs f)(p := k r)\<rparr>)" and "cut_off f' = cut_off f"
proof -
  let ?f = "f'\<lparr>procs := (procs f)(p := k r)\<rparr>"
  have I: "I (committed f)" and tx: "work f q \<noteq> None \<Longrightarrow> lock_owner f = Some q" and st: "settled I exec_sql (dir q) q f" for q
    using inv by (auto simp: fleet_inv_def)
  have idle: "fleet_inv I exec_sql dir (f\<lparr>procs := (procs f)(p := k')\<rparr>)"
    if "lock_owner f \<noteq> Some p" "k' = take_lock (dir p) \<or> harmless k'" for k'
    using that I tx st unfolding fleet_inv_def by (auto simp: settled_def)
  have same: "f\<lparr>committed := committed f, work := (work f)(p := work f p)\<rparr> = f" by simp
  consider (acq) "procs f p = RunMigrations (dir p)" "lock_owner f \<noteq> Some p"
    | (lock) "procs f p = take_lock (dir p)" "lock_owner f \<noteq> Some p"
    | (rel) "harmless (procs f p)" "lock_owner f \<noteq> Some p"
    | (own) "lock_owner f = Some p" "safe I exec_sql (procs f p) (committed f, work f p)"
    using st [of p] assms(2) unfolding settled_def by blast
  then have "fleet_inv I exec_sql dir ?f \<and> cut_off f' = cut_off f"
  proof cases
    case acq
    then have "a = Acquire" "k (Reply True) = take_lock (dir p)" using assms(3) by (auto simp: RunMigrations_def call_def)
    then show ?thesis using assms(5) idle [OF acq(2)] by (auto simp: same)
  next
    case lock
    then have a: "a = AdvisoryLock migrationLockKey" "k (Reply True) = locked_body (dir p)"
      using assms(3) by (auto simp: take_lock_def call_def)
    then have free: "lock_owner f = None" using assms(4) lock(2) by simp
    then have "work f q = None" for q using tx [of q] by (cases "work f q") auto
    moreover have "f' = f\<lparr>lock_owner := Some p\<rparr>" "r = Reply True" using assms(5) a by auto
    ultimately show ?thesis using a I st start [OF I] free by (auto simp: fleet_inv_def settled_def)
  next
    case rel
    then have "a = Release" "harmless (k (Reply True))" using assms(3) by auto
    then show ?thesis using assms(5) idle [OF rel(2)] by (auto simp: same)
  next
    case own
    have others: "settled I exec_sql (dir q) q g"
      if "q \<noteq> p" "procs g q = procs f q" "cut_off g q = cut_off f q" "lock_owner g \<noteq> Some q" for q and g :: "'d fleet"
      using st [of q] own(1) that by (auto simp: settled_def)
    show ?thesis
    proof (cases "no_lock_call a")
      case True
      let ?s = "sql_call exec_sql a (committed f, work f p)"
      have r: "r = fst ?s" and f': "f' = f\<lparr>committed := fst (snd ?s), work := (work f)(p := snd (snd ?s))\<rparr>"
        using assms(5) unfolding server_sql [OF True] by auto
      have "I (fst (snd ?s))" "safe I exec_sql (k r) (fst (snd ?s), snd (snd ?s))" using own(2) assms(3) True r by simp_all
      then show ?thesis using own(1) tx others f' by (auto simp: fleet_inv_def settled_def)
    next
      case False
      then have a: "a = AdvisoryUnlock migrationLockKey" "work f p = None" "harmless (k r)" using own(2) assms(3) by auto
      then have f': "f' = f\<lparr>lock_owner := None\<rparr>" using assms(5) own(1) by simp
      have "work f q = None" for q using tx [of q] own(1) a(2) by (cases "work f q") auto
      then show ?thesis using I a(3) f' others [of _ ?f] by (auto simp: fleet_inv_def) (auto simp: settled_def)
    qed
  qed
  then show "fleet_inv I exec_sql dir ?f" "cut_off f' = cut_off f" by simp_all
qed

lemma cut_off_keeps_inv:
  "fleet_inv I exec_sql dir f \<Longrightarrow> fleet_inv I exec_sql dir (f\<lparr>cut_off := (cut_off f)(p := True), procs := (procs f)(p := k)\<rparr>)"
  by (auto simp: fleet_inv_def settled_def)

lemma step_keeps_inv:
  assumes "fleet_step exec_sql f g" and "fleet_inv I exec_sql dir f"
    and "\<And>p d. I d \<Longrightarrow> safe I exec_sql (locked_body (dir p)) (d, None)"
  shows "fleet_inv I exec_sql dir g"
  using assms(1)
proof cases
  case (answered p a k r f')
  then show ?thesis using call_keeps_inv(1) [OF assms(2) _ _ _ _ assms(3)] by blast
next
  case (answer_lost p a k r f' e)
  let ?f = "f'\<lparr>procs := (procs f)(p := k r)\<rparr>"
  have "fleet_inv I exec_sql dir ?f" "cut_off f' = cut_off f"
    using call_keeps_inv [OF assms(2) answer_lost(2-5) assms(3)] by auto
  moreover have "?f\<lparr>cut_off := (cut_off ?f)(p := True), procs := (procs ?f)(p := k (Failed e))\<rparr> =
      f'\<lparr>cut_off := (cut_off f)(p := True), procs := (procs f)(p := k (Failed e))\<rparr>" using \<open>cut_off f' = cut_off f\<close> by simp
  ultimately show ?thesis using cut_off_keeps_inv [of I exec_sql dir ?f p "k (Failed e)"] answer_lost(1) by simp
next
  case (not_delivered p a k e)
  then show ?thesis using cut_off_keeps_inv [OF assms(2)] by simp
next
  case (session_end p)
  then show ?thesis using assms(2) by (auto simp: fleet_inv_def settled_def)
qed

text \<open>
  C34. Migrations are applied at most once and all or nothing, however many replicas start at the same time. For every interleaving
  of any number of processes that run \<open>RunMigrations\<close>, each with its own directory, whatever requests and answers are
  lost and whichever sessions end: the committed database is the result of running the bodies of the recorded versions, each
  exactly once, in the order of the records, and every such body is the file of that name in the directory of some process; no two
  processes are inside a transaction, and one that is holds the advisory lock.
\<close>

theorem migrations_apply_once:
  assumes "(fleet_step exec_sql)\<^sup>*\<^sup>* (fleet_start dir d0) f"
  shows "(\<exists>applied. distinct (map fst applied) \<and> recorded (committed f) = map fst applied \<and>
      exec_all exec_sql (map snd applied) d0 = Inr (catalog (committed f)) \<and>
      (\<forall>(v, b)\<in>set applied. \<exists>p. offers (dir p) v b)) \<and>
    (\<forall>p. work f p \<noteq> None \<longrightarrow> lock_owner f = Some p)"
proof -
  let ?I = "applied_once exec_sql (\<lambda>v b. \<exists>p. offers (dir p) v b) d0"
  have start: "?I d \<Longrightarrow> safe ?I exec_sql (locked_body (dir p)) (d, None)" for p d
    by (rule safe_locked_body) auto
  have "fleet_inv ?I exec_sql dir f" using assms
  proof (induction rule: rtranclp_induct)
    case base
    show ?case by (auto simp: fleet_inv_def settled_def fleet_start_def applied_once_def recorded_def)
  next
    case (step f g)
    then show ?case using step_keeps_inv [OF step.hyps(2) step.IH start] by blast
  qed
  then show ?thesis by (simp add: fleet_inv_def applied_once_def)
qed

subsection \<open>What one call does\<close>

text \<open>Why the loop stopped before \<open>rest\<close>, with the database \<open>d\<close>.\<close>

definition stopped_at :: "(string \<Rightarrow> 'd \<Rightarrow> err + 'd) \<Rightarrow> (string \<Rightarrow> err + string) \<Rightarrow> 'd mig_db \<Rightarrow> string list \<Rightarrow> err option \<Rightarrow> bool" where
  "stopped_at exec_sql read_file d rest res \<longleftrightarrow> (case rest of
     [] \<Rightarrow> res = None
   | v # _ \<Rightarrow> (case read_file v of
       Inl e \<Rightarrow> res = Some (ErrWrap (''read migration '' @ v) e)
     | Inr b \<Rightarrow> (\<exists>e. exec_sql b (catalog d) = Inl e \<and> res = Some (ErrWrap (''exec migration '' @ v) e))))"

lemma run_finish [simp]:
  "run_prog exec_sql (unlocked e) s = (e, s)" "run_prog exec_sql (rolled_back e') s = (Some e', (fst s, None))"
  by (simp_all add: unlocked_def rolled_back_def released_def)

lemma run_apply_versions:
  assumes "schema_migrations d = Some old" and "distinct vs"
    and "run_prog exec_sql (apply_versions read_file vs) (d, None) = (res, s)"
  shows "\<exists>d' new rest bodies. s = (d', None) \<and> filter (\<lambda>v. v \<notin> set old) vs = new @ rest \<and> map read_file new = map Inr bodies \<and>
    schema_migrations d' = Some (old @ new) \<and> exec_all exec_sql bodies (catalog d) = Inr (catalog d') \<and>
    stopped_at exec_sql read_file d' rest res"
  using assms
proof (induction vs arbitrary: d old)
  case Nil
  then show ?case by (intro exI [of _ d] exI [of _ "[]"]) (auto simp: stopped_at_def)
next
  case (Cons v vs)
  show ?case
  proof (cases "v \<in> set old")
    case True
    then show ?thesis using Cons.IH [OF Cons.prems(1)] Cons.prems by (simp add: current_def)
  next
    case new: False
    have stop: ?thesis if "stopped_at exec_sql read_file d (v # filter (\<lambda>v. v \<notin> set old) vs) res" "s = (d, None)"
      using that new Cons.prems(1)
      by (intro exI [of _ d] exI [of _ "[]"] exI [of _ "v # filter (\<lambda>v. v \<notin> set old) vs"] exI [of _ "[]"]) simp
    show ?thesis
    proof (cases "read_file v")
      case (Inl e)
      then show ?thesis using Cons.prems new by (intro stop) (auto simp: current_def stopped_at_def)
    next
      case (Inr b)
      show ?thesis
      proof (cases "exec_sql b (catalog d)")
        case (Inl e)
        then show ?thesis using Cons.prems new \<open>read_file v = Inr b\<close> by (intro stop) (auto simp: current_def stopped_at_def)
      next
        case ran: (Inr c)
        let ?d = "d\<lparr>catalog := c, schema_migrations := Some (old @ [v])\<rparr>"
        have "run_prog exec_sql (apply_versions read_file vs) (?d, None) = (res, s)"
          using Cons.prems new Inr ran by (simp add: current_def change_def)
        from Cons.IH [OF _ _ this] Cons.prems(2) obtain d' news rest bodies where *: "s = (d', None)"
          "filter (\<lambda>w. w \<notin> set (old @ [v])) vs = news @ rest" "map read_file news = map Inr bodies"
          "schema_migrations d' = Some ((old @ [v]) @ news)" "exec_all exec_sql bodies c = Inr (catalog d')"
          "stopped_at exec_sql read_file d' rest res" by auto
        have "filter (\<lambda>w. w \<notin> set (old @ [v])) vs = filter (\<lambda>w. w \<notin> set old) vs"
          using Cons.prems(2) by (intro filter_cong) auto
        then show ?thesis using * new Inr ran
          by (intro exI [of _ d'] exI [of _ "v # news"] exI [of _ rest] exI [of _ "b # bodies"]) simp
      qed
    qed
  qed
qed

lemma apply_nothing:
  "schema_migrations d = Some old \<Longrightarrow> set vs \<subseteq> set old \<Longrightarrow> run_prog exec_sql (apply_versions read_file vs) (d, None) = (None, (d, None))"
  by (induction vs) (auto simp: current_def)

text \<open>
  C35. What an undisturbed call of \<open>RunMigrations\<close> does, its errors included. With the names in the directory pairwise different, it
  applies, in the order of the names, an initial part \<open>new\<close> of the \<open>.sql\<close> files that are not recorded, runs their bodies and
  records them behind the old ones. It returns no error exactly when nothing is left; otherwise the next file cannot be
  read or its body fails on the database as it is now, and the error says so. After a call without an error another call changes nothing.
\<close>

theorem RunMigrations_outcome:
  assumes "ReadDir dir = Inr entries" and "distinct (map fst entries)"
    and "run_prog exec_sql (RunMigrations dir) (d, None) = (res, s)"
  shows "\<exists>d' new rest bodies. s = (d', None) \<and>
    sorted (sql_versions entries) \<and> filter (\<lambda>v. v \<notin> set (recorded d)) (sql_versions entries) = new @ rest \<and>
    recorded d' = recorded d @ new \<and> map (ReadFile dir) new = map Inr bodies \<and>
    exec_all exec_sql bodies (catalog d) = Inr (catalog d') \<and> stopped_at exec_sql (ReadFile dir) d' rest res \<and>
    (res = None \<longleftrightarrow> rest = []) \<and> (res = None \<longrightarrow> run_prog exec_sql (RunMigrations dir) (d', None) = (None, (d', None)))"
proof -
  have run: "run_prog exec_sql (RunMigrations dir) (d, None) =
      run_prog exec_sql (apply_versions (ReadFile dir) (sql_versions entries)) (d\<lparr>schema_migrations := Some (recorded d)\<rparr>, None)" for d :: "'a mig_db"
    using assms(1) by (cases "schema_migrations d")
      (auto simp: RunMigrations_def take_lock_def locked_body_def change_def recorded_def intro: arg_cong)
  have dist: "distinct (sql_versions entries)"
    using assms(2) by (simp add: sql_versions_def distinct_map_filter)
  from run_apply_versions [OF _ dist assms(3) [unfolded run]] obtain d' new rest bodies where *: "s = (d', None)"
    "filter (\<lambda>v. v \<notin> set (recorded d)) (sql_versions entries) = new @ rest" "map (ReadFile dir) new = map Inr bodies"
    "schema_migrations d' = Some (recorded d @ new)" "exec_all exec_sql bodies (catalog d) = Inr (catalog d')"
    "stopped_at exec_sql (ReadFile dir) d' rest res" by auto
  have res: "res = None \<longleftrightarrow> rest = []" using *(6) by (auto simp: stopped_at_def split: list.splits sum.splits)
  have "run_prog exec_sql (RunMigrations dir) (d', None) = (None, (d', None))" if "rest = []"
  proof -
    have "set (filter (\<lambda>v. v \<notin> set (recorded d)) (sql_versions entries)) = set new" using *(2) that by simp
    then have "set (sql_versions entries) \<subseteq> set (recorded d @ new)" by auto
    moreover have "d'\<lparr>schema_migrations := Some (recorded d')\<rparr> = d'" using *(4) by (cases d') (simp add: recorded_def)
    ultimately show ?thesis unfolding run using apply_nothing [OF *(4)] by simp
  qed
  moreover have "recorded d' = recorded d @ new" using *(4) by (simp add: recorded_def)
  ultimately show ?thesis using * res by (intro exI [of _ d'] exI [of _ new] exI [of _ rest] exI [of _ bodies]) (simp add: sql_versions_def)
qed

subsection \<open>Termination\<close>

text \<open>Every path through the tree makes at most \<open>n\<close> calls.\<close>

inductive bounded_calls :: "nat \<Rightarrow> prog \<Rightarrow> bool" where
  ret: "bounded_calls n (Return e)"
| call: "(\<And>r. bounded_calls n (k r)) \<Longrightarrow> bounded_calls (Suc n) (Call a k)"

lemma bounded_mono: "bounded_calls n q \<Longrightarrow> n \<le> m \<Longrightarrow> bounded_calls m q"
proof (induction arbitrary: m rule: bounded_calls.induct)
  case (call n k a)
  then show ?case by (cases m) (auto intro: bounded_calls.call)
qed (rule bounded_calls.ret)

lemma bounded_call: "(\<And>e. bounded_calls n (f e)) \<Longrightarrow> (\<And>b. bounded_calls n (g b)) \<Longrightarrow> bounded_calls (Suc n) (call a f g)"
  unfolding call_def by (rule bounded_calls.call) (simp split: reply.splits)

lemma bounded_finish: "2 \<le> n \<Longrightarrow> bounded_calls n (unlocked e)" "3 \<le> n \<Longrightarrow> bounded_calls n (rolled_back e')"
proof -
  have "bounded_calls 2 (unlocked e)" for e
    unfolding unlocked_def released_def numeral_2_eq_2 by (intro bounded_calls.call bounded_calls.ret)
  then have "bounded_calls 2 (unlocked e)" "bounded_calls 3 (rolled_back e')"
    unfolding rolled_back_def by (simp_all add: numeral_3_eq_3 numeral_2_eq_2 bounded_calls.call)
  then show "2 \<le> n \<Longrightarrow> bounded_calls n (unlocked e)" "3 \<le> n \<Longrightarrow> bounded_calls n (rolled_back e')" by (auto intro: bounded_mono)
qed

lemma bounded_apply_versions: "bounded_calls (5 * length vs + 2) (apply_versions read_file vs)"
proof (induction vs)
  case (Cons v vs)
  let ?n = "5 * length vs + 2"
  have "bounded_calls (Suc (Suc (Suc (Suc (Suc ?n))))) (apply_versions read_file (v # vs))"
    unfolding apply_versions.simps
    by (intro bounded_call) (auto intro!: bounded_call bounded_finish bounded_mono [OF Cons.IH] split: sum.splits)
  then show ?case by (rule bounded_mono) simp
qed (simp add: bounded_finish)

text \<open>
  C36. \<open>RunMigrations\<close> ends: whatever the calls reply, it makes at most \<open>5 n + 5\<close> of them for \<open>n\<close> migrations.
\<close>

theorem RunMigrations_terminates:
  "bounded_calls (5 * (case ReadDir dir of Inl _ \<Rightarrow> 0 | Inr entries \<Rightarrow> length (sql_versions entries)) + 5) (RunMigrations dir)"
proof -
  let ?n = "case ReadDir dir of Inl _ \<Rightarrow> 0 | Inr entries \<Rightarrow> length (sql_versions entries)"
  have "bounded_calls (5 * ?n + 2) (case ReadDir dir of Inl e \<Rightarrow> unlocked (Some (ErrWrap ''read migrations dir'' e))
      | Inr entries \<Rightarrow> apply_versions (ReadFile dir) (sql_versions entries))"
    using bounded_apply_versions by (simp add: bounded_finish del: add_2_eq_Suc' split: sum.splits)
  then have "bounded_calls (Suc (Suc (Suc (5 * ?n + 2)))) (RunMigrations dir)"
    unfolding RunMigrations_def take_lock_def locked_body_def released_def
    by (intro bounded_call) (auto intro!: bounded_finish bounded_calls.intros)
  then show ?thesis by (rule bounded_mono) simp
qed

subsection \<open>A process that is not disturbed\<close>

text \<open>The two ways of running a program agree: while nobody else holds the lock, a process can run to its end without interference.\<close>

lemma lone_process:
  assumes "\<not> cut_off f p" and "lock_owner f = None \<or> lock_owner f = Some p"
  shows "\<exists>f'. (fleet_step exec_sql)\<^sup>*\<^sup>* f f' \<and>
    procs f' p = Return (fst (run_prog exec_sql (procs f p) (committed f, work f p))) \<and>
    (committed f', work f' p) = snd (run_prog exec_sql (procs f p) (committed f, work f p))"
  using assms
proof (induction "procs f p" arbitrary: f)
  case (Return e)
  then show ?case by (intro exI [of _ f]) (simp flip: Return.hyps)
next
  case (Call a k)
  obtain r f1 where call: "server_call exec_sql p a f = (r, f1)" by (cases "server_call exec_sql p a f")
  let ?s = "sql_call exec_sql a (committed f, work f p)"
  let ?f = "f1\<lparr>procs := (procs f)(p := k r)\<rparr>"
  have "enabled p a f" using Call.prems(2) by (cases a) auto
  from fleet_step.answered [OF Call.prems(1) Call.hyps(2) [symmetric] this call] have step: "fleet_step exec_sql f ?f" .
  have "r = fst ?s \<and> (committed ?f, work ?f p) = snd ?s \<and> cut_off ?f p = cut_off f p \<and> (lock_owner ?f = None \<or> lock_owner ?f = Some p)"
  proof (cases "no_lock_call a")
    case True
    show ?thesis using call Call.prems(2) unfolding server_sql [OF True] by auto
  next
    case False
    then show ?thesis using call Call.prems(2) by (cases a) (auto split: if_splits)
  qed
  moreover from this Call.hyps(1) [of ?f] Call.prems(1) obtain f' where "(fleet_step exec_sql)\<^sup>*\<^sup>* ?f f'"
    "procs f' p = Return (fst (run_prog exec_sql (k r) (committed ?f, work ?f p)))"
    "(committed f', work f' p) = snd (run_prog exec_sql (k r) (committed ?f, work ?f p))" by auto
  ultimately show ?case using converse_rtranclp_into_rtranclp [of "fleet_step exec_sql", OF step] by (intro exI [of _ f']) (simp flip: Call.hyps(2))
qed

definition demo_dir :: migrations_dir where
  "demo_dir = \<lparr>ReadDir = Inr [(''2.sql'', False), (''1.sql'', False), (''notes.txt'', False), (''old.sql'', True)], ReadFile = Inr\<rparr>"

lemma demo_versions: "sql_versions [(''2.sql'', False), (''1.sql'', False), (''notes.txt'', False), (''old.sql'', True)] = [''1.sql'', ''2.sql'']"
  by code_simp

lemma demo_migration:
  "run_prog (\<lambda>b d. Inr (d @ [b])) (RunMigrations demo_dir) (\<lparr>catalog = [], schema_migrations = None\<rparr>, None) =
    (None, (\<lparr>catalog = [''1.sql'', ''2.sql''], schema_migrations = Some [''1.sql'', ''2.sql'']\<rparr>, None))"
  by (simp add: RunMigrations_def take_lock_def locked_body_def demo_dir_def demo_versions change_def current_def)

theorem migrations_apply_once_witness:
  "\<exists>(f :: string list fleet) applied. recorded (committed f) = [''1.sql'', ''2.sql''] \<and> catalog (committed f) = [''1.sql'', ''2.sql''] \<and>
     map fst applied = [''1.sql'', ''2.sql''] \<and> exec_all (\<lambda>b d. Inr (d @ [b])) (map snd applied) [] = Inr [''1.sql'', ''2.sql'']"
proof -
  obtain f where f: "(fleet_step (\<lambda>b d. Inr (d @ [b])))\<^sup>*\<^sup>* (fleet_start (\<lambda>_. demo_dir) []) f"
    "(committed f, work f 0) = (\<lparr>catalog = [''1.sql'', ''2.sql''], schema_migrations = Some [''1.sql'', ''2.sql'']\<rparr>, None)"
    using lone_process [of "fleet_start (\<lambda>_. demo_dir) []" 0 "\<lambda>b d. Inr (d @ [b])"] demo_migration
    by (auto simp: fleet_start_def)
  have "recorded (committed f) = [''1.sql'', ''2.sql'']" "catalog (committed f) = [''1.sql'', ''2.sql'']"
    using f(2) by (simp_all add: recorded_def)
  moreover obtain applied where "recorded (committed f) = map fst applied"
    "exec_all (\<lambda>b d. Inr (d @ [b])) (map snd applied) [] = Inr (catalog (committed f))"
    using migrations_apply_once [OF f(1)] by blast
  ultimately show ?thesis by (intro exI [of _ f] exI [of _ applied]) simp
qed

theorem RunMigrations_outcome_witness:
  "run_prog (\<lambda>b d. Inr (d @ [b])) (RunMigrations demo_dir)
     (\<lparr>catalog = [''1.sql'', ''2.sql''], schema_migrations = Some [''1.sql'', ''2.sql'']\<rparr>, None) =
   (None, (\<lparr>catalog = [''1.sql'', ''2.sql''], schema_migrations = Some [''1.sql'', ''2.sql'']\<rparr>, None))"
  using RunMigrations_outcome [OF _ _ demo_migration] by (simp add: demo_dir_def)

end
