(* ===== verification/Lock.thy ===== *)
theory Lock
  imports Model
begin

text \<open>
  \<open>src/internal/lock\<close>: leader election on a Postgres advisory lock. The server's side is the set of
  live sessions and the session that holds the lock, with the number of times it took it
  (\<open>pg_try_advisory_lock\<close> is reentrant, \<open>pg_advisory_unlock\<close> gives back one of them, and the end of a
  session releases all). A \<open>postgresElector\<close> is its connection and its \<open>isLeader\<close> flag;
  \<open>e.mu\<close> makes each call one step. What the network does in a call is its \<open>answers\<close>.
\<close>

type_synonym session = nat
type_synonym replica_id = nat

record elector =
  conn :: "session option"
  isLeader :: bool

record lock_sys =
  alive :: "session \<Rightarrow> bool"
  owner :: "session \<Rightarrow> replica_id"
  lock_by :: "(session \<times> nat) option"
  electors :: "replica_id \<Rightarrow> elector"

text \<open>
  \<open>acquire1\<close>, \<open>acquire2\<close>: the session that the two calls of \<open>pool.Acquire\<close> return, if they return one;
  \<open>ping\<close>: whether the ping of a live session gets through; \<open>sent\<close>, \<open>replied\<close>: whether the query
  reaches the server and its reply comes back.
\<close>

record answers =
  acquire1 :: "session option"
  ping :: bool
  acquire2 :: "session option"
  sent :: bool
  replied :: bool

definition set_elector :: "replica_id \<Rightarrow> elector \<Rightarrow> lock_sys \<Rightarrow> lock_sys" where
  "set_elector e x sys = sys\<lparr>electors := (electors sys)(e := x)\<rparr>"

definition pg_try_advisory_lock :: "session \<Rightarrow> lock_sys \<Rightarrow> bool \<times> lock_sys" where
  "pg_try_advisory_lock s sys = (case lock_by sys of
     None \<Rightarrow> (True, sys\<lparr>lock_by := Some (s, 1)\<rparr>)
   | Some (s', n) \<Rightarrow> if s' = s then (True, sys\<lparr>lock_by := Some (s, Suc n)\<rparr>) else (False, sys))"

definition pg_advisory_unlock :: "session \<Rightarrow> lock_sys \<Rightarrow> lock_sys" where
  "pg_advisory_unlock s sys = (case lock_by sys of
     None \<Rightarrow> sys
   | Some (s', n) \<Rightarrow> if s' = s then sys\<lparr>lock_by := if n \<le> 1 then None else Some (s, n - 1)\<rparr> else sys)"

text \<open>The end of a session: the server frees its locks.\<close>

definition session_ends :: "session \<Rightarrow> lock_sys \<Rightarrow> lock_sys" where
  "session_ends s sys = sys\<lparr>alive := (alive sys)(s := False),
     lock_by := (case lock_by sys of Some (s', n) \<Rightarrow> if s' = s then None else lock_by sys | None \<Rightarrow> None)\<rparr>"

subsection \<open>TryAcquire and Release\<close>

text \<open>The first two blocks of \<open>TryAcquire\<close>: a connection that answers a ping, or an error.\<close>

definition ensure_conn :: "replica_id \<Rightarrow> answers \<Rightarrow> lock_sys \<Rightarrow> (err + session) \<times> lock_sys" where
  "ensure_conn e a sys =
     (let x = electors sys e in
      case (case conn x of None \<Rightarrow> acquire1 a | Some s \<Rightarrow> Some s) of
        None \<Rightarrow> (Inl ErrConn, sys)
      | Some s \<Rightarrow>
          if alive sys s \<and> ping a then (Inr s, set_elector e (x\<lparr>conn := Some s\<rparr>) sys)
          else (case acquire2 a of
              None \<Rightarrow> (Inl ErrConn, set_elector e \<lparr>conn = None, isLeader = False\<rparr> sys)
            | Some s' \<Rightarrow> (Inr s', set_elector e \<lparr>conn = Some s', isLeader = False\<rparr> sys)))"

definition TryAcquire :: "replica_id \<Rightarrow> answers \<Rightarrow> lock_sys \<Rightarrow> (err + bool) \<times> lock_sys" where
  "TryAcquire e a sys = (case ensure_conn e a sys of
     (Inl err, sys1) \<Rightarrow> (Inl err, sys1)
   | (Inr s, sys1) \<Rightarrow>
       if isLeader (electors sys1 e) then (Inr True, sys1)
       else if \<not> (alive sys1 s \<and> sent a) then (Inl ErrConn, sys1)
       else (case pg_try_advisory_lock s sys1 of (acquired, sys2) \<Rightarrow>
         if \<not> replied a then (Inl ErrConn, sys2)
         else (Inr acquired, set_elector e ((electors sys2 e)\<lparr>isLeader := acquired\<rparr>) sys2)))"

definition Release :: "replica_id \<Rightarrow> answers \<Rightarrow> lock_sys \<Rightarrow> (err + unit) \<times> lock_sys" where
  "Release e a sys = (let x = electors sys e in
     case conn x of
       None \<Rightarrow> (Inr (), sys)
     | Some s \<Rightarrow>
         if \<not> isLeader x then (Inr (), sys)
         else let delivered = (alive sys s \<and> sent a);
                  sys1 = (if delivered then pg_advisory_unlock s sys else sys)
              in (if delivered \<and> replied a then Inr () else Inl ErrConn,
                  set_elector e \<lparr>conn = None, isLeader = False\<rparr> sys1))"

text \<open>
  The election as a transition system: any replica calls \<open>TryAcquire\<close> or \<open>Release\<close>, with the pool
  handing out live sessions of its own that it does not already use for the election, and sessions end
  at any time.
\<close>

definition pool_gives :: "replica_id \<Rightarrow> lock_sys \<Rightarrow> session option \<Rightarrow> bool" where
  "pool_gives e sys r \<longleftrightarrow> (case r of None \<Rightarrow> True | Some s \<Rightarrow> alive sys s \<and> owner sys s = e)"

inductive lock_step :: "lock_sys \<Rightarrow> lock_sys \<Rightarrow> bool" where
  try_acquire: "pool_gives e sys (acquire1 a) \<Longrightarrow> pool_gives e sys (acquire2 a) \<Longrightarrow> lock_step sys (snd (TryAcquire e a sys))"
| release: "lock_step sys (snd (Release e a sys))"
| session_end: "lock_step sys (session_ends s sys)"
| session_start: "\<not> alive sys s \<Longrightarrow> (\<forall>x. conn (electors sys x) \<noteq> Some s) \<Longrightarrow> lock_step sys (sys\<lparr>alive := (alive sys)(s := True), owner := (owner sys)(s := e)\<rparr>)"

abbreviation lock_steps :: "lock_sys \<Rightarrow> lock_sys \<Rightarrow> bool" where
  "lock_steps \<equiv> lock_step\<^sup>*\<^sup>*"

definition newPostgresElector :: elector where
  "newPostgresElector = \<lparr>conn = None, isLeader = False\<rparr>"

definition idle_sys :: "lock_sys \<Rightarrow> bool" where
  "idle_sys sys \<longleftrightarrow> lock_by sys = None \<and> (\<forall>e. electors sys e = newPostgresElector)"

definition lock_inv :: "lock_sys \<Rightarrow> bool" where
  "lock_inv sys \<longleftrightarrow>
     (\<forall>s n. lock_by sys = Some (s, n) \<longrightarrow> alive sys s \<and> 0 < n) \<and>
     (\<forall>e s. conn (electors sys e) = Some s \<longrightarrow> owner sys s = e) \<and>
     (\<forall>e. isLeader (electors sys e) \<longrightarrow> conn (electors sys e) \<noteq> None) \<and>
     (\<forall>e s. isLeader (electors sys e) \<longrightarrow> conn (electors sys e) = Some s \<longrightarrow> alive sys s \<longrightarrow>
        (\<exists>n. lock_by sys = Some (s, n)))"

subsection \<open>The invariant\<close>

lemma lock_invD:
  assumes "lock_inv sys"
  shows "lock_by sys = Some (s, n) \<Longrightarrow> alive sys s \<and> 0 < n"
    and "conn (electors sys e) = Some s \<Longrightarrow> owner sys s = e"
    and "isLeader (electors sys e) \<Longrightarrow> \<exists>s. conn (electors sys e) = Some s"
    and "isLeader (electors sys e) \<Longrightarrow> conn (electors sys e) = Some s \<Longrightarrow> alive sys s \<Longrightarrow> \<exists>n. lock_by sys = Some (s, n)"
  using assms by (auto simp: lock_inv_def)

lemma set_elector_simps [simp]:
  "alive (set_elector e x sys) = alive sys" "owner (set_elector e x sys) = owner sys" "lock_by (set_elector e x sys) = lock_by sys"
  "electors (set_elector e x sys) = (electors sys)(e := x)"
  by (simp_all add: set_elector_def)

lemma lock_inv_set:
  assumes "lock_inv sys" and "\<And>s. conn x = Some s \<Longrightarrow> owner sys s = e"
    and "isLeader x \<Longrightarrow> \<exists>s n. conn x = Some s \<and> (alive sys s \<longrightarrow> lock_by sys = Some (s, n))"
  shows "lock_inv (set_elector e x sys)"
  using assms unfolding lock_inv_def by (auto split: if_splits)

lemma ensure_conn_inv:
  assumes "lock_inv sys" and "pool_gives e sys (acquire1 a)" and "pool_gives e sys (acquire2 a)"
    and "ensure_conn e a sys = (r, sys1)"
  shows "lock_inv sys1" and "r = Inr s \<Longrightarrow> conn (electors sys1 e) = Some s \<and> alive sys1 s"
proof -
  obtain c where c: "(case conn (electors sys e) of None \<Rightarrow> acquire1 a | Some s \<Rightarrow> Some s) = c" by blast
  have owned: "owner sys s = e" if "c = Some s" for s
    using c that assms(2) lock_invD(2) [OF assms(1), of e s] by (auto simp: pool_gives_def split: option.splits)
  have kept: "conn (electors sys e) = Some s" if "c = Some s" "isLeader (electors sys e)" for s
    using c that lock_invD(3) [OF assms(1), of e] by auto
  show "lock_inv sys1"
  proof (cases c)
    case None
    then show ?thesis using assms(1,4) c by (simp add: ensure_conn_def Let_def)
  next
    case (Some s)
    show ?thesis
    proof (cases "alive sys s \<and> ping a")
      case True
      then have "sys1 = set_elector e ((electors sys e)\<lparr>conn := Some s\<rparr>) sys"
        using assms(4) c Some by (simp add: ensure_conn_def Let_def)
      then show ?thesis using owned [OF Some] kept [OF Some] lock_invD(4) [OF assms(1)]
        by (auto intro!: lock_inv_set [OF assms(1)])
    next
      case False
      then have "\<exists>n. sys1 = set_elector e \<lparr>conn = n, isLeader = False\<rparr> sys \<and> pool_gives e sys n"
        using assms(3,4) c Some by (auto simp: ensure_conn_def Let_def pool_gives_def split: option.splits)
      then show ?thesis by (auto simp: pool_gives_def intro!: lock_inv_set [OF assms(1)])
    qed
  qed
  show "conn (electors sys1 e) = Some s \<and> alive sys1 s" if "r = Inr s"
    using that assms(3,4) by (auto simp: ensure_conn_def Let_def pool_gives_def split: option.splits if_splits)
qed

lemma pg_try_inv:
  assumes "lock_inv sys" and "alive sys s" and "pg_try_advisory_lock s sys = (acq, sys')"
  shows "lock_inv sys'" and "electors sys' = electors sys" and "owner sys' = owner sys" and "alive sys' = alive sys"
    and "acq \<Longrightarrow> \<exists>n. lock_by sys' = Some (s, n)"
proof -
  show "lock_inv sys'"
    using assms by (auto simp: lock_inv_def pg_try_advisory_lock_def split: option.splits if_splits)
qed (use assms(3) in \<open>auto simp: pg_try_advisory_lock_def split: option.splits if_splits\<close>)

lemma TryAcquire_inv:
  assumes "lock_inv sys" and "pool_gives e sys (acquire1 a)" and "pool_gives e sys (acquire2 a)"
    and "TryAcquire e a sys = (r, sys')"
  shows "lock_inv sys'"
    and "r = Inr True \<Longrightarrow> \<exists>s n. conn (electors sys' e) = Some s \<and> alive sys' s \<and> isLeader (electors sys' e) \<and> lock_by sys' = Some (s, n)"
proof -
  obtain c sys1 where ec: "ensure_conn e a sys = (c, sys1)" by (cases "ensure_conn e a sys")
  note inv1 = ensure_conn_inv(1) [OF assms(1-3) ec] and conn1 = ensure_conn_inv(2) [OF assms(1-3) ec]
  have "lock_inv sys' \<and> (r = Inr True \<longrightarrow>
    (\<exists>s n. conn (electors sys' e) = Some s \<and> alive sys' s \<and> isLeader (electors sys' e) \<and> lock_by sys' = Some (s, n)))"
  proof (cases c)
    case (Inl err)
    then show ?thesis using assms(4) ec inv1 by (auto simp: TryAcquire_def)
  next
    case (Inr s)
    note here = conn1 [OF Inr]
    show ?thesis
    proof (cases "isLeader (electors sys1 e) \<or> \<not> (alive sys1 s \<and> sent a)")
      case True
      then show ?thesis
        using assms(4) ec Inr inv1 here lock_invD(4) [OF inv1, of e s] by (auto simp: TryAcquire_def split: if_splits)
    next
      case False
      obtain acq sys2 where lk: "pg_try_advisory_lock s sys1 = (acq, sys2)" by (cases "pg_try_advisory_lock s sys1")
      note t = pg_try_inv [OF inv1 _ lk]
      have "(r, sys') = (if replied a then (Inr acq, set_elector e ((electors sys2 e)\<lparr>isLeader := acq\<rparr>) sys2) else (Inl ErrConn, sys2))"
        using assms(4) ec Inr lk False by (auto simp: TryAcquire_def split: if_splits)
      then show ?thesis using t here False lock_invD(2) [OF inv1, of e s]
        by (auto split: if_splits intro!: lock_inv_set)
    qed
  qed
  then show "lock_inv sys'" and "r = Inr True \<Longrightarrow> \<exists>s n. conn (electors sys' e) = Some s \<and> alive sys' s \<and> isLeader (electors sys' e) \<and> lock_by sys' = Some (s, n)"
    by blast+
qed

lemma Release_inv:
  assumes "lock_inv sys"
  shows "lock_inv (snd (Release e a sys))"
proof (cases "isLeader (electors sys e)")
  case False
  then show ?thesis using assms by (simp add: Release_def Let_def split: option.splits)
next
  case True
  then obtain s where s: "conn (electors sys e) = Some s" using lock_invD(3) [OF assms] by blast
  let ?gone = "set_elector e \<lparr>conn = None, isLeader = False\<rparr>"
  have plain: "lock_inv (?gone sys)" by (rule lock_inv_set [OF assms]) simp_all
  have unlocked: "lock_inv (?gone (pg_advisory_unlock s sys))" if live: "alive sys s"
  proof -
    obtain n where lk: "lock_by sys = Some (s, n)" using lock_invD(4) [OF assms True s live] by blast
    have sole: "e' = e" if "isLeader (electors sys e')" "conn (electors sys e') = Some t" "alive sys t" for e' t
      using lock_invD(4) [OF assms that] lk lock_invD(2) [OF assms] s that(2) by auto
    show ?thesis using plain sole lk unfolding lock_inv_def by (auto simp: pg_advisory_unlock_def split: if_splits)
  qed
  show ?thesis using True s plain unlocked by (simp add: Release_def Let_def)
qed

lemma step_lock_inv: "lock_step sys sys' \<Longrightarrow> lock_inv sys \<Longrightarrow> lock_inv sys'"
proof (induction rule: lock_step.induct)
  case (try_acquire e sys a)
  then show ?case using TryAcquire_inv(1) by (metis prod.collapse)
next
  case (release sys e a)
  then show ?case by (rule Release_inv)
next
  case (session_end sys s)
  then show ?case by (auto simp: lock_inv_def session_ends_def split: option.splits if_splits)
next
  case (session_start sys s e)
  then show ?case unfolding lock_inv_def by (auto split: if_splits)
qed

lemma steps_lock_inv: "lock_steps sys sys' \<Longrightarrow> lock_inv sys \<Longrightarrow> lock_inv sys'"
  by (induction rule: rtranclp_induct) (auto intro: step_lock_inv)

lemma idle_lock_inv: "idle_sys sys \<Longrightarrow> lock_inv sys"
  by (simp add: idle_sys_def lock_inv_def newPostgresElector_def)

definition live_leader :: "replica_id \<Rightarrow> lock_sys \<Rightarrow> bool" where
  "live_leader e sys \<longleftrightarrow> isLeader (electors sys e) \<and> (\<exists>s. conn (electors sys e) = Some s \<and> alive sys s)"

text \<open>\<open>TryAcquire\<close> touches its own elector, and the lock only when it is free or its own.\<close>

lemma TryAcquire_others:
  assumes "TryAcquire e a l = (r, l')"
  shows "alive l' = alive l" and "x \<noteq> e \<Longrightarrow> electors l' x = electors l x"
proof -
  obtain c l1 where ec: "ensure_conn e a l = (c, l1)" by fastforce
  then have one: "alive l1 = alive l" "x \<noteq> e \<Longrightarrow> electors l1 x = electors l x"
    by (auto simp: ensure_conn_def Let_def split: option.splits if_splits)
  have try_lock: "alive l2 = alive l1 \<and> electors l2 = electors l1" if "pg_try_advisory_lock s l1 = (acq, l2)" for s acq l2
    using that by (auto simp: pg_try_advisory_lock_def split: option.splits if_splits)
  show "alive l' = alive l" and "x \<noteq> e \<Longrightarrow> electors l' x = electors l x"
    using assms ec one by (auto simp: TryAcquire_def split: sum.splits if_splits prod.splits dest: try_lock)
qed

lemma live_leader_unique: "lock_inv l \<Longrightarrow> live_leader e1 l \<Longrightarrow> live_leader e2 l \<Longrightarrow> e1 = e2"
proof -
  assume inv: "lock_inv l" and "live_leader e1 l" "live_leader e2 l"
  then obtain s1 s2 where s: "conn (electors l e1) = Some s1" "conn (electors l e2) = Some s2"
    and "isLeader (electors l e1)" "alive l s1" "isLeader (electors l e2)" "alive l s2" by (auto simp: live_leader_def)
  then have "s1 = s2" using lock_invD(4) [OF inv, of e1 s1] lock_invD(4) [OF inv, of e2 s2] by auto
  then show ?thesis using lock_invD(2) [OF inv s(1)] lock_invD(2) [OF inv s(2)] by simp
qed

subsection \<open>Properties\<close>

text \<open>
  C19. Mutual exclusion: whatever calls the replicas make, whatever the network does to them and whichever
  sessions end, at most one replica considers itself leader on a session that is still alive; and
  whenever \<open>TryAcquire\<close> answers yes, the lock is held at that moment by the session of the replica that asked.
\<close>

theorem election_mutual_exclusion:
  assumes "idle_sys sys0" and "lock_steps sys0 sys"
  shows "(live_leader e1 sys \<longrightarrow> live_leader e2 sys \<longrightarrow> e1 = e2) \<and>
    (\<forall>e a. pool_gives e sys (acquire1 a) \<longrightarrow> pool_gives e sys (acquire2 a) \<longrightarrow> fst (TryAcquire e a sys) = Inr True \<longrightarrow>
       (\<exists>s n. conn (electors (snd (TryAcquire e a sys)) e) = Some s \<and> lock_by (snd (TryAcquire e a sys)) = Some (s, n)))"
proof -
  have inv: "lock_inv sys" using steps_lock_inv [OF assms(2) idle_lock_inv [OF assms(1)]] .
  have "e1 = e2" if "live_leader e1 sys" "live_leader e2 sys" by (rule live_leader_unique [OF inv that])
  moreover have "\<exists>s n. conn (electors (snd (TryAcquire e a sys)) e) = Some s \<and> lock_by (snd (TryAcquire e a sys)) = Some (s, n)"
    if "pool_gives e sys (acquire1 a)" "pool_gives e sys (acquire2 a)" "fst (TryAcquire e a sys) = Inr True" for e a
    using TryAcquire_inv(2) [OF inv that(1,2) surjective_pairing that(3)] by blast
  ultimately show ?thesis by blast
qed

definition demo_sys :: lock_sys where
  "demo_sys = \<lparr>alive = (\<lambda>s. s < 2), owner = (\<lambda>s. s), lock_by = None, electors = (\<lambda>_. newPostgresElector)\<rparr>"

definition calm :: "session \<Rightarrow> answers" where
  "calm s = \<lparr>acquire1 = Some s, ping = True, acquire2 = None, sent = True, replied = True\<rparr>"

theorem election_mutual_exclusion_witness:
  "\<exists>s n. conn (electors (snd (TryAcquire 0 (calm 0) demo_sys)) 0) = Some s \<and> lock_by (snd (TryAcquire 0 (calm 0) demo_sys)) = Some (s, n)"
proof -
  have "idle_sys demo_sys" by (simp add: idle_sys_def demo_sys_def)
  moreover have "pool_gives 0 demo_sys (acquire1 (calm 0))" "pool_gives 0 demo_sys (acquire2 (calm 0))"
    by (simp_all add: pool_gives_def demo_sys_def calm_def)
  moreover have "fst (TryAcquire 0 (calm 0) demo_sys) = Inr True"
    by (simp add: TryAcquire_def ensure_conn_def pg_try_advisory_lock_def demo_sys_def newPostgresElector_def calm_def set_elector_def Let_def)
  ultimately show ?thesis using election_mutual_exclusion [of demo_sys demo_sys] by blast
qed

text \<open>
  Leadership is handed over: after a leader that took the lock once releases it with the unlock
  delivered, the lock is free, and any replica whose connection answers becomes leader at its next
  \<open>TryAcquire\<close>; the same holds when the leader's session ends instead.
\<close>

theorem leadership_handed_over:
  assumes "lock_by sys = Some (s, 1)" and "conn (electors sys e) = Some s" and "isLeader (electors sys e)" and "alive sys s"
    and "sent a" and "sys1 = snd (Release e a sys) \<or> sys1 = session_ends s sys"
    and "e' \<noteq> e" and "conn (electors sys e') = Some s'" and "alive sys s'" and "s' \<noteq> s" and "\<not> isLeader (electors sys e')"
    and "ping b" and "sent b" and "replied b"
  shows "lock_by sys1 = None \<and> fst (TryAcquire e' b sys1) = Inr True \<and> lock_by (snd (TryAcquire e' b sys1)) = Some (s', 1)"
proof -
  have free: "lock_by sys1 = None" and same: "electors sys1 e' = electors sys e'" "alive sys1 s'"
    using assms(1-10) by (auto simp: Release_def session_ends_def pg_advisory_unlock_def Let_def)
  then show ?thesis using assms(8-14)
    by (simp add: TryAcquire_def ensure_conn_def pg_try_advisory_lock_def set_elector_def Let_def)
qed

theorem leadership_handed_over_witness:
  "fst (TryAcquire 1 (calm 1) (snd (Release 0 (calm 0)
     \<lparr>alive = (\<lambda>s. s < 2), owner = (\<lambda>s. s), lock_by = Some (0, 1),
      electors = (\<lambda>e. if e = 0 then \<lparr>conn = Some 0, isLeader = True\<rparr> else \<lparr>conn = Some 1, isLeader = False\<rparr>)\<rparr>))) = Inr True"
  using leadership_handed_over [of "\<lparr>alive = (\<lambda>s. s < 2), owner = (\<lambda>s. s), lock_by = Some (0, 1),
      electors = (\<lambda>e. if e = 0 then \<lparr>conn = Some 0, isLeader = True\<rparr> else \<lparr>conn = Some 1, isLeader = False\<rparr>)\<rparr>" 0 0 "calm 0" _ 1 1 "calm 1"]
  by (simp add: calm_def)

text \<open>
  A leader can be deposed without knowing it. From a state where replica 0 has just been told
  that it is leader, its session can end and replica 1 can be told the same before replica 0 calls
  the elector again; both are then between \<open>TryAcquire\<close> and \<open>PromoteOnce\<close>, with both flags set.
\<close>

theorem stale_leader_possible:
  "\<exists>sys1 sys2 sys3. TryAcquire 0 (calm 0) demo_sys = (Inr True, sys1) \<and> lock_step sys1 sys2 \<and>
     TryAcquire 1 (calm 1) sys2 = (Inr True, sys3) \<and>
     isLeader (electors sys3 0) \<and> isLeader (electors sys3 1) \<and> electors sys2 0 = electors sys1 0"
proof -
  let ?sys1 = "snd (TryAcquire 0 (calm 0) demo_sys)" and ?e0 = "\<lparr>conn = Some 0, isLeader = True\<rparr>"
  have one: "TryAcquire 0 (calm 0) demo_sys = (Inr True, ?sys1)" and sys1: "alive ?sys1 = (\<lambda>s. s < 2)" "lock_by ?sys1 = Some (0, 1)"
    "electors ?sys1 = (\<lambda>_. \<lparr>conn = None, isLeader = False\<rparr>)(0 := ?e0)"
    by (simp_all add: TryAcquire_def ensure_conn_def pg_try_advisory_lock_def demo_sys_def newPostgresElector_def calm_def set_elector_def Let_def)
  let ?sys2 = "session_ends 0 ?sys1"
  have sys2: "alive ?sys2 1" "lock_by ?sys2 = None" "electors ?sys2 = electors ?sys1"
    using sys1 by (simp_all add: session_ends_def)
  then have "fst (TryAcquire 1 (calm 1) ?sys2) = Inr True" "isLeader (electors (snd (TryAcquire 1 (calm 1) ?sys2)) 0)"
    "isLeader (electors (snd (TryAcquire 1 (calm 1) ?sys2)) 1)"
    using sys1(3) by (simp_all add: TryAcquire_def ensure_conn_def pg_try_advisory_lock_def calm_def set_elector_def Let_def)
  then show ?thesis using one lock_step.session_end [of ?sys1 0] sys2(3) by (metis prod.collapse)
qed

end
