(* ===== verification/System.thy ===== *)
theory System
  imports Worker Lock
begin

text \<open>
  Several services on one store: what happens when their operations interleave. None of
  \<open>MarkRunning\<close>, \<open>CompleteRun\<close>, \<open>FailRun\<close> asks who holds the run or what state it is in, and a promotion
  pass is several transactions; the theorems here say what follows from that.
\<close>

subsection \<open>Operations that only append runs\<close>

definition runs_appended :: "world \<Rightarrow> world \<Rightarrow> bool" where
  "runs_appended w w' \<longleftrightarrow> (\<exists>new. job_runs (primary w') = job_runs (primary w) @ new)"

interpretation app: io_preorder runs_appended
  by unfold_locales (auto simp: runs_appended_def)

lemma reads_append: "io_rel (\<lambda>w w'. primary w' = primary w) m \<Longrightarrow> io_rel runs_appended m"
  by (auto simp: io_rel_def runs_appended_def)

lemmas reads_appended = store_reads [THEN reads_append]

lemma create_appends: "io_rel runs_appended (CreateRun j p sch)"
proof (rule io_relI)
  fix w
  obtain r w' where run: "run_state (CreateRun j p sch) w = (r, w')" by (cases "run_state (CreateRun j p sch) w")
  then show "runs_appended w (snd (run_state (CreateRun j p sch) w))"
    using CreateRun_effect [OF run] by (auto simp: runs_appended_def)
qed

lemma promotion_appends: "io_rel runs_appended (PromoteOnce pg_store cron (host_clock skew))"
proof -
  have deps: "io_rel runs_appended (deps_satisfied pg_store ds)" for ds
    by (induction ds) (auto intro!: app.io_body reads_appended)
  have "io_rel runs_appended (host_clock skew)" by (rule io_relI) (simp add: host_clock_def app.R_refl)
  then show ?thesis
    unfolding PromoteOnce_def promote_job_def promote_inactive_def DependenciesSatisfied_def pg_store_simps
    by (intro app.io_body reads_appended create_appends deps)
qed

subsection \<open>The background of the system\<close>

text \<open>
  What goes on without the worker that holds a run: other workers lease, janitors reclaim, promoters
  promote, time passes, connections fail and rows get locked.
\<close>

inductive background :: "world \<Rightarrow> world \<Rightarrow> bool" where
  reclaims: "background w (snd (run_state ReclaimExpiredLeases w))"
| leases: "background w (snd (run_state (LeaseNextRun x ld) w))"
| promotes: "background w (snd (run_state (PromoteOnce pg_store cron (host_clock skew)) w))"
| beats: "background w (snd (run_state (UpsertWorkerHeartbeat x h) w))"
| passes: "clock w \<le> c \<Longrightarrow> background w (w\<lparr>clock := c, script := scr, row_locked := lk\<rparr>)"

context run_table_invariant
begin

lemma keeps_promotion: "keeps (both gen P) (PromoteOnce pg_store cron (host_clock skew))"
proof -
  have deps: "keeps (both gen P) (deps_satisfied pg_store ds)" for ds
    by (induction ds) (auto intro!: keep.io_body keeps_reads)
  have "keeps (both gen P) (host_clock skew)" by (rule io_relI) (simp add: host_clock_def)
  then show ?thesis
    unfolding PromoteOnce_def promote_job_def promote_inactive_def DependenciesSatisfied_def pg_store_simps
    by (intro keep.io_body keeps_reads keeps_CreateRun deps)
qed

end

lemma closed_promotion: "keeps tx_closed (PromoteOnce pg_store cron (host_clock skew))"
proof -
  have deps: "keeps tx_closed (deps_satisfied pg_store ds)" for ds
    by (induction ds) (auto intro!: keep.io_body closed_store)
  have "keeps tx_closed (host_clock skew)" by (rule io_relI) (simp add: host_clock_def)
  then show ?thesis
    unfolding PromoteOnce_def promote_job_def promote_inactive_def DependenciesSatisfied_def pg_store_simps
    by (intro keep.io_body closed_store deps)
qed

lemma wf_promotion:
  assumes "wf_world w" and "run_state (PromoteOnce pg_store cron (host_clock skew)) w = (r, w')"
  shows "wf_world w'"
  by (rule wf_kept [OF assms frame_PromoteOnce closed_promotion schema.keeps_promotion ids.keeps_promotion])

lemma background_wf: "background w w' \<Longrightarrow> wf_world w \<Longrightarrow> wf_world w'"
proof (induction rule: background.induct)
  case (passes w c scr lk)
  then show ?case by (simp add: wf_world_def)
qed (metis prod.collapse wf_store(4,10,11) wf_promotion)+

text \<open>A run that is running without a lease: no janitor, poll or promoter can touch it.\<close>

definition orphaned :: "run_row \<Rightarrow> db \<Rightarrow> bool" where
  "orphaned r d \<longleftrightarrow> r \<in> set (job_runs d) \<and> run_Status r = RunStatusRunning \<and> run_LeaseExpiresAt r = None"

lemma orphaned_update:
  "orphaned r d \<Longrightarrow> \<not> p r \<Longrightarrow> orphaned r (d\<lparr>job_runs := update_where p f (job_runs d)\<rparr>)"
  by (auto simp: orphaned_def in_update_where)

lemma background_orphaned:
  assumes "background w w'" and "wf_world w" and "orphaned r (primary w)"
  shows "orphaned r (primary w')"
  using assms
proof (induction rule: background.induct)
  case (reclaims w)
  obtain res w' where run: "run_state ReclaimExpiredLeases w = (res, w')" by (cases "run_state ReclaimExpiredLeases w")
  have "\<not> lease_expired t r" for t using reclaims(2) by (simp add: orphaned_def lease_expired_def)
  then have here: "orphaned r ((primary w)\<lparr>job_runs := update_where (lease_expired t) reclaim_row (job_runs (primary w))\<rparr>)" for t
    using orphaned_update [OF reclaims(2)] by blast
  have "primary w' = primary w \<or> (\<exists>t. primary w' = (primary w)\<lparr>job_runs := update_where (lease_expired t) reclaim_row (job_runs (primary w))\<rparr>)"
    using ReclaimExpiredLeases_cases [OF wf_worldD(1) [OF reclaims(1)] run] by blast
  then show ?case using here reclaims(2) run by (elim disjE exE) simp_all
next
  case (leases w x ld)
  obtain res w' where run: "run_state (LeaseNextRun x ld) w = (res, w')" by (cases "run_state (LeaseNextRun x ld) w")
  have "run_ID r \<noteq> run_ID c" if "lease_candidate t (row_locked w) (primary w) = Some c" for t c
  proof
    assume "run_ID r = run_ID c"
    then have "r = c"
      using distinct_key_unique [OF integrity_runs [OF wf_worldD(2) [OF leases(1)]]] lease_candidate_Some(1) [OF that] leases(2)
      by (auto simp: orphaned_def)
    then show False using lease_candidate_Some(2) [OF that] leases(2) by (simp add: orphaned_def)
  qed
  then have here: "orphaned r (leased_db x ld t c (primary w))" if "lease_candidate t (row_locked w) (primary w) = Some c" for t c
    using orphaned_update [OF leases(2), of "\<lambda>y. run_ID y = run_ID c" "lease_row x ld t"] that by (simp add: leased_db_def)
  have "primary w' = primary w \<or> (\<exists>t c. lease_candidate t (row_locked w) (primary w) = Some c \<and> primary w' = leased_db x ld t c (primary w))"
    using LeaseNextRun_cases [OF leases(1) run] by blast
  then show ?case using here leases(2) run by (elim disjE exE conjE) simp_all
next
  case (promotes w cron skew)
  obtain res w' where run: "run_state (PromoteOnce pg_store cron (host_clock skew)) w = (res, w')"
    by (cases "run_state (PromoteOnce pg_store cron (host_clock skew)) w")
  then show ?case using io_relD [OF promotion_appends run] promotes(2) by (auto simp: runs_appended_def orphaned_def)
next
  case (beats w x h)
  then show ?case
    by (auto simp: UpsertWorkerHeartbeat_def driver_call_def write_db_def orphaned_def deliver_fields split: prod.splits fault.splits)
qed simp

lemma backgrounds_orphaned:
  "background\<^sup>*\<^sup>* w w' \<Longrightarrow> wf_world w \<Longrightarrow> orphaned r (primary w) \<Longrightarrow> wf_world w' \<and> orphaned r (primary w')"
  by (induction rule: rtranclp_induct) (blast intro: background_wf background_orphaned)+

subsection \<open>Properties\<close>

text \<open>
  C20. A run that is running without a lease is stuck: whatever janitors, polls, promoters and heartbeats
  do, with any faults and however much time passes, its row stays as it is, no poll ever picks it,
  and its job counts as having an active run, so it is never promoted again.
\<close>

theorem orphaned_run_is_stuck:
  assumes "wf_world w" and "orphaned r (primary w)" and "background\<^sup>*\<^sup>* w w'"
  shows "r \<in> set (job_runs (primary w')) \<and> has_active_run (run_JobID r) (primary w') \<and>
    lease_candidate t lk (primary w') \<noteq> Some r"
proof -
  have r: "orphaned r (primary w')" using backgrounds_orphaned [OF assms(3,1,2)] by blast
  then have "has_active_run (run_JobID r) (primary w')"
    by (auto simp: orphaned_def has_active_run_def list_ex_iff)
  moreover have "lease_candidate t lk (primary w') \<noteq> Some r"
    using r lease_candidate_Some(2) [of t lk "primary w'" r] by (auto simp: orphaned_def)
  ultimately show ?thesis using r by (simp add: orphaned_def)
qed

lemma demo_started:
  "run_state (MarkRunning (demo_uuid 1)) (demo_world demo_db 2) =
     (Inr (), edit_run (demo_uuid 1) (mark_running_row 0) (demo_world demo_db 2))"
  using MarkRunning_good [OF good_demo, of "demo_uuid 1" "demo_uuid 1"] demo_exists by simp

theorem orphaned_run_is_stuck_witness:
  "has_active_run (run_JobID (mark_running_row 0 demo_run))
     (primary (snd (run_state ReclaimExpiredLeases (edit_run (demo_uuid 1) (mark_running_row 0) (demo_world demo_db 2)))))"
proof -
  let ?w = "edit_run (demo_uuid 1) (mark_running_row 0) (demo_world demo_db 2)"
  have "wf_world ?w" using good_store(6) [OF good_demo demo_started] by (simp add: good_def)
  moreover have "orphaned (mark_running_row 0 demo_run) (primary ?w)"
    by (simp add: orphaned_def mark_running_row_def demo_run_def new_run_row_def)
  ultimately show ?thesis
    using orphaned_run_is_stuck [OF _ _ r_into_rtranclp [of background, OF background.reclaims]] by blast
qed

text \<open>
  How a run gets stuck: a worker leases a run, is delayed past the end of its lease, a janitor
  reclaims the run, and only then does the worker's \<open>MarkRunning\<close> arrive. It succeeds, although the
  worker no longer holds the run, and leaves it running with no lease and no holder.
\<close>

theorem late_start_orphans_run:
  assumes "good w" and "run_state (LeaseNextRun x ld) w = (Inr (Some (run, job)), w1)"
    and "clock w1 + sint ld < c" and "clock w1 \<le> c" and "run_state ReclaimExpiredLeases (w1\<lparr>clock := c\<rparr>) = (res, w2)"
  shows "\<exists>w3 r. run_state (MarkRunning (run_ID run)) w2 = (Inr (), w3) \<and> wf_world w3 \<and> orphaned r (primary w3) \<and>
    run_ID r = run_ID run \<and> run_LeasedBy r = None"
proof -
  obtain r where r: "run = run_view (lease_row x ld (clock w) r)"
      "reclaim_row (lease_row x ld (clock w) r) \<in> set (job_runs (primary w2))" and good2: "good w2"
    by (rule reclaimed_after_lease [OF assms])
  let ?r = "reclaim_row (lease_row x ld (clock w) r)" and ?w3 = "edit_run (run_ID run) (mark_running_row (clock w2)) w2"
  have ex: "run_exists (run_ID run) (primary w2)" using run_in_exists [OF r(2)] r(1) by simp
  then have "uuid_in w2 (run_ID run) = Some (run_ID run)" using good_uuid good2 by blast
  then have start: "run_state (MarkRunning (run_ID run)) w2 = (Inr (), ?w3)"
    using MarkRunning_good [OF good2] ex by simp
  have "mark_running_row (clock w2) ?r \<in> set (job_runs (primary ?w3))" using r by (auto simp: in_update_where)
  then have "orphaned (mark_running_row (clock w2) ?r) (primary ?w3) \<and> run_ID (mark_running_row (clock w2) ?r) = run_ID run \<and>
      run_LeasedBy (mark_running_row (clock w2) ?r) = None"
    using r(1) by (simp add: orphaned_def mark_running_row_def)
  moreover have "wf_world ?w3" using good_store(6) [OF good2 start] by (simp add: good_def)
  ultimately show ?thesis using start by blast
qed

definition demo_reclaimed :: world where
  "demo_reclaimed = snd (run_state ReclaimExpiredLeases
     ((edit_run (demo_uuid 1) (lease_row ''w1'' 30000000000 0) (demo_world demo_db 2))\<lparr>clock := 30000000001\<rparr>))"

theorem late_start_orphans_run_witness:
  "\<exists>w3 r. run_state (MarkRunning (demo_uuid 1)) demo_reclaimed = (Inr (), w3) \<and> orphaned r (primary w3)"
  using late_start_orphans_run [OF good_demo demo_lease _ _ surjective_pairing, of 30000000001]
  by (auto simp: demo_reclaimed_def)

text \<open>
  A slow worker's run is executed twice. No code extends a lease, so when a run takes longer than
  its lease and every other run is finished, the next poll after the reclaim, by any worker, is given
  the same run with one more attempt counted, while the first worker is still executing it.
\<close>

theorem slow_run_leased_twice:
  assumes "good w" and "run_state (LeaseNextRun x ld) w = (Inr (Some (run, job)), w1)"
    and "clock w1 + sint ld < c" and "clock w1 \<le> c" and "run_state ReclaimExpiredLeases (w1\<lparr>clock := c\<rparr>) = (res, w2)"
    and "\<And>r. r \<in> set (job_runs (primary w)) \<Longrightarrow> active_status (run_Status r) \<Longrightarrow> run_ID r = run_ID run"
    and "\<not> row_locked w (run_ID run)" and "sint (run_Attempt run) \<noteq> 32767"
  shows "\<exists>run2 job2 w3. run_state (LeaseNextRun y ld2) w2 = (Inr (Some (run2, job2)), w3) \<and>
    run_ID run2 = run_ID run \<and> run_Attempt run2 = run_Attempt run + 1 \<and> run_LeasedBy run2 = Some y"
proof -
  obtain r where sched: "run_ScheduledAt r \<le> clock w" and run: "run = run_view (lease_row x ld (clock w) r)"
    and here: "reclaim_row (lease_row x ld (clock w) r) \<in> set (job_runs (primary w2))" (is "?r \<in> _")
    and w2: "w2 = write_db (\<lambda>d. d\<lparr>job_runs := update_where (lease_expired c) reclaim_row
          (update_where (\<lambda>y. run_ID y = run_ID r) (lease_row x ld (clock w)) (job_runs d))\<rparr>) (w\<lparr>clock := c\<rparr>)"
    and good2: "good w2" by (rule reclaimed_after_lease [OF assms(1-5)])
  have clk: "clock w2 = c" "row_locked w2 = row_locked w" using w2 by (simp_all add: write_db_def)
  have "clock w1 = clock w" using io_relD [OF frame_transactions(2) assms(2)] good_fields(1) [OF assms(1)]
    by (simp add: env_frame_def)
  then have "run_ScheduledAt ?r \<le> clock w2" using sched assms(4) clk by simp
  then obtain r' where cand: "lease_candidate (clock w2) (row_locked w2) (primary w2) = Some r'"
    using here assms(7) run clk by (cases "lease_candidate (clock w2) (row_locked w2) (primary w2)")
      (auto simp: lease_candidate_def filter_empty_conv)
  note r' = lease_candidate_Some [OF cand]
  obtain r0 where r0: "r0 \<in> set (job_runs (primary w))" and "run_ID r0 = run_ID r'" "run_ID r0 \<noteq> run_ID r \<longrightarrow> active_status (run_Status r0)"
    using r'(1,2) by (fastforce simp: w2 write_db_def in_update_where lease_expired_def split: if_splits)
  then have "run_ID r' = run_ID ?r" using assms(6) [OF r0] run by fastforce
  then have "r' = ?r"
    using distinct_key_unique [OF integrity_runs [OF good_fields(4) [OF good2]] r'(1) here] by simp
  then show ?thesis using LeaseNextRun_good [OF good2, of y ld2] cand assms(8) run
    by (simp add: lease_row_def)
qed

theorem slow_run_leased_twice_witness:
  "\<exists>run2 job2 w3. run_state (LeaseNextRun ''w2'' 30000000000) demo_reclaimed = (Inr (Some (run2, job2)), w3) \<and>
     run_ID run2 = demo_uuid 1 \<and> run_Attempt run2 = 2 \<and> run_LeasedBy run2 = Some ''w2''"
proof -
  have "run_Attempt (run_view (lease_row ''w1'' 30000000000 0 demo_run)) = 1" by (simp add: lease_row_def)
  then show ?thesis
    using slow_run_leased_twice [OF good_demo demo_lease _ _ surjective_pairing, of 30000000001 "''w2''" 30000000000]
    by (simp add: demo_reclaimed_def)
qed

text \<open>
  Promotion needs its leader: a pass is safe against faults but not against a second pass
  at the same time. When two promoters both ask for active runs of an idle job before either
  creates one, both are answered no, both create a run, and the job has two active runs.
\<close>

theorem interleaved_promoters_double_run:
  assumes "good w" and "job_exists j (primary w)" and "\<not> has_active_run j (primary w)"
    and "run_state (HasActiveRun j) w = (a1, w1)" and "run_state (HasActiveRun j) w1 = (a2, w2)"
    and "run_state (CreateRun j p1 t1) w2 = (c1, w3)" and "run_state (CreateRun j p2 t2) w3 = (c2, w4)"
  shows "a1 = Inr False \<and> a2 = Inr False \<and> (\<exists>r1 r2. c1 = Inr r1 \<and> c2 = Inr r2 \<and> run_ID r1 \<noteq> run_ID r2) \<and> active_runs w4 j = 2"
proof -
  have id: "uuid_in w j = Some j" using good_uuid assms(1,2) by blast
  have reads: "a1 = Inr False" "a2 = Inr False" "w2 = w"
    using assms(3-5) HasActiveRun_good [OF assms(1) id] by auto
  let ?row1 = "new_run_row (uuid_gen w (uuid_next w)) (clock w) j p1 t1"
  have one: "c1 = Inr (run_view ?row1)"
    "w3 = write_db (\<lambda>d. d\<lparr>job_runs := job_runs d @ [?row1]\<rparr>) (w\<lparr>uuid_next := Suc (uuid_next w)\<rparr>)"
    using assms(6) CreateRun_good [OF assms(1,2), of p1 t1] reads by simp_all
  have good3: "good w3" using good_store(3) [OF assms(1)] assms(6) reads by simp
  have "job_exists j (primary w3)" using assms(2) one by (simp add: write_db_def)
  from CreateRun_good [OF good3 this, of p2 t2] assms(7)
  have two: "c2 = Inr (run_view (new_run_row (uuid_gen w3 (uuid_next w3)) (clock w3) j p2 t2))"
    "primary w4 = (primary w3)\<lparr>job_runs := job_runs (primary w3) @ [new_run_row (uuid_gen w3 (uuid_next w3)) (clock w3) j p2 t2]\<rparr>"
    by (auto simp: write_db_def)
  have "inj (uuid_gen w)" using assms(1) by (simp add: good_def wf_world_def)
  then have "uuid_gen w (uuid_next w) \<noteq> uuid_gen w (Suc (uuid_next w))" by (metis injD n_not_Suc_n)
  then have "uuid_gen w (uuid_next w) \<noteq> uuid_gen w3 (uuid_next w3)" by (simp add: one(2) write_db_def)
  moreover have "active_runs w j = 0" using assms(3) by (auto simp: active_runs_def has_active_run_def list_ex_iff filter_empty_conv)
  then have "active_runs w4 j = 2" using one two by (simp add: active_runs_def write_db_def new_run_row_def)
  ultimately show ?thesis using reads one two by (simp add: new_run_row_def)
qed

theorem interleaved_promoters_double_run_witness:
  "active_runs (snd (run_state (CreateRun (demo_uuid 0) 3 0) (snd (run_state (CreateRun (demo_uuid 0) 3 0)
     (snd (run_state (HasActiveRun (demo_uuid 0)) (snd (run_state (HasActiveRun (demo_uuid 0))
       (demo_world (empty_db\<lparr>jobs := [demo_job]\<rparr>) 1))))))))) (demo_uuid 0) = 2"
proof -
  let ?w = "demo_world (empty_db\<lparr>jobs := [demo_job]\<rparr>) 1"
  have "good ?w" by (rule good_store(1) [OF good_demo_empty demo_CreateJob])
  moreover have "job_exists (demo_uuid 0) (primary ?w)" "\<not> has_active_run (demo_uuid 0) (primary ?w)"
    by (simp_all add: job_exists_def has_active_run_def demo_job_def new_job_row_def empty_db_def)
  ultimately show ?thesis
    using interleaved_promoters_double_run [OF _ _ _ surjective_pairing surjective_pairing surjective_pairing surjective_pairing]
    by blast
qed

text \<open>
  A finished run is not final: \<open>FailRun\<close> with a requeue, as a worker that lost its lease sends it
  when its own attempt fails late, succeeds on a run that another worker has completed, and makes it pending
  again, to be executed once more.
\<close>

theorem succeeded_run_can_restart:
  assumes "good w" and "r \<in> set (job_runs (primary w))" and "run_Status r = RunStatusSucceeded"
  shows "\<exists>w'. run_state (FailRun (run_ID r) msg True backoff) w = (Inr (), w') \<and>
    r\<lparr>run_Status := RunStatusPending, run_ScheduledAt := clock w + sint backoff, run_Error := Some msg,
      run_LeasedBy := None, run_LeasedAt := None, run_LeaseExpiresAt := None\<rparr> \<in> set (job_runs (primary w'))"
proof -
  have ex: "run_exists (run_ID r) (primary w)" using assms(2) by (rule run_in_exists)
  then have "uuid_in w (run_ID r) = Some (run_ID r)" using good_uuid assms(1) by blast
  then have "run_state (FailRun (run_ID r) msg True backoff) w = (Inr (), edit_run (run_ID r) (requeue_row backoff msg (clock w)) w)"
    using FailRun_good [OF assms(1)] ex by simp
  moreover have "requeue_row backoff msg (clock w) r \<in> set (job_runs (primary (edit_run (run_ID r) (requeue_row backoff msg (clock w)) w)))"
    using assms(2) by (auto simp: in_update_where)
  ultimately show ?thesis by (auto simp: requeue_row_def)
qed

theorem succeeded_run_can_restart_witness:
  "\<exists>w'. run_state (FailRun (demo_uuid 1) ''late'' True 0)
     (edit_run (demo_uuid 1) (complete_row GNil 0) (demo_world demo_db 2)) = (Inr (), w')"
proof -
  let ?w = "edit_run (demo_uuid 1) (complete_row GNil 0) (demo_world demo_db 2)"
  have "run_exists (demo_uuid 1) (primary (demo_world demo_db 2))" using demo_exists by simp
  then have "run_state (CompleteRun (demo_uuid 1) None) (demo_world demo_db 2) = (Inr (), ?w)"
    using CompleteRun_good [OF good_demo, of "demo_uuid 1" "demo_uuid 1" None GNil] by (simp add: json_Marshal_def)
  then have "good ?w" by (rule good_store(7) [OF good_demo])
  moreover have "complete_row GNil 0 demo_run \<in> set (job_runs (primary ?w))" by simp
  moreover have "run_Status (complete_row GNil 0 demo_run) = RunStatusSucceeded" "run_ID (complete_row GNil 0 demo_run) = demo_uuid 1"
    by (simp_all add: complete_row_def)
  ultimately show ?thesis using succeeded_run_can_restart [of ?w "complete_row GNil 0 demo_run" "''late''" 0] by auto
qed

end
