(* ===== verification/Service.thy ===== *)
theory Service
  imports Config Cache_Props Migrate System
begin

text \<open>
  The three services: how they start from their configuration (\<open>src/cmd/api/main.go\<close>, \<open>src/cmd/scheduler/main.go\<close>,
  \<open>src/cmd/worker/main.go\<close>) and the loops they run (\<open>Promoter.Run\<close>, \<open>Pool.Run\<close>, \<open>leaseLoop\<close>, \<open>heartbeatLoop\<close>, \<open>janitorLoop\<close>). A loop
  is a function of the events its \<open>select\<close> receives, in their order; when they run out it is still waiting. Steps of several
  loops are interleaved in theory \<open>System\<close>.
\<close>

subsection \<open>Loops\<close>

datatype event = Tick | Ctx_done

datatype loop_state = Waiting | Returned | Panicked

text \<open>\<open>time.NewTicker\<close> panics when the interval is not positive.\<close>

definition with_ticker :: "duration \<Rightarrow> ('s, loop_state) state \<Rightarrow> ('s, loop_state) state" where
  "with_ticker d body = (if sint d \<le> 0 then ret Panicked else body)"

fun promoter_loop :: "('s, err + bool) state \<Rightarrow> ('s, err + unit) state \<Rightarrow> 's store_api \<Rightarrow> cron_lib \<Rightarrow> ('s, time) state \<Rightarrow>
    event list \<Rightarrow> ('s, loop_state) state" where
  "promoter_loop try_acquire release st cron time_Now [] = ret Waiting"
| "promoter_loop try_acquire release st cron time_Now (Ctx_done # es) = do { _ \<leftarrow> release; ret Returned }"
| "promoter_loop try_acquire release st cron time_Now (Tick # es) = do {
     _ \<leftarrow> promoter_tick try_acquire st cron time_Now;
     promoter_loop try_acquire release st cron time_Now es }"

text \<open>The interface \<open>lock.Elector\<close> and the \<open>Promoter\<close> that uses it.\<close>

record 's elector_api =
  api_TryAcquire :: "('s, err + bool) state"
  api_Release :: "('s, err + unit) state"

record 's promoter =
  prom_Store :: "'s store_api"
  prom_Elector :: "'s elector_api"
  prom_Interval :: duration

definition NewPromoter :: "'s store_api \<Rightarrow> 's elector_api \<Rightarrow> duration \<Rightarrow> 's promoter" where
  "NewPromoter st el interval = \<lparr>prom_Store = st, prom_Elector = el, prom_Interval = interval\<rparr>"

definition promoter_Run :: "'s promoter \<Rightarrow> cron_lib \<Rightarrow> ('s, time) state \<Rightarrow> event list \<Rightarrow> ('s, loop_state) state" where
  "promoter_Run p cron time_Now es = with_ticker (prom_Interval p)
     (promoter_loop (api_TryAcquire (prom_Elector p)) (api_Release (prom_Elector p)) (prom_Store p) cron time_Now es)"

text \<open>
  An iteration of \<open>leaseLoop\<close> sees whether the context is over when it checks, and, if it sleeps, whether \<open>sleepCtx\<close> reports the timer
  (\<open>True\<close>) or the context.
\<close>

fun leaseLoop :: "'s pool \<Rightarrow> ('s, time) state \<Rightarrow> go_context \<Rightarrow> (bool \<times> bool) list \<Rightarrow> ('s, loop_state) state" where
  "leaseLoop p time_Now ctx [] = ret Waiting"
| "leaseLoop p time_Now ctx ((cancelled, slept) # obs) =
     (if cancelled then ret Returned
      else do {
        executed \<leftarrow> lease_turn p time_Now ctx;
        if executed \<or> slept then leaseLoop p time_Now ctx obs else ret Returned })"

fun ticker_loop :: "('s, unit) state \<Rightarrow> event list \<Rightarrow> ('s, loop_state) state" where
  "ticker_loop turn [] = ret Waiting"
| "ticker_loop turn (Ctx_done # es) = ret Returned"
| "ticker_loop turn (Tick # es) = do { _ \<leftarrow> turn; ticker_loop turn es }"

definition heartbeatLoop :: "'s pool \<Rightarrow> string option \<Rightarrow> event list \<Rightarrow> ('s, loop_state) state" where
  "heartbeatLoop p hostname es = with_ticker (PollInterval p) (ticker_loop (heartbeat_turn p hostname) es)"

definition janitorLoop :: "'s pool \<Rightarrow> event list \<Rightarrow> ('s, loop_state) state" where
  "janitorLoop p es = with_ticker (PollInterval p * 5) (ticker_loop (janitor_turn p) es)"

text \<open>Once the context is over a loop changes nothing more, whatever would have come.\<close>

lemma leaseLoop_stops:
  assumes "\<forall>(cancelled, slept)\<in>set obs. \<not> cancelled \<and> slept"
  shows "leaseLoop p time_Now ctx (obs @ (True, slept) # rest) = do { _ \<leftarrow> for_each (\<lambda>_. lease_turn p time_Now ctx) obs; ret Returned }"
  using assms
proof (induction obs)
  case (Cons o' obs)
  then show ?case by (auto intro!: state_ext split: prod.splits)
qed (auto intro!: state_ext)

lemma ticker_loop_stops:
  "ticker_loop turn (replicate n Tick @ Ctx_done # rest) = do { _ \<leftarrow> for_each (\<lambda>_. turn) (replicate n ()); ret Returned }"
  by (induction n) (auto intro!: state_ext split: prod.splits)

subsection \<open>Starting up\<close>

text \<open>The calls of the driver and of the trace exporter that can fail, as functions of the address.\<close>

record libraries =
  otlp_New :: "string \<Rightarrow> err option"
  pgx_ParseConfig :: "string \<Rightarrow> err option"
  pgx_NewWithConfig :: "string \<Rightarrow> err option"
  pgx_Ping :: "string \<Rightarrow> err option"

definition tracing_Init :: "libraries \<Rightarrow> string \<Rightarrow> err option" where
  "tracing_Init lib otlpEndpoint = (if otlpEndpoint = [] then None else map_option (ErrWrap ''create otlp exporter'') (otlp_New lib otlpEndpoint))"

definition store_New :: "libraries \<Rightarrow> string \<Rightarrow> err option" where
  "store_New lib url = (case pgx_ParseConfig lib url of
     Some e \<Rightarrow> Some (ErrWrap ''parse database url'' e)
   | None \<Rightarrow> (case pgx_NewWithConfig lib url of
       Some e \<Rightarrow> Some (ErrWrap ''create pgx pool'' e)
     | None \<Rightarrow> map_option (ErrWrap ''ping database'') (pgx_Ping lib url)))"

definition EnableReadReplica :: "libraries \<Rightarrow> string \<Rightarrow> err option" where
  "EnableReadReplica lib url = (case pgx_ParseConfig lib url of
     Some e \<Rightarrow> Some (ErrWrap ''parse replica database url'' e)
   | None \<Rightarrow> (case pgx_NewWithConfig lib url of
       Some e \<Rightarrow> Some (ErrWrap ''create replica pgx pool'' e)
     | None \<Rightarrow> map_option (ErrWrap ''ping replica database'') (pgx_Ping lib url)))"

text \<open>
  What the three \<open>main\<close> functions have in common: configuration, tracing, the store, the migrations. The result is the message with
  which the process exits, or the configuration.
\<close>

definition boot :: "(config \<Rightarrow> string option) \<Rightarrow> environment \<Rightarrow> libraries \<Rightarrow> (string \<Rightarrow> err option) \<Rightarrow> string + config" where
  "boot check_config env lib migrate = (case Load env of
     Inl _ \<Rightarrow> Inl ''load config''
   | Inr cfg \<Rightarrow> (case check_config cfg of Some msg \<Rightarrow> Inl msg | None \<Rightarrow>
      (if tracing_Init lib (cfg_OTLPEndpoint cfg) \<noteq> None then Inl ''init tracing''
       else if store_New lib (cfg_DatabaseURL cfg) \<noteq> None then Inl ''connect to database''
       else if migrate (cfg_DatabaseURL cfg) \<noteq> None then Inl ''run migrations''
       else Inr cfg)))"

text \<open>
  The API service serves its store: with a replica or without, through the cache or not, behind a limiter and the secret.
\<close>

record api_service =
  svc_replica :: bool
  svc_cached :: bool
  svc_secret :: string
  svc_rps :: float64
  svc_burst :: int

definition api_main :: "environment \<Rightarrow> libraries \<Rightarrow> (string \<Rightarrow> err option) \<Rightarrow> string + api_service" where
  "api_main env lib migrate = (case boot (\<lambda>cfg. if cfg_JWTSecret cfg = [] then Some ''JWT_SECRET must be set'' else None) env lib migrate of
     Inl msg \<Rightarrow> Inl msg
   | Inr cfg \<Rightarrow>
       if cfg_ReplicaURL cfg \<noteq> [] \<and> EnableReadReplica lib (cfg_ReplicaURL cfg) \<noteq> None then Inl ''connect to read replica''
       else Inr \<lparr>svc_replica = (cfg_ReplicaURL cfg \<noteq> []), svc_cached = (cfg_RedisAddr cfg \<noteq> []), svc_secret = cfg_JWTSecret cfg,
          svc_rps = cfg_RateLimitRPS cfg, svc_burst = cfg_RateLimitBurst cfg\<rparr>)"

definition promotionLockKey :: int where
  "promotionLockKey = 727433001"

text \<open>The scheduler's promoter ticks with the poll interval.\<close>

definition scheduler_main :: "environment \<Rightarrow> libraries \<Rightarrow> (string \<Rightarrow> err option) \<Rightarrow> string + duration" where
  "scheduler_main env lib migrate = (case boot (\<lambda>_. None) env lib migrate of Inl msg \<Rightarrow> Inl msg | Inr cfg \<Rightarrow> Inr (cfg_PollInterval cfg))"

definition NewPool :: "'s store_api \<Rightarrow> string \<Rightarrow> duration \<Rightarrow> duration \<Rightarrow> 's pool" where
  "NewPool st workerID leaseDuration pollInterval =
     \<lparr>Store = st, WorkerID = workerID, LeaseDuration = leaseDuration, PollInterval = pollInterval, handlers = (\<lambda>_. None)\<rparr>"

definition worker_pool :: "'s store_api \<Rightarrow> 's handler \<Rightarrow> 's handler \<Rightarrow> 's handler \<Rightarrow> config \<Rightarrow> 's pool" where
  "worker_pool st echo sleep http_call cfg =
     RegisterHandler ''http_call'' http_call (RegisterHandler ''sleep'' sleep (RegisterHandler ''echo'' echo
       (NewPool st (cfg_WorkerID cfg) (cfg_LeaseDuration cfg) (cfg_PollInterval cfg))))"

text \<open>\<open>Pool.Run\<close> starts \<open>Concurrency\<close> lease loops, none when it is negative, a heartbeat and a janitor.\<close>

datatype goroutine = Lease_loop | Heartbeat_loop | Janitor_loop

definition pool_Run :: "int \<Rightarrow> goroutine list" where
  "pool_Run concurrency = replicate (nat concurrency) Lease_loop @ [Heartbeat_loop, Janitor_loop]"

definition worker_main ::
  "'s store_api \<Rightarrow> 's handler \<Rightarrow> 's handler \<Rightarrow> 's handler \<Rightarrow> environment \<Rightarrow> libraries \<Rightarrow> (string \<Rightarrow> err option) \<Rightarrow> string + 's pool \<times> goroutine list" where
  "worker_main st echo sleep http_call env lib migrate = (case boot (\<lambda>_. None) env lib migrate of
     Inl msg \<Rightarrow> Inl msg
   | Inr cfg \<Rightarrow> Inr (worker_pool st echo sleep http_call cfg, pool_Run (cfg_Concurrency cfg)))"

lemma boot_ready:
  assumes "boot check_config env lib migrate = Inr cfg"
  shows "Load env = Inr cfg" "check_config cfg = None" "store_New lib (cfg_DatabaseURL cfg) = None" "migrate (cfg_DatabaseURL cfg) = None"
  using assms by (auto simp: boot_def split: sum.splits option.splits if_splits)

lemma worker_handlers:
  assumes "worker_main st echo sleep http_call env lib migrate = Inr (p, gs)"
  shows "dom (handlers p) = {''echo'', ''sleep'', ''http_call''}"
  using assms by (auto simp: worker_main_def worker_pool_def RegisterHandler_def NewPool_def split: sum.splits if_splits)

text \<open>
  The API does not come up open or half set up. When \<open>main\<close> starts to serve, the configuration was loaded, the database
  answered, the migrations ended without an error and the secret is not empty; so no token signed with the empty secret
  is ever accepted. A read replica is used exactly when one is configured and answered, the cache exactly when its address is set.
\<close>

theorem api_serves_when_ready:
  assumes "api_main env lib migrate = Inr svc"
  shows "\<exists>cfg. Load env = Inr cfg \<and> store_New lib (cfg_DatabaseURL cfg) = None \<and> migrate (cfg_DatabaseURL cfg) = None \<and>
    svc_secret svc = cfg_JWTSecret cfg \<and> svc_secret svc \<noteq> [] \<and> (svc_cached svc \<longleftrightarrow> cfg_RedisAddr cfg \<noteq> []) \<and>
    (svc_replica svc \<longleftrightarrow> cfg_ReplicaURL cfg \<noteq> []) \<and> (svc_replica svc \<longrightarrow> EnableReadReplica lib (cfg_ReplicaURL cfg) = None)"
proof -
  obtain cfg where cfg: "boot (\<lambda>cfg. if cfg_JWTSecret cfg = [] then Some ''JWT_SECRET must be set'' else None) env lib migrate = Inr cfg"
    using assms by (auto simp: api_main_def split: sum.splits)
  note ready = boot_ready [OF cfg]
  show ?thesis using assms cfg ready by (intro exI [of _ cfg]) (auto simp: api_main_def split: if_splits)
qed

text \<open>
  \<open>Load\<close> accepts every duration, but tickers need a positive one: with \<open>POLL_INTERVAL=0\<close>, or one whose fivefold
  leaves 64 bits, the services start and then panic.
\<close>

theorem poll_interval_panics:
  "(sint (PollInterval p) \<le> 0 \<longrightarrow> heartbeatLoop p hostname es = ret Panicked) \<and>
   (sint (PollInterval p * 5) \<le> 0 \<longrightarrow> janitorLoop p es = ret Panicked) \<and>
   (sint interval \<le> 0 \<longrightarrow> promoter_Run (NewPromoter st el interval) cron time_Now es = ret Panicked) \<and>
   (\<exists>cfg. Load \<lparr>Getenv = (\<lambda>_. [])(''POLL_INTERVAL'' := ''0''), Hostname = Inr ''host'', Getpid = 7\<rparr> = Inr cfg \<and> cfg_PollInterval cfg = 0)"
  by (simp add: heartbeatLoop_def janitorLoop_def promoter_Run_def NewPromoter_def with_ticker_def Load_def getEnv_def getEnvDuration_def getEnvFloat_def
      getEnvInt_def ParseDuration_def)

theorem api_serves_when_ready_witness:
  "\<exists>svc. api_main \<lparr>Getenv = setting demo_config, Hostname = Inr ''host'', Getpid = 7\<rparr>
     \<lparr>otlp_New = (\<lambda>_. None), pgx_ParseConfig = (\<lambda>_. None), pgx_NewWithConfig = (\<lambda>_. None), pgx_Ping = (\<lambda>_. None)\<rparr> (\<lambda>_. None) = Inr svc \<and>
     svc_secret svc \<noteq> []"
proof -
  let ?env = "\<lparr>Getenv = setting demo_config, Hostname = Inr ''host'', Getpid = 7\<rparr>"
  let ?lib = "\<lparr>otlp_New = (\<lambda>_. None), pgx_ParseConfig = (\<lambda>_. None), pgx_NewWithConfig = (\<lambda>_. None), pgx_Ping = (\<lambda>_. None)\<rparr>"
  have "\<exists>svc. api_main ?env ?lib (\<lambda>_. None) = Inr svc"
    by (simp add: api_main_def boot_def demo_loads tracing_Init_def store_New_def) (simp add: demo_config_def)
  then show ?thesis using api_serves_when_ready [of ?env ?lib "\<lambda>_. None"] by blast
qed

end
