(* ===== verification/Services.thy ===== *)
theory Services
  imports System
begin

text \<open>
  All services on one store, their calls interleaved in any order and under any faults. A run is started, finished or failed by
  its identifier alone, so what is safe depends on who calls; \<open>service_step\<close> is a step of any service in which those calls satisfy a
  condition \<open>allowed\<close>. The first part says what a step can do to the rows of \<open>job_runs\<close>, the second that a lease protects its
  holder while it lasts.
\<close>

subsection \<open>Steps of the services\<close>

datatype run_call =
    Call_CreateRun
  | Call_MarkRunning string
  | Call_CompleteRun string
  | Call_FailRun string bool
  | Call_MarkDead string
  | Call_ExtendLease string string

inductive service_step :: "(world \<Rightarrow> run_call \<Rightarrow> bool) \<Rightarrow> world \<Rightarrow> world \<Rightarrow> bool" for allowed where
  create_job: "service_step allowed w (snd (run_state (CreateJob i) w))"
| get_job: "service_step allowed w (snd (run_state (GetJob j) w))"
| get_job_by_key: "service_step allowed w (snd (run_state (GetJobByIdempotencyKey key) w))"
| list_jobs: "service_step allowed w (snd (run_state (ListJobs st l off) w))"
| update_job_status: "service_step allowed w (snd (run_state (UpdateJobStatus j s) w))"
| list_dependencies: "service_step allowed w (snd (run_state (ListDependencies j) w))"
| latest_run_for_job: "service_step allowed w (snd (run_state (LatestRunForJob j) w))"
| has_active: "service_step allowed w (snd (run_state (HasActiveRun j) w))"
| lease_next_run: "service_step allowed w (snd (run_state (LeaseNextRun x ld) w))"
| reclaim: "service_step allowed w (snd (run_state ReclaimExpiredLeases w))"
| get_run: "service_step allowed w (snd (run_state (GetRun r) w))"
| list_job_runs: "service_step allowed w (snd (run_state (ListJobRuns j l) w))"
| count_pending: "service_step allowed w (snd (run_state CountPendingRuns w))"
| heartbeat: "service_step allowed w (snd (run_state (UpsertWorkerHeartbeat x h) w))"
| list_workers: "service_step allowed w (snd (run_state ListWorkers w))"
| environment: "clock w \<le> c \<Longrightarrow> service_step allowed w (w\<lparr>clock := c, script := scr, row_locked := lk\<rparr>)"
| create_run: "allowed w Call_CreateRun \<Longrightarrow> service_step allowed w (snd (run_state (CreateRun j p sch) w))"
| mark_running: "allowed w (Call_MarkRunning i) \<Longrightarrow> service_step allowed w (snd (run_state (MarkRunning i) w))"
| complete_run: "allowed w (Call_CompleteRun i) \<Longrightarrow> service_step allowed w (snd (run_state (CompleteRun i res) w))"
| fail_run: "allowed w (Call_FailRun i rq) \<Longrightarrow> service_step allowed w (snd (run_state (FailRun i m rq bo) w))"
| mark_dead: "allowed w (Call_MarkDead i) \<Longrightarrow> service_step allowed w (snd (run_state (MarkDead i reason) w))"
| extend_lease: "allowed w (Call_ExtendLease i x) \<Longrightarrow> service_step allowed w (snd (run_state (ExtendLease i x ext) w))"

lemma service_store_step: "service_step allowed w w' \<Longrightarrow> store_step w w'"
  by (induction rule: service_step.induct) (auto intro: store_step.intros)

lemma service_frame: "service_step allowed w w' \<Longrightarrow> uuid_in w' = uuid_in w \<and> replica w' = replica w \<and> clock w \<le> clock w'"
proof (induction rule: service_step.induct)
  case (environment w c scr lk)
  then show ?case by simp
qed (metis env_frame_def frame_store io_rel_def)+

lemma service_wf: "service_step allowed w w' \<Longrightarrow> wf_world w \<Longrightarrow> wf_world w'"
proof (induction rule: service_step.induct)
  case (environment w c scr lk)
  then show ?case by (simp add: wf_world_def)
qed (erule wf_kept [OF _ surjective_pairing]; rule frame_store closed_store schema.keeps_store ids.keeps_store)+

subsection \<open>What a step does to the runs\<close>

text \<open>The rows that an operation changes, and how; identifiers and owners of runs never change.\<close>

definition row_change :: "(world \<Rightarrow> run_call \<Rightarrow> bool) \<Rightarrow> world \<Rightarrow> time \<Rightarrow> run_row \<Rightarrow> run_row \<Rightarrow> bool" where
  "row_change allowed w now r r' \<longleftrightarrow>
     run_Status r = RunStatusPending \<and> sint (run_Attempt r) \<noteq> 32767 \<and> (\<exists>x ld t. r' = lease_row x ld t r) \<or>
     lease_expired now r \<and> r' = reclaim_row r \<or>
     (\<exists>i. uuid_in w i = Some (run_ID r) \<and>
       (allowed w (Call_MarkRunning i) \<and> (\<exists>t. r' = mark_running_row t r) \<or>
        allowed w (Call_CompleteRun i) \<and> (\<exists>raw t. r' = complete_row raw t r) \<or>
        allowed w (Call_FailRun i True) \<and> (\<exists>bo m t. r' = requeue_row bo m t r) \<or>
        allowed w (Call_FailRun i False) \<and> (\<exists>m t. r' = fail_row m t r) \<or>
        allowed w (Call_MarkDead i) \<and> r' = r\<lparr>run_Status := RunStatusDead\<rparr> \<or>
        (\<exists>x t. allowed w (Call_ExtendLease i x) \<and> run_LeasedBy r = Some x \<and> r' = r\<lparr>run_LeaseExpiresAt := Some t\<rparr>)))"

definition rows_change :: "(run_row \<Rightarrow> run_row \<Rightarrow> bool) \<Rightarrow> world \<Rightarrow> world \<Rightarrow> bool" where
  "rows_change C w w' \<longleftrightarrow> (\<exists>p g. job_runs (primary w') = update_where p g (job_runs (primary w)) \<and>
     (\<forall>r\<in>set (job_runs (primary w)). p r \<longrightarrow> C r (g r)))"

lemma rows_changeI:
  "job_runs (primary w') = update_where p g (job_runs (primary w)) \<Longrightarrow>
    (\<And>r. r \<in> set (job_runs (primary w)) \<Longrightarrow> p r \<Longrightarrow> C r (g r)) \<Longrightarrow> rows_change C w w'"
  unfolding rows_change_def by blast

lemma rows_same: "job_runs (primary w') = job_runs (primary w) \<Longrightarrow> rows_change C w w'"
  by (rule rows_changeI [of _ "\<lambda>_. False" id]) (simp_all add: update_where_def)

lemma driver_call_cases:
  assumes "run_state (driver_call stmt) w = (r, w')"
  obtains s c where "clock w \<le> c" and "w' = later w s c \<or> w' = snd (stmt (later w s c))"
proof -
  obtain flt w1 where dl: "deliver w = (flt, w1)" by (cases "deliver w")
  then obtain s c where c: "clock w \<le> c" "w1 = later w s c" by (rule deliver_later)
  show ?thesis by (rule that [OF c(1)]) (use assms dl c(2) in \<open>auto simp: driver_call_def split: prod.splits fault.splits\<close>)
qed

text \<open>An UPDATE of the rows with a given identifier.\<close>

lemma uuid_update_rows:
  assumes "run_state (driver_call (with_uuid i (\<lambda>u w. update_runs (p u) (g (sql_now w)) w))) w = (r, w')"
    and "\<And>u t x. uuid_in w i = Some u \<Longrightarrow> p u x \<Longrightarrow> C x (g t x)"
  shows "rows_change C w w'"
proof -
  obtain s c where "w' = later w s c \<or> w' = snd (with_uuid i (\<lambda>u w. update_runs (p u) (g (sql_now w)) w) (later w s c))"
    using driver_call_cases [OF assms(1)] by metis
  then show ?thesis
  proof
    assume w': "w' = snd (with_uuid i (\<lambda>u w. update_runs (p u) (g (sql_now w)) w) (later w s c))"
    show ?thesis
    proof (cases "uuid_in w i")
      case None
      then show ?thesis using w' by (intro rows_same) (simp add: with_uuid_def)
    next
      case (Some u)
      then show ?thesis using w' assms(2) [OF Some]
        by (intro rows_changeI [of _ "p u" "g (sql_now (later w s c))"]) (simp_all add: with_uuid_def update_runs_def write_db_def)
    qed
  qed (auto intro: rows_same)
qed

lemma affected_state: "snd (run_state (affected_or_not_found m) w) = snd (run_state m w)"
  by (auto simp: affected_or_not_found_def run_check_err split: prod.splits sum.splits)

lemma MarkRunning_rows:
  "rows_change (\<lambda>r r'. uuid_in w i = Some (run_ID r) \<and> (\<exists>t. r' = mark_running_row t r)) w (snd (run_state (MarkRunning i) w))"
  unfolding MarkRunning_def affected_state by (rule uuid_update_rows [OF surjective_pairing]) auto

lemma CompleteRun_rows:
  "rows_change (\<lambda>r r'. uuid_in w i = Some (run_ID r) \<and> (\<exists>raw t. r' = complete_row raw t r)) w (snd (run_state (CompleteRun i res) w))"
proof (cases "wrap_err ''marshal result'' (json_Marshal res)")
  case (Inl e)
  then show ?thesis by (intro rows_same) (simp add: CompleteRun_def run_check_err lift_result_def)
next
  case (Inr raw)
  have "snd (run_state (CompleteRun i res) w) = snd (run_state (driver_call (with_uuid i (\<lambda>u w.
       update_runs (\<lambda>r. run_ID r = u) (complete_row raw (sql_now w)) w))) w)"
    using Inr by (simp add: CompleteRun_def run_check_err lift_result_def affected_state)
  then show ?thesis by (simp only:) (rule uuid_update_rows [OF surjective_pairing, where g = "complete_row raw"], auto)
qed

lemma FailRun_rows:
  "rows_change (\<lambda>r r'. uuid_in w i = Some (run_ID r) \<and> (\<exists>bo m t. r' = (if rq then requeue_row bo m t r else fail_row m t r))) w
     (snd (run_state (FailRun i m rq bo) w))"
proof (cases rq)
  case True
  then show ?thesis unfolding FailRun_def affected_state
    by (simp, intro uuid_update_rows [OF surjective_pairing, where g = "requeue_row bo m"]) auto
next
  case False
  then show ?thesis unfolding FailRun_def affected_state
    by (simp, intro uuid_update_rows [OF surjective_pairing, where g = "fail_row m"]) auto
qed

lemma ExtendLease_rows:
  "rows_change (\<lambda>r r'. uuid_in w i = Some (run_ID r) \<and> run_LeasedBy r = Some x \<and> (\<exists>t. r' = r\<lparr>run_LeaseExpiresAt := Some t\<rparr>)) w
     (snd (run_state (ExtendLease i x ext) w))"
  unfolding ExtendLease_def affected_state
  by (rule uuid_update_rows [OF surjective_pairing, where g = "\<lambda>now r. r\<lparr>run_LeaseExpiresAt := Some (now + sint ext)\<rparr>"]) auto

lemma MarkDead_rows:
  assumes "wf_world w"
  shows "rows_change (\<lambda>r r'. uuid_in w i = Some (run_ID r) \<and> r' = r\<lparr>run_Status := RunStatusDead\<rparr>) w (snd (run_state (MarkDead i reason) w))"
  using MarkDead_cases [OF assms surjective_pairing, of i reason]
  by (elim disjE exE conjE) (auto intro: rows_same rows_changeI simp: buried_db_def)

lemma LeaseNextRun_rows:
  assumes "wf_world w"
  shows "rows_change (\<lambda>r r'. run_Status r = RunStatusPending \<and> sint (run_Attempt r) \<noteq> 32767 \<and> (\<exists>t. r' = lease_row x ld t r)) w
    (snd (run_state (LeaseNextRun x ld) w))"
proof -
  let ?w = "snd (run_state (LeaseNextRun x ld) w)"
  have "primary ?w = primary w \<or>
      (\<exists>t r. lease_candidate t (row_locked w) (primary w) = Some r \<and> sint (run_Attempt r) \<noteq> 32767 \<and> primary ?w = leased_db x ld t r (primary w))"
    using LeaseNextRun_cases [OF assms surjective_pairing, of x ld] by blast
  then show ?thesis
  proof (elim disjE exE conjE)
    fix t r assume cand: "lease_candidate t (row_locked w) (primary w) = Some r" and d: "primary ?w = leased_db x ld t r (primary w)"
      and small: "sint (run_Attempt r) \<noteq> 32767"
    have "y = r" if "y \<in> set (job_runs (primary w))" "run_ID y = run_ID r" for y
      using distinct_key_unique [OF integrity_runs [OF wf_worldD(2) [OF assms]]] lease_candidate_Some(1) [OF cand] that by blast
    then show ?thesis using d small lease_candidate_Some(2) [OF cand]
      by (intro rows_changeI [of _ "\<lambda>y. run_ID y = run_ID r" "lease_row x ld t"]) (auto simp: leased_db_def)
  qed (simp add: rows_same)
qed

lemma ReclaimExpiredLeases_rows:
  assumes "wf_world w"
  shows "rows_change (\<lambda>r r'. lease_expired (clock (snd (run_state ReclaimExpiredLeases w))) r \<and> r' = reclaim_row r) w
    (snd (run_state ReclaimExpiredLeases w))"
proof -
  let ?w = "snd (run_state ReclaimExpiredLeases w)"
  obtain s c where c: "?w = later w s c \<or> ?w = snd (update_runs (lease_expired (sql_now (later w s c))) reclaim_row (later w s c))"
    unfolding ReclaimExpiredLeases_def by (rule driver_call_cases [OF surjective_pairing])
  have "sql_now (later w s c) = c" using wf_worldD(1) [OF assms] by (simp add: sql_now_def)
  with c show ?thesis
  proof (elim disjE)
    assume "sql_now (later w s c) = c" and w: "?w = snd (update_runs (lease_expired (sql_now (later w s c))) reclaim_row (later w s c))"
    then show ?thesis
      by (intro rows_changeI [of _ "lease_expired c" reclaim_row]) (simp_all add: update_runs_def write_db_def)
  qed (simp add: rows_same)
qed

lemma rows_change_mono: "rows_change C w w' \<Longrightarrow> (\<And>r r'. C r r' \<Longrightarrow> D r r') \<Longrightarrow> rows_change D w w'"
  unfolding rows_change_def by blast

lemma quiet_rows:
  assumes "wf_world w"
  shows "job_runs (primary (snd (run_state (CreateJob i) w))) = job_runs (primary w)"
  "job_runs (primary (snd (run_state (UpdateJobStatus j s) w))) = job_runs (primary w)"
  "job_runs (primary (snd (run_state (UpsertWorkerHeartbeat x h) w))) = job_runs (primary w)"
proof -
  show "job_runs (primary (snd (run_state (CreateJob i) w))) = job_runs (primary w)"
    using CreateJob_cases [OF wf_worldD(1) [OF assms] surjective_pairing, of i] by (elim disjE exE conjE) (simp_all add: created_db_def)
  have call: "job_runs (primary (snd (run_state (driver_call stmt) w))) = job_runs (primary w)"
    if "\<And>w. job_runs (primary (snd (stmt w))) = job_runs (primary w)" for stmt :: "world \<Rightarrow> (err + 'a) \<times> world" and w
    using that by (auto simp: driver_call_def deliver_fields split: prod.splits fault.splits)
  show "job_runs (primary (snd (run_state (UpdateJobStatus j s) w))) = job_runs (primary w)"
    unfolding UpdateJobStatus_def affected_state by (rule call) (simp add: with_uuid_def update_jobs_def write_db_def split: option.splits)
  show "job_runs (primary (snd (run_state (UpsertWorkerHeartbeat x h) w))) = job_runs (primary w)"
    unfolding UpsertWorkerHeartbeat_def by (rule call) (simp add: write_db_def)
qed

lemma reads_rows: "io_rel (\<lambda>w w'. primary w' = primary w) m \<Longrightarrow> rows_change C w (snd (run_state m w))"
  by (simp add: io_rel_def rows_same)

lemma service_rows:
  assumes "service_step allowed w w'" and "wf_world w"
  shows "rows_change (row_change allowed w (clock w')) w w' \<or>
    allowed w Call_CreateRun \<and>
      (\<exists>t u p sch. job_runs (primary w') = job_runs (primary w) @ [new_run_row (uuid_gen w (uuid_next w)) t u p sch])"
  using assms(1)
proof cases
  case (create_run j p sch)
  then show ?thesis using CreateRun_effect [OF surjective_pairing, of j p sch w] by (elim disjE conjE exE) (simp_all add: rows_same, blast)
next
  case (lease_next_run x ld)
  have "rows_change (row_change allowed w (clock w')) w w'"
    unfolding lease_next_run by (rule rows_change_mono [OF LeaseNextRun_rows [OF assms(2)]]) (auto simp: row_change_def)
  then show ?thesis ..
next
  case reclaim
  have "rows_change (row_change allowed w (clock w')) w w'"
    unfolding reclaim by (rule rows_change_mono [OF ReclaimExpiredLeases_rows [OF assms(2)]]) (auto simp: row_change_def)
  then show ?thesis ..
next
  case (mark_running i)
  have "rows_change (row_change allowed w (clock w')) w w'"
    unfolding mark_running(1) by (rule rows_change_mono [OF MarkRunning_rows]) (use mark_running(2) in \<open>auto simp: row_change_def\<close>)
  then show ?thesis ..
next
  case (complete_run i res)
  have "rows_change (row_change allowed w (clock w')) w w'"
    unfolding complete_run(1) by (rule rows_change_mono [OF CompleteRun_rows]) (use complete_run(2) in \<open>auto simp: row_change_def\<close>)
  then show ?thesis ..
next
  case (fail_run i rq m bo)
  have "rows_change (row_change allowed w (clock w')) w w'"
    unfolding fail_run(1) by (rule rows_change_mono [OF FailRun_rows]) (use fail_run(2) in \<open>cases rq; auto simp: row_change_def\<close>)
  then show ?thesis ..
next
  case (mark_dead i reason)
  have "rows_change (row_change allowed w (clock w')) w w'"
    unfolding mark_dead(1) by (rule rows_change_mono [OF MarkDead_rows [OF assms(2)]]) (use mark_dead(2) in \<open>auto simp: row_change_def\<close>)
  then show ?thesis ..
next
  case (extend_lease i x ext)
  have "rows_change (row_change allowed w (clock w')) w w'"
    unfolding extend_lease(1) by (rule rows_change_mono [OF ExtendLease_rows]) (use extend_lease(2) in \<open>auto simp: row_change_def\<close>)
  then show ?thesis ..
next
  case (environment c scr lk)
  then show ?thesis by (auto intro: rows_same)
qed ((intro disjI1, simp only:), ((rule reads_rows, rule store_reads) | (rule rows_same, rule quiet_rows [OF assms(2)])))+


subsection \<open>A worker within its lease\<close>

text \<open>Steps of all services in which nobody names the run \<open>u\<close>: those of everyone but the worker that holds it.\<close>

fun names_run :: "run_call \<Rightarrow> string option" where
  "names_run Call_CreateRun = None"
| "names_run (Call_MarkRunning i) = Some i"
| "names_run (Call_CompleteRun i) = Some i"
| "names_run (Call_FailRun i _) = Some i"
| "names_run (Call_MarkDead i) = Some i"
| "names_run (Call_ExtendLease i _) = Some i"

definition foreign :: "uid \<Rightarrow> world \<Rightarrow> run_call \<Rightarrow> bool" where
  "foreign u w call \<longleftrightarrow> (\<forall>i. names_run call = Some i \<longrightarrow> uuid_in w i \<noteq> Some u)"

text \<open>A row that only its holder changes until \<open>t\<close>: it is not in the queue, and its lease, if it is under one, lasts until then.\<close>

definition held_until :: "time \<Rightarrow> run_row \<Rightarrow> world \<Rightarrow> bool" where
  "held_until t r w \<longleftrightarrow> r \<in> set (job_runs (primary w)) \<and> run_Status r \<noteq> RunStatusPending \<and>
     (run_Status r \<in> {RunStatusLeased, RunStatusRunning} \<longrightarrow> run_LeaseExpiresAt r = Some t) \<and> wf_world w"

lemma foreign_keeps_row:
  assumes "service_step (foreign (run_ID r)) w w'" and "held_until t r w" and "clock w' \<le> t"
  shows "held_until t r w'"
proof -
  have wf: "wf_world w" and here: "r \<in> set (job_runs (primary w))" using assms(2) by (simp_all add: held_until_def)
  have "r \<in> set (job_runs (primary w'))"
    using service_rows [OF assms(1) wf]
  proof
    assume "rows_change (row_change (foreign (run_ID r)) w (clock w')) w w'"
    then obtain p g where rows: "job_runs (primary w') = update_where p g (job_runs (primary w))"
      and C: "\<And>r'. r' \<in> set (job_runs (primary w)) \<Longrightarrow> p r' \<Longrightarrow> row_change (foreign (run_ID r)) w (clock w') r' (g r')"
      by (auto simp: rows_change_def)
    have "\<not> p r"
    proof
      assume "p r"
      then have "row_change (foreign (run_ID r)) w (clock w') r (g r)" using C here by blast
      then show False using assms(2,3) by (auto simp: row_change_def foreign_def held_until_def lease_expired_def)
    qed
    then show ?thesis using here rows by (auto simp: in_update_where)
  qed (use here in auto)
  then show ?thesis using assms(2) service_wf [OF assms(1) wf] by (simp add: held_until_def)
qed

lemma foreign_clock: "(service_step allowed)\<^sup>*\<^sup>* w w' \<Longrightarrow> clock w \<le> clock w'"
  by (induction rule: rtranclp_induct) (auto dest: service_frame)

lemma foreign_keeps_held:
  assumes "(service_step (foreign (run_ID r)))\<^sup>*\<^sup>* w w'" and "held_until t r w" and "clock w' \<le> t"
  shows "held_until t r w'"
  using assms
proof (induction rule: rtranclp_induct)
  case (step y z)
  then have "clock y \<le> clock z" using service_frame by blast
  then show ?case using step foreign_keeps_row [OF step(2)] by simp
qed


lemma held_not_handed_out:
  assumes "held_until t r w" and "run_state (LeaseNextRun x ld) w = (Inr (Some (run, job)), w')"
  shows "run_ID run \<noteq> run_ID r"
proof
  assume same: "run_ID run = run_ID r"
  have wf: "wf_world w" using assms(1) by (simp add: held_until_def)
  obtain now r' where cand: "lease_candidate now (row_locked w) (primary w) = Some r'" and "run = run_view (lease_row x ld now r')"
    using LeaseNextRun_cases [OF wf assms(2)] by blast
  then have "r' = r"
    using distinct_key_unique [OF integrity_runs [OF wf_worldD(2) [OF wf]] lease_candidate_Some(1) [OF cand]] assms(1) same
    by (simp add: held_until_def)
  then show False using lease_candidate_Some(2) [OF cand] assms(1) by (auto simp: held_until_def)
qed

text \<open>An update by the holder: reported as done, it was made to the row, and keeps the lease where the new row does.\<close>

lemma update_Inr:
  assumes "run_state (affected_or_not_found (driver_call (with_uuid i (\<lambda>u w. update_runs (\<lambda>r. run_ID r = u) (g (sql_now w)) w)))) w = (Inr (), w')"
    and "held_until t r w" and "i = run_ID r"
  shows "\<exists>now. g now r \<in> set (job_runs (primary w'))"
proof -
  have here: "r \<in> set (job_runs (primary w))" and wf: "wf_world w" using assms(2) by (simp_all add: held_until_def)
  have id: "uuid_in w (run_ID r) = Some (run_ID r)" using wf_worldD(3) [OF wf] run_in_exists [OF here] by blast
  obtain n where "run_state (driver_call (with_uuid i (\<lambda>u w. update_runs (\<lambda>r. run_ID r = u) (g (sql_now w)) w))) w = (Inr n, w')"
    using assms(1) by (auto simp: affected_or_not_found_def run_check_err split: prod.splits sum.splits if_splits)
  then obtain s c u where u: "uuid_in w i = Some u" and w': "update_runs (\<lambda>r. run_ID r = u) (g (sql_now (later w s c))) (later w s c) = (Inr n, w')"
    by (rule driver_uuid_Inr)
  then have "g (sql_now (later w s c)) r \<in> set (job_runs (primary w'))"
    using here id assms(3) by (auto simp: update_runs_def write_db_def in_update_where)
  then show ?thesis ..
qed

lemma MarkRunning_held:
  assumes "run_state (MarkRunning (run_ID r)) w = (Inr (), w')" and "held_until t r w" and "run_LeaseExpiresAt r = Some t"
  shows "\<exists>now. held_until t (mark_running_row now r) w'"
proof -
  have "wf_world w'" using service_wf [OF service_step.mark_running [of "\<lambda>_ _. True" w "run_ID r"]] assms by (simp add: held_until_def)
  then show ?thesis using update_Inr [OF _ assms(2), of "run_ID r" mark_running_row w'] assms
    by (auto simp: MarkRunning_def held_until_def mark_running_row_def)
qed

lemma CompleteRun_held:
  assumes "run_state (CompleteRun (run_ID r) result) w = (Inr (), w')" and "held_until t r w"
  shows "\<exists>raw now. json_Marshal result = Inr raw \<and> complete_row raw now r \<in> set (job_runs (primary w'))"
proof (cases "json_Marshal result")
  case (Inl e)
  then show ?thesis using assms(1) CompleteRun_unmarshalable by simp
next
  case (Inr raw)
  then show ?thesis using update_Inr [OF _ assms(2), of "run_ID r" "complete_row raw" w'] assms(1)
    by (simp add: CompleteRun_def run_check_err lift_result_def wrap_err_def)
qed

lemma lease_held:
  assumes "wf_world w" and "run_state (LeaseNextRun x ld) w = (Inr (Some (run, job)), w')"
  obtains r t where "held_until t r w'" and "run = run_view r" and "run_LeaseExpiresAt run = Some t" and "run_LeasedBy r = Some x"
proof -
  obtain now r where cand: "lease_candidate now (row_locked w) (primary w) = Some r" and run: "run = run_view (lease_row x ld now r)"
    and db: "primary w' = leased_db x ld now r (primary w)"
    using LeaseNextRun_cases [OF assms] by blast
  have "wf_world w'" using service_wf [OF service_step.lease_next_run [of "\<lambda>_ _. True" w x ld]] assms by simp
  moreover have "lease_row x ld now r \<in> set (job_runs (primary w'))"
    using lease_candidate_Some(1) [OF cand] db by (auto simp: leased_db_def in_update_where)
  ultimately show ?thesis using that [of "now + sint ld" "lease_row x ld now r"] run
    by (simp add: held_until_def lease_row_def run_view_def run_of_row_def)
qed

subsection \<open>A worker that is never heard of again\<close>

text \<open>A row under a lease until \<open>t\<close> that is due by then.\<close>

definition left_behind :: "time \<Rightarrow> run_row \<Rightarrow> world \<Rightarrow> bool" where
  "left_behind t r w \<longleftrightarrow> held_until t r w \<and> run_Status r \<in> {RunStatusLeased, RunStatusRunning} \<and> run_ScheduledAt r \<le> t"

text \<open>Services that do not name the run leave its row alone, or reclaim it once the lease is over.\<close>

lemma foreign_keeps_or_reclaims:
  assumes "service_step (foreign (run_ID r)) w w'" and "left_behind t r w"
  shows "left_behind t r w' \<or> t < clock w' \<and> reclaim_row r \<in> set (job_runs (primary w'))"
proof -
  have wf: "wf_world w" and here: "r \<in> set (job_runs (primary w))"
    using assms(2) by (auto simp: left_behind_def held_until_def)
  have "r \<in> set (job_runs (primary w')) \<or> t < clock w' \<and> reclaim_row r \<in> set (job_runs (primary w'))"
    using service_rows [OF assms(1) wf]
  proof
    assume "rows_change (row_change (foreign (run_ID r)) w (clock w')) w w'"
    then obtain p g where rows: "job_runs (primary w') = update_where p g (job_runs (primary w))"
      and C: "\<And>r'. r' \<in> set (job_runs (primary w)) \<Longrightarrow> p r' \<Longrightarrow> row_change (foreign (run_ID r)) w (clock w') r' (g r')"
      by (auto simp: rows_change_def)
    show ?thesis
    proof (cases "p r")
      case True
      then have "row_change (foreign (run_ID r)) w (clock w') r (g r)" using C here by blast
      then have "t < clock w' \<and> g r = reclaim_row r"
        using assms(2) by (auto simp: row_change_def foreign_def left_behind_def held_until_def lease_expired_def)
      moreover from this have "reclaim_row r \<in> set (job_runs (primary w'))"
        unfolding rows in_update_where using here True by (intro bexI [OF _ here]) simp
      ultimately show ?thesis by simp
    qed (use here rows in \<open>auto simp: in_update_where\<close>)
  qed (use here in auto)
  then show ?thesis using assms(2) service_wf [OF assms(1) wf] by (auto simp: left_behind_def held_until_def)
qed

lemma foreign_left_behind:
  assumes "(service_step (foreign (run_ID r)))\<^sup>*\<^sup>* w w'" and "left_behind t r w"
  shows "left_behind t r w' \<or> (\<exists>v. (service_step (foreign (run_ID r)))\<^sup>*\<^sup>* w v \<and> (service_step (foreign (run_ID r)))\<^sup>*\<^sup>* v w' \<and>
    t < clock v \<and> reclaim_row r \<in> set (job_runs (primary v)))"
  using assms
proof (induction rule: rtranclp_induct)
  case (step y z)
  have z: "(service_step (foreign (run_ID r)))\<^sup>*\<^sup>* w z" using step(1,2) by (rule rtranclp.rtrancl_into_rtrancl)
  from step.IH [OF step.prems] show ?case
  proof (elim disjE exE conjE)
    assume "left_behind t r y"
    then show ?thesis using foreign_keeps_or_reclaims [OF step(2)] z by blast
  next
    fix v assume "(service_step (foreign (run_ID r)))\<^sup>*\<^sup>* v y"
    then have "(service_step (foreign (run_ID r)))\<^sup>*\<^sup>* v z" using step(2) by (rule rtranclp.rtrancl_into_rtrancl)
    moreover assume "(service_step (foreign (run_ID r)))\<^sup>*\<^sup>* w v" "t < clock v" "reclaim_row r \<in> set (job_runs (primary v))"
    ultimately show ?thesis by blast
  qed
qed simp

text \<open>Starting the run leaves it under the same lease, whether the call arrived or not.\<close>

lemma start_left_behind:
  assumes "left_behind t r w" and "run_state (MarkRunning (run_ID r)) w = (res, w')"
  shows "\<exists>r'. left_behind t r' w' \<and> run_ID r' = run_ID r \<and> run_Attempt r' = run_Attempt r"
proof -
  have wf: "wf_world w" and here: "r \<in> set (job_runs (primary w))" using assms(1) by (simp_all add: left_behind_def held_until_def)
  have step: "service_step (\<lambda>_ _. True) w w'" using service_step.mark_running [of "\<lambda>_ _. True" w "run_ID r"] assms(2) by simp
  obtain p g where rows: "job_runs (primary w') = update_where p g (job_runs (primary w))"
    and C: "\<And>r'. r' \<in> set (job_runs (primary w)) \<Longrightarrow> p r' \<Longrightarrow> \<exists>t. g r' = mark_running_row t r'"
    using MarkRunning_rows [of w "run_ID r"] assms(2) by (auto simp: rows_change_def)
  have "\<exists>r'\<in>set (job_runs (primary w')). r' = r \<or> (\<exists>t. r' = mark_running_row t r)"
  proof (cases "p r")
    case True
    have "g r \<in> set (job_runs (primary w'))" unfolding rows in_update_where using True by (intro bexI [OF _ here]) simp
    then show ?thesis using C [OF here True] by blast
  next
    case False
    have "r \<in> set (job_runs (primary w'))" unfolding rows in_update_where using False by (intro bexI [OF _ here]) simp
    then show ?thesis by blast
  qed
  then show ?thesis using assms(1) service_wf [OF step wf] service_frame [OF step]
    by (auto simp: left_behind_def held_until_def mark_running_row_def)
qed

lemma lease_left_behind:
  assumes "wf_world w" and "run_state (LeaseNextRun x ld) w = (Inr (Some (run, job)), w')" and "run_LeaseExpiresAt run = Some t"
    and "0 \<le> sint ld"
  obtains r where "left_behind t r w'" and "run_ID r = run_ID run" and "run_Attempt r = run_Attempt run"
proof -
  obtain now r where cand: "lease_candidate now (row_locked w) (primary w) = Some r" and run: "run = run_view (lease_row x ld now r)"
    and db: "primary w' = leased_db x ld now r (primary w)"
    using LeaseNextRun_cases [OF assms(1,2)] by blast
  have "wf_world w'" using service_wf [OF service_step.lease_next_run [of "\<lambda>_ _. True" w x ld]] assms by simp
  moreover have "lease_row x ld now r \<in> set (job_runs (primary w'))"
    using lease_candidate_Some(1) [OF cand] db by (auto simp: leased_db_def in_update_where)
  ultimately show ?thesis using that [of "lease_row x ld now r"] run assms(3) lease_candidate_Some(3) [OF cand] assms(4)
    by (simp add: left_behind_def held_until_def lease_row_def run_view_def run_of_row_def)
qed

subsection \<open>Properties\<close>

text \<open>
  A lease protects a run until it expires: a worker leases a run, starts it and completes it before the lease
  is over, and in between all other services do what they like, under any faults, except naming this run. Then what it
  stored is what the table has: the run succeeded, with this worker's result, attempt and name; and no poll by
  anyone was handed the run meanwhile.
\<close>

theorem lease_to_completion:
  assumes "wf_world w" and "run_state (LeaseNextRun x ld) w = (Inr (Some (run, job)), w1)"
    and "(service_step (foreign (run_ID run)))\<^sup>*\<^sup>* w1 w2" and "run_state (MarkRunning (run_ID run)) w2 = (Inr (), w3)"
    and "(service_step (foreign (run_ID run)))\<^sup>*\<^sup>* w3 w4" and "run_state (CompleteRun (run_ID run) result) w4 = (Inr (), w5)"
    and "run_LeaseExpiresAt run = Some t" and "clock w4 \<le> t"
  shows "(\<exists>r raw. r \<in> set (job_runs (primary w5)) \<and> run_ID r = run_ID run \<and> run_Status r = RunStatusSucceeded \<and>
      json_Marshal result = Inr raw \<and> run_Result r = Some raw \<and> run_Attempt r = run_Attempt run \<and> run_LeasedBy r = Some x) \<and>
    (\<forall>v y ld2 run2 job2 v'. (service_step (foreign (run_ID run)))\<^sup>*\<^sup>* w1 v \<or> (service_step (foreign (run_ID run)))\<^sup>*\<^sup>* w3 v \<longrightarrow>
       clock v \<le> t \<longrightarrow> run_state (LeaseNextRun y ld2) v = (Inr (Some (run2, job2)), v') \<longrightarrow> run_ID run2 \<noteq> run_ID run)"
proof -
  obtain r where r: "held_until t r w1" "run = run_view r" "run_LeasedBy r = Some x"
    using lease_held [OF assms(1,2)] assms(7) by (metis option.inject)
  have "clock w2 \<le> clock w3" using service_frame [OF service_step.mark_running [of "\<lambda>_ _. True" w2 "run_ID run"]] assms(4) by simp
  then have clk: "clock w2 \<le> t" using foreign_clock [OF assms(5)] assms(8) by simp
  have first: "held_until t r v" if "(service_step (foreign (run_ID run)))\<^sup>*\<^sup>* w1 v" "clock v \<le> t" for v
    by (rule foreign_keeps_held [OF _ r(1) that(2)]) (use that(1) r(2) in simp)
  obtain now where r3: "held_until t (mark_running_row now r) w3" (is "held_until t ?r w3")
    using MarkRunning_held [OF _ first [OF assms(3) clk]] assms(4,7) r(2) by (auto simp: run_view_def run_of_row_def)
  have second: "held_until t ?r v" if "(service_step (foreign (run_ID run)))\<^sup>*\<^sup>* w3 v" "clock v \<le> t" for v
    by (rule foreign_keeps_held [OF _ r3 that(2)]) (use that(1) r(2) in \<open>simp add: mark_running_row_def\<close>)
  obtain raw now' where "json_Marshal result = Inr raw" "complete_row raw now' ?r \<in> set (job_runs (primary w5))"
    using CompleteRun_held [of ?r result w4 w5, OF _ second [OF assms(5,8)]] assms(6) r(2) by (auto simp: mark_running_row_def)
  then have "\<exists>r raw. r \<in> set (job_runs (primary w5)) \<and> run_ID r = run_ID run \<and> run_Status r = RunStatusSucceeded \<and>
      json_Marshal result = Inr raw \<and> run_Result r = Some raw \<and> run_Attempt r = run_Attempt run \<and> run_LeasedBy r = Some x"
    using r(2,3) by (intro exI [of _ "complete_row raw now' ?r"] exI [of _ raw]) (simp add: complete_row_def mark_running_row_def)
  moreover have "run_ID run2 \<noteq> run_ID run" if "(service_step (foreign (run_ID run)))\<^sup>*\<^sup>* w1 v \<or> (service_step (foreign (run_ID run)))\<^sup>*\<^sup>* w3 v"
    "clock v \<le> t" "run_state (LeaseNextRun y ld2) v = (Inr (Some (run2, job2)), v')" for v y ld2 run2 job2 v'
    using that(1) held_not_handed_out [OF first [OF _ that(2)] that(3)] held_not_handed_out [OF second [OF _ that(2)] that(3)] r(2)
    by (auto simp: mark_running_row_def)
  ultimately show ?thesis by blast
qed


definition demo_leased :: world where
  "demo_leased = edit_run (demo_uuid 1) (lease_row ''w1'' 30000000000 0) (demo_world demo_db 2)"

definition demo_running :: world where
  "demo_running = edit_run (demo_uuid 1) (mark_running_row 5) (demo_leased\<lparr>clock := 5\<rparr>)"

lemma demo_waiting: "good (demo_leased\<lparr>clock := 5\<rparr>)" "uuid_in demo_leased (demo_uuid 1) = Some (demo_uuid 1)"
  "run_exists (demo_uuid 1) (primary demo_leased)"
  using good_store(4) [OF good_demo demo_lease [folded demo_leased_def]]
  by (simp_all add: good_def wf_world_def demo_leased_def run_exists_def demo_db_def demo_run_def new_run_row_def)

lemma demo_start: "run_state (MarkRunning (demo_uuid 1)) (demo_leased\<lparr>clock := 5\<rparr>) = (Inr (), demo_running)"
  using MarkRunning_good [OF demo_waiting(1), of "demo_uuid 1" "demo_uuid 1"] demo_waiting(2,3) by (simp add: demo_running_def)

theorem lease_to_completion_witness:
  "\<exists>r\<in>set (job_runs (primary (snd (run_state (CompleteRun (demo_uuid 1) None) demo_running)))).
     run_ID r = demo_uuid 1 \<and> run_Status r = RunStatusSucceeded \<and> run_LeasedBy r = Some ''w1''"
proof -
  note lease = demo_lease [folded demo_leased_def]
  have clk: "clock demo_leased = 0" by (simp add: demo_leased_def)
  have step: "service_step (foreign (demo_uuid 1)) demo_leased (demo_leased\<lparr>clock := 5\<rparr>)"
    using service_step.environment [of demo_leased 5 "foreign (demo_uuid 1)" "row_locked demo_leased" "script demo_leased"] clk by simp
  have good2: "good demo_running" by (rule good_store(6) [OF demo_waiting(1) demo_start])
  have "run_exists (demo_uuid 1) (primary demo_running)" 
    by (simp add: run_exists_def demo_running_def demo_leased_def demo_db_def demo_run_def new_run_row_def edit_run_def write_db_def
        update_where_def mark_running_row_def lease_row_def)
  then have fin: "run_state (CompleteRun (demo_uuid 1) None) demo_running = (Inr (), snd (run_state (CompleteRun (demo_uuid 1) None) demo_running))"
    using CompleteRun_good [OF good2, of "demo_uuid 1" "demo_uuid 1" None GNil] demo_waiting(2) by (simp add: json_Marshal_def demo_running_def)
  have run: "run_ID (run_view (lease_row ''w1'' 30000000000 0 demo_run)) = demo_uuid 1"
    "run_LeaseExpiresAt (run_view (lease_row ''w1'' 30000000000 0 demo_run)) = Some 30000000000"
    by (simp_all add: run_view_def run_of_row_def lease_row_def)
  have "clock demo_running \<le> 30000000000" by (simp add: demo_running_def)
  then show ?thesis
    using lease_to_completion [OF wf_demo(2) lease, unfolded run, OF r_into_rtranclp [of "service_step (foreign (demo_uuid 1))", OF step] demo_start rtranclp.rtrancl_refl fin refl] by blast
qed

text \<open>
  C10. A crashed worker's run is recovered. A worker leases a run, for a time that is not negative, and, having started it or not (the call to start it may be lost or not), is
  never heard of again: from then on all services do what they like, under any faults, but nobody names this run. Then, by the time the first
  reclaim that is answered after the lease's end has run, there was a moment, after the end of the lease, when the run was pending again
  with no lease, due, and with its attempt counted.
\<close>

theorem crashed_worker_recovered:
  assumes "wf_world w" and "run_state (LeaseNextRun x ld) w = (Inr (Some (run, job)), w1)" and "run_LeaseExpiresAt run = Some t"
    and "0 \<le> sint ld" and "(service_step (foreign (run_ID run)))\<^sup>*\<^sup>* w1 w2" and "w3 = w2 \<or> w3 = snd (run_state (MarkRunning (run_ID run)) w2)" and "clock w2 \<le> t"
    and "(service_step (foreign (run_ID run)))\<^sup>*\<^sup>* w3 w4" and "run_state ReclaimExpiredLeases w4 = (Inr n, w5)" and "t < clock w5"
  shows "\<exists>v r. (service_step (foreign (run_ID run)))\<^sup>*\<^sup>* w3 v \<and> (service_step (foreign (run_ID run)))\<^sup>*\<^sup>* v w5 \<and>
    r \<in> set (job_runs (primary v)) \<and> run_ID r = run_ID run \<and> run_Status r = RunStatusPending \<and> run_Attempt r = run_Attempt run \<and>
    run_LeasedBy r = None \<and> run_LeasedAt r = None \<and> run_LeaseExpiresAt r = None \<and> t < clock v \<and> run_ScheduledAt r \<le> clock v"
proof -
  obtain r0 where r0: "left_behind t r0 w1" "run_ID r0 = run_ID run" "run_Attempt r0 = run_Attempt run"
    using lease_left_behind [OF assms(1-4)] .
  have "held_until t r0 w2" using foreign_keeps_held [OF _ _ assms(7)] assms(5) r0 by (simp add: left_behind_def)
  then have "left_behind t r0 w2" using r0(1) by (simp add: left_behind_def)
  then obtain r where r: "left_behind t r w3" "run_ID r = run_ID run" "run_Attempt r = run_Attempt run"
    using assms(6) start_left_behind [OF _ surjective_pairing, of t r0 w2] r0(2,3) by (metis prod.collapse)
  have last: "service_step (foreign (run_ID run)) w4 w5" using service_step.reclaim [of "foreign (run_ID run)" w4] assms(9) by simp
  have "\<exists>v. (service_step (foreign (run_ID run)))\<^sup>*\<^sup>* w3 v \<and> (service_step (foreign (run_ID run)))\<^sup>*\<^sup>* v w5 \<and>
      t < clock v \<and> reclaim_row r \<in> set (job_runs (primary v))"
    using foreign_left_behind [of r w3 w4 t, unfolded r(2), OF assms(8) r(1)]
  proof (elim disjE exE conjE)
    assume still: "left_behind t r w4"
    then have wf: "wf_world w4" and here: "r \<in> set (job_runs (primary w4))" by (simp_all add: left_behind_def held_until_def)
    have "job_runs (primary w5) = update_where (lease_expired (clock w5)) reclaim_row (job_runs (primary w4))"
      using ReclaimExpiredLeases_cases [OF wf_worldD(1) [OF wf] assms(9)] by auto
    moreover have "lease_expired (clock w5) r" using still assms(10) by (auto simp: left_behind_def held_until_def lease_expired_def)
    ultimately have "reclaim_row r \<in> set (job_runs (primary w5))" using here by (auto simp: in_update_where)
    moreover have "(service_step (foreign (run_ID run)))\<^sup>*\<^sup>* w3 w5" using assms(8) last by (rule rtranclp.rtrancl_into_rtrancl)
    ultimately show ?thesis using assms(10) by blast
  next
    fix v assume "(service_step (foreign (run_ID run)))\<^sup>*\<^sup>* v w4"
    then have "(service_step (foreign (run_ID run)))\<^sup>*\<^sup>* v w5" using last by (rule rtranclp.rtrancl_into_rtrancl)
    moreover assume "(service_step (foreign (run_ID run)))\<^sup>*\<^sup>* w3 v" "t < clock v" "reclaim_row r \<in> set (job_runs (primary v))"
    ultimately show ?thesis by blast
  qed
  then obtain v where "(service_step (foreign (run_ID run)))\<^sup>*\<^sup>* w3 v" "(service_step (foreign (run_ID run)))\<^sup>*\<^sup>* v w5"
    "t < clock v" "reclaim_row r \<in> set (job_runs (primary v))" by blast
  moreover have "run_ScheduledAt r \<le> t" using r(1) by (simp add: left_behind_def)
  ultimately show ?thesis using r(2,3) by (intro exI [of _ v] exI [of _ "reclaim_row r"]) simp
qed

definition demo_late :: world where
  "demo_late = demo_running\<lparr>clock := 30000000001\<rparr>"

theorem crashed_worker_recovered_witness:
  "\<exists>v r. (service_step (foreign (demo_uuid 1)))\<^sup>*\<^sup>* demo_running v \<and> r \<in> set (job_runs (primary v)) \<and> run_ID r = demo_uuid 1 \<and>
     run_Status r = RunStatusPending \<and> run_Attempt r = 1 \<and> 30000000000 < clock v"
proof -
  note lease = demo_lease [folded demo_leased_def]
  have run: "run_ID (run_view (lease_row ''w1'' 30000000000 0 demo_run)) = demo_uuid 1"
    "run_LeaseExpiresAt (run_view (lease_row ''w1'' 30000000000 0 demo_run)) = Some 30000000000"
    "run_Attempt (run_view (lease_row ''w1'' 30000000000 0 demo_run)) = 1"
    by (simp_all add: run_view_def run_of_row_def lease_row_def)
  have clk: "clock demo_leased = 0" "clock demo_running = 5" by (simp_all add: demo_leased_def demo_running_def)
  have wait: "service_step (foreign (demo_uuid 1)) demo_leased (demo_leased\<lparr>clock := 5\<rparr>)"
    using service_step.environment [of demo_leased 5 "foreign (demo_uuid 1)" "row_locked demo_leased" "script demo_leased"] clk by simp
  have late: "service_step (foreign (demo_uuid 1)) demo_running demo_late"
    using service_step.environment [of demo_running 30000000001 "foreign (demo_uuid 1)" "row_locked demo_running" "script demo_running"]
      clk by (simp add: demo_late_def)
  have "good demo_late" using good_store(6) [OF demo_waiting(1) demo_start] by (simp add: good_def wf_world_def demo_late_def)
  then obtain n w5 where reclaim: "run_state ReclaimExpiredLeases demo_late = (Inr n, w5)" and "clock w5 = 30000000001"
    using ReclaimExpiredLeases_good [of demo_late] by (simp add: write_db_def demo_late_def)
  moreover have "demo_running = snd (run_state (MarkRunning (demo_uuid 1)) (demo_leased\<lparr>clock := 5\<rparr>))" by (simp only: demo_start snd_conv)
  moreover have "(30000000000 :: time) < 30000000001" "0 \<le> sint (30000000000 :: duration)" "clock (demo_leased\<lparr>clock := 5\<rparr>) \<le> 30000000000" by simp_all
  ultimately show ?thesis
    using crashed_worker_recovered [OF wf_demo(2) lease, unfolded run, OF refl _ r_into_rtranclp [of "service_step (foreign (demo_uuid 1))", OF wait]
        _ _ r_into_rtranclp [of "service_step (foreign (demo_uuid 1))", OF late] reclaim] by (simp only: simp_thms) blast
qed

end
