(* ===== verification/Cluster.thy ===== *)
theory Cluster
  imports Services
begin

text \<open>
  The whole cluster: API, janitors, workers and several scheduler replicas with their leader election. \<open>shared\<close> puts a store among other
  services, which act between any two of the caller's calls; the locale \<open>shared_promotion_store\<close> says what they may do, and
  shows that a store which satisfies the promoter's contract alone satisfies it among them.
\<close>

subsection \<open>Services that start and requeue only runs that are active\<close>

text \<open>
  What a promotion pass can bear next to it: nobody else creates runs, and \<open>MarkRunning\<close> and a requeueing
  \<open>FailRun\<close> name runs that are still active, which is so for a worker within its lease.
\<close>

fun orderly :: "world \<Rightarrow> run_call \<Rightarrow> bool" where
  "orderly w Call_CreateRun \<longleftrightarrow> False"
| "orderly w (Call_MarkRunning i) \<longleftrightarrow>
     (\<forall>r\<in>set (job_runs (primary w)). uuid_in w i = Some (run_ID r) \<longrightarrow> active_status (run_Status r))"
| "orderly w (Call_FailRun i True) \<longleftrightarrow>
     (\<forall>r\<in>set (job_runs (primary w)). uuid_in w i = Some (run_ID r) \<longrightarrow> active_status (run_Status r))"
| "orderly w _ \<longleftrightarrow> True"

lemma active_runs_mono:
  assumes "rows_change C w w'" and "\<And>r r'. r \<in> set (job_runs (primary w)) \<Longrightarrow> C r r' \<Longrightarrow>
    run_JobID r' = run_JobID r \<and> (active_status (run_Status r') \<longrightarrow> active_status (run_Status r))"
  shows "active_runs w' u \<le> active_runs w u"
proof -
  obtain p g where rows: "job_runs (primary w') = update_where p g (job_runs (primary w))"
    and C: "\<And>r. r \<in> set (job_runs (primary w)) \<Longrightarrow> p r \<Longrightarrow> C r (g r)" using assms(1) by (auto simp: rows_change_def)
  have "length (filter Q (update_where p g rs)) \<le> length (filter Q rs)"
    if "\<And>r. r \<in> set rs \<Longrightarrow> p r \<Longrightarrow> Q (g r) \<Longrightarrow> Q r" for Q and rs :: "run_row list"
    using that by (induction rs) (auto simp: update_where_def)
  note fewer = this
  show ?thesis unfolding active_runs_def rows by (rule fewer) (use assms(2) [OF _ C] in auto)
qed

lemma orderly_active:
  assumes "service_step orderly w w'" and "wf_world w"
  shows "active_runs w' u \<le> active_runs w u"
proof -
  have "rows_change (row_change orderly w (clock w')) w w'" using service_rows [OF assms] by auto
  then show ?thesis
    by (rule active_runs_mono) (auto simp: row_change_def lease_row_def reclaim_row_def mark_running_row_def complete_row_def
        requeue_row_def fail_row_def lease_expired_def)
qed


subsection \<open>Any store with other services next to it\<close>

text \<open>
  The state of a store and of the election, as a scheduler replica shares them with everybody else: before each of its store
  calls the next entry of \<open>others\<close> happens, which stands for whatever the other services and replicas did since the
  last call.
\<close>

record ('s, 'l) shared_state =
  store_state :: 's
  election :: 'l
  others :: "('s \<times> 'l \<Rightarrow> 's \<times> 'l) list"

definition interrupted :: "('s, 'a) state \<Rightarrow> (('s, 'l) shared_state, 'a) state" where
  "interrupted m = State (\<lambda>s.
     let (b, l) = (case others s of [] \<Rightarrow> (store_state s, election s) | f # _ \<Rightarrow> f (store_state s, election s));
         (r, b') = run_state m b
     in (r, \<lparr>store_state = b', election = l, others = tl (others s)\<rparr>))"

definition shared :: "'s store_api \<Rightarrow> ('s, 'l) shared_state store_api" where
  "shared st = \<lparr>api_CreateJob = (\<lambda>i. interrupted (api_CreateJob st i)), api_GetJob = (\<lambda>j. interrupted (api_GetJob st j)),
     api_GetJobByIdempotencyKey = (\<lambda>k. interrupted (api_GetJobByIdempotencyKey st k)),
     api_ListJobs = (\<lambda>s l off. interrupted (api_ListJobs st s l off)),
     api_UpdateJobStatus = (\<lambda>j s. interrupted (api_UpdateJobStatus st j s)),
     api_ListDependencies = (\<lambda>j. interrupted (api_ListDependencies st j)),
     api_LatestRunForJob = (\<lambda>j. interrupted (api_LatestRunForJob st j)),
     api_HasActiveRun = (\<lambda>j. interrupted (api_HasActiveRun st j)),
     api_CreateRun = (\<lambda>j p t. interrupted (api_CreateRun st j p t)),
     api_LeaseNextRun = (\<lambda>x ld. interrupted (api_LeaseNextRun st x ld)),
     api_ExtendLease = (\<lambda>r x e. interrupted (api_ExtendLease st r x e)),
     api_MarkRunning = (\<lambda>r. interrupted (api_MarkRunning st r)),
     api_CompleteRun = (\<lambda>r res. interrupted (api_CompleteRun st r res)),
     api_FailRun = (\<lambda>r m q b. interrupted (api_FailRun st r m q b)),
     api_MarkDead = (\<lambda>r m. interrupted (api_MarkDead st r m)),
     api_ReclaimExpiredLeases = interrupted (api_ReclaimExpiredLeases st), api_GetRun = (\<lambda>r. interrupted (api_GetRun st r)),
     api_ListJobRuns = (\<lambda>j l. interrupted (api_ListJobRuns st j l)),
     api_CountPendingRuns = interrupted (api_CountPendingRuns st),
     api_UpsertWorkerHeartbeat = (\<lambda>x h. interrupted (api_UpsertWorkerHeartbeat st x h)),
     api_ListWorkers = interrupted (api_ListWorkers st)\<rparr>"

definition shared_ready :: "('s \<Rightarrow> bool) \<Rightarrow> ('l \<Rightarrow> bool) \<Rightarrow> ('s \<times> 'l \<Rightarrow> 's \<times> 'l \<Rightarrow> bool) \<Rightarrow> ('s, 'l) shared_state \<Rightarrow> bool" where
  "shared_ready ready safe rely s \<longleftrightarrow> ready (store_state s) \<and> safe (election s) \<and>
     (\<forall>f\<in>set (others s). \<forall>b l. ready b \<longrightarrow> safe l \<longrightarrow> rely (b, l) (f (b, l)))"

text \<open>
  A store that stands what happens next to it: \<open>rely\<close> is what the others may do while the caller is \<open>safe\<close>; they
  keep it safe, and add no active run.
\<close>

locale shared_promotion_store = promotion_store st ready resolve active
  for st :: "'s store_api" and ready :: "'s \<Rightarrow> bool" and resolve :: "'s \<Rightarrow> string \<Rightarrow> uid option"
    and active :: "'s \<Rightarrow> uid \<Rightarrow> nat" +
  fixes safe :: "'l \<Rightarrow> bool" and rely :: "'s \<times> 'l \<Rightarrow> 's \<times> 'l \<Rightarrow> bool"
  assumes rely_frame: "rely (s, l) (s', l') \<Longrightarrow> ready s \<Longrightarrow> safe l \<Longrightarrow> store_frame ready resolve active s s' \<and> safe l'"
begin

abbreviation shared_ok :: "('s, 'l) shared_state \<Rightarrow> bool" where
  "shared_ok \<equiv> shared_ready ready safe rely"

abbreviation shared_resolve :: "('s, 'l) shared_state \<Rightarrow> string \<Rightarrow> uid option" where
  "shared_resolve s \<equiv> resolve (store_state s)"

abbreviation shared_active :: "('s, 'l) shared_state \<Rightarrow> uid \<Rightarrow> nat" where
  "shared_active s \<equiv> active (store_state s)"

text \<open>The state in which the operation itself runs.\<close>

lemma interrupted_cases:
  assumes "shared_ok s" and "run_state (interrupted m) s = (r, s')"
  obtains b b' l where "run_state m b = (r, b')" and "s' = \<lparr>store_state = b', election = l, others = tl (others s)\<rparr>"
    and "ready b" and "safe l" and "resolve b = shared_resolve s" and "\<forall>u. active b u \<le> shared_active s u"
proof -
  obtain b l where b: "(case others s of [] \<Rightarrow> (store_state s, election s) | f # _ \<Rightarrow> f (store_state s, election s)) = (b, l)"
    by fastforce
  have "store_frame ready resolve active (store_state s) b \<and> safe l"
  proof (cases "others s")
    case Nil
    then show ?thesis using b assms(1) frm.R_refl by (auto simp: shared_ready_def)
  next
    case (Cons f fs)
    then have "rely (store_state s, election s) (b, l)" using b assms(1) by (simp add: shared_ready_def) metis
    then show ?thesis using rely_frame assms(1) by (simp add: shared_ready_def)
  qed
  then have "ready b" "safe l" "resolve b = shared_resolve s" "\<forall>u. active b u \<le> shared_active s u"
    using assms(1) by (simp_all add: store_frame_def shared_ready_def)
  moreover obtain r' b' where "run_state m b = (r', b')" by fastforce
  ultimately show ?thesis using that assms(2) b by (auto simp: interrupted_def)
qed

lemma shared_ready_next:
  "shared_ok s \<Longrightarrow> ready b' \<Longrightarrow> safe l \<Longrightarrow> shared_ok \<lparr>store_state = b', election = l, others = tl (others s)\<rparr>"
  by (cases "others s") (auto simp: shared_ready_def)

lemma interrupted_frame:
  assumes "io_rel (store_frame ready resolve active) m"
  shows "io_rel (store_frame shared_ok shared_resolve shared_active) (interrupted m)"
proof (rule io_relI)
  fix s :: "('s, 'l) shared_state"
  obtain r s' where run: "run_state (interrupted m) s = (r, s')" by fastforce
  show "store_frame shared_ok shared_resolve shared_active s (snd (run_state (interrupted m) s))"
    unfolding store_frame_def run snd_conv
  proof
    assume s: "shared_ok s"
    obtain b b' l where b: "run_state m b = (r, b')" and s': "s' = \<lparr>store_state = b', election = l, others = tl (others s)\<rparr>"
      and rb: "ready b" "safe l" "resolve b = shared_resolve s" "\<forall>u. active b u \<le> shared_active s u"
      by (rule interrupted_cases [OF s run])
    have "ready b' \<and> resolve b' = resolve b \<and> (\<forall>u. active b' u \<le> active b u)"
      using io_relD [OF assms b] rb(1) by (simp add: store_frame_def)
    then show "shared_ok s' \<and> shared_resolve s' = shared_resolve s \<and> (\<forall>u. shared_active s' u \<le> shared_active s u)"
      using s' rb shared_ready_next [OF s] by (auto intro: order_trans)
  qed
qed

end

sublocale shared_promotion_store \<subseteq> sh: promotion_store "shared st" shared_ok shared_resolve shared_active
proof unfold_locales
  fix s j s' assume ready: "shared_ok s" and run: "run_state (api_HasActiveRun (shared st) j) s = (Inr False, s')"
  then have run': "run_state (interrupted (api_HasActiveRun st j)) s = (Inr False, s')" by (simp add: shared_def)
  obtain b b' l where b: "run_state (api_HasActiveRun st j) b = (Inr False, b')"
    "s' = \<lparr>store_state = b', election = l, others = tl (others s)\<rparr>" "ready b" "resolve b = shared_resolve s"
    by (rule interrupted_cases [OF ready run'])
  then show "\<exists>u. shared_resolve s j = Some u \<and> shared_active s' u = 0"
    using HasActiveRun_sound [OF b(3,1)] by simp
next
  fix s j p t r s' assume ready: "shared_ok s" and run: "run_state (api_CreateRun (shared st) j p t) s = (r, s')"
  then have run': "run_state (interrupted (api_CreateRun st j p t)) s = (r, s')" by (simp add: shared_def)
  obtain b b' l where b: "run_state (api_CreateRun st j p t) b = (r, b')"
    and s': "s' = \<lparr>store_state = b', election = l, others = tl (others s)\<rparr>" and "ready b" "safe l"
    and le: "resolve b = shared_resolve s" "\<forall>u. active b u \<le> shared_active s u"
    by (rule interrupted_cases [OF ready run'])
  note add = CreateRun_adds [OF \<open>ready b\<close> b]
  have "shared_active s' u \<le> shared_active s u + (if shared_resolve s j = Some u then 1 else 0)" for u
    using add le(2) s' by (auto simp: le(1) dest!: spec [of _ u])
  then show "shared_ok s' \<and> shared_resolve s' = shared_resolve s \<and>
      (\<forall>u. shared_active s' u \<le> shared_active s u + (if shared_resolve s j = Some u then 1 else 0))"
    using add le(1) s' shared_ready_next [OF ready _ \<open>safe l\<close>] by auto
qed (simp_all add: shared_def interrupted_frame frame_ListJobs frame_HasActiveRun frame_LatestRunForJob
    frame_ListDependencies frame_CountPendingRuns)


subsection \<open>The pass of a leader on the Postgres store\<close>

text \<open>
  What goes on while replica \<open>e\<close> promotes: orderly steps of the services, and steps of the election after
  which \<open>e\<close> still leads on a live session. Other replicas ask for leadership meanwhile as they like.
\<close>

inductive meanwhile :: "replica_id \<Rightarrow> world \<times> lock_sys \<Rightarrow> world \<times> lock_sys \<Rightarrow> bool" for e where
  services: "service_step orderly w w' \<Longrightarrow> meanwhile e (w, l) (w', l)"
| election: "lock_step l l' \<Longrightarrow> live_leader e l' \<Longrightarrow> meanwhile e (w, l) (w, l')"

definition undisturbed :: "world \<Rightarrow> bool" where
  "undisturbed w \<longleftrightarrow> wf_world w \<and> reads_primary w"

definition leads :: "replica_id \<Rightarrow> lock_sys \<Rightarrow> bool" where
  "leads e l \<longleftrightarrow> lock_inv l \<and> live_leader e l"

lemma undisturbed_step:
  assumes "service_step allowed w w'" and "undisturbed w"
  shows "undisturbed w'"
  using assms service_wf [OF assms(1)] service_frame [OF assms(1)] by (simp add: undisturbed_def)

lemma meanwhile_frame:
  "meanwhile e c c' \<Longrightarrow> undisturbed (fst c) \<Longrightarrow> leads e (snd c) \<Longrightarrow>
    store_frame undisturbed uuid_in active_runs (fst c) (fst c') \<and> leads e (snd c')"
proof (induction rule: meanwhile.induct)
  case (services w w' l)
  then show ?case
    using undisturbed_step [OF services(1)] service_frame [OF services(1)] orderly_active [OF services(1)]
    by (simp add: store_frame_def undisturbed_def)
next
  case (election l l' w)
  then show ?case by (auto simp: store_frame_def leads_def intro: step_lock_inv)
qed

lemma meanwhiles_frame:
  assumes "(meanwhile e)\<^sup>*\<^sup>* c c'" and "undisturbed (fst c)" and "leads e (snd c)"
  shows "store_frame undisturbed uuid_in active_runs (fst c) (fst c') \<and> leads e (snd c')"
  using assms(1)
proof (induction rule: rtranclp_induct)
  case base
  then show ?case using assms by (simp add: store_frame_def)
next
  case (step y z)
  then show ?case using meanwhile_frame [OF step(2)] assms(2) by (auto simp: store_frame_def intro: order_trans)
qed

lemma frame_undisturbed:
  assumes "io_rel (store_frame reads_primary uuid_in active_runs) m" and "\<And>w. undisturbed w \<Longrightarrow> wf_world (snd (run_state m w))"
  shows "io_rel (store_frame undisturbed uuid_in active_runs) m"
  using assms by (auto simp: io_rel_def store_frame_def undisturbed_def)

interpretation leader: shared_promotion_store pg_store undisturbed uuid_in active_runs "leads e" "(meanwhile e)\<^sup>*\<^sup>*" for e
proof unfold_locales
  have wf: "wf_world (snd (run_state m w))" if "undisturbed w" "service_step (\<lambda>_ _. True) w (snd (run_state m w))"
    for m :: "(world, 'a) state" and w using undisturbed_step [OF that(2,1)] by (simp add: undisturbed_def)
  show "io_rel (store_frame undisturbed uuid_in active_runs) (api_ListJobs pg_store status l off)" for status l off
    by (rule frame_undisturbed [OF pg_promotion.frame_ListJobs wf]) (auto intro: service_step.intros)
  show "io_rel (store_frame undisturbed uuid_in active_runs) (api_HasActiveRun pg_store j)" for j
    by (rule frame_undisturbed [OF pg_promotion.frame_HasActiveRun wf]) (auto intro: service_step.intros)
  show "io_rel (store_frame undisturbed uuid_in active_runs) (api_LatestRunForJob pg_store j)" for j
    by (rule frame_undisturbed [OF pg_promotion.frame_LatestRunForJob wf]) (auto intro: service_step.intros)
  show "io_rel (store_frame undisturbed uuid_in active_runs) (api_ListDependencies pg_store j)" for j
    by (rule frame_undisturbed [OF pg_promotion.frame_ListDependencies wf]) (auto intro: service_step.intros)
  show "io_rel (store_frame undisturbed uuid_in active_runs) (api_CountPendingRuns pg_store)"
    by (rule frame_undisturbed [OF pg_promotion.frame_CountPendingRuns wf]) (auto intro: service_step.intros)
  show "\<exists>u. uuid_in s j = Some u \<and> active_runs s' u = 0"
    if "undisturbed s" "run_state (api_HasActiveRun pg_store j) s = (Inr False, s')" for s s' j
    using that pg_promotion.HasActiveRun_sound by (simp add: undisturbed_def)
  show "undisturbed s' \<and> uuid_in s' = uuid_in s \<and> (\<forall>u. active_runs s' u \<le> active_runs s u + (if uuid_in s j = Some u then 1 else 0))"
    if "undisturbed s" "run_state (api_CreateRun pg_store j p t) s = (r, s')" for s s' j p t r
    using that pg_promotion.CreateRun_adds [of s j p t r s'] undisturbed_step [OF service_step.create_run [of "\<lambda>_ _. True" s j p t]]
    by (simp add: undisturbed_def)
  show "store_frame undisturbed uuid_in active_runs s s' \<and> leads e l'"
    if "(meanwhile e)\<^sup>*\<^sup>* (s, l) (s', l')" "undisturbed s" "leads e l" for s s' l l'
    using meanwhiles_frame [OF that(1)] that by simp
qed


lemma leader_excludes:
  assumes "leads e l" and "e' \<noteq> e" and "pool_gives e' l (acquire1 a)" and "pool_gives e' l (acquire2 a)"
  shows "fst (TryAcquire e' a l) \<noteq> Inr True"
proof
  assume yes: "fst (TryAcquire e' a l) = Inr True"
  obtain l' where t: "TryAcquire e' a l = (Inr True, l')" using yes by (cases "TryAcquire e' a l") simp
  have inv: "lock_inv l'" and "live_leader e' l'"
    using TryAcquire_inv [OF _ assms(3,4) t] assms(1) by (auto simp: leads_def live_leader_def)
  moreover have "live_leader e l'" using assms(1,2) TryAcquire_others [OF t] by (auto simp: leads_def live_leader_def)
  ultimately show False using live_leader_unique [OF inv] assms(2) by blast
qed

subsection \<open>The cluster\<close>

definition try_acquire_shared :: "replica_id \<Rightarrow> answers \<Rightarrow> (('s, lock_sys) shared_state, err + bool) state" where
  "try_acquire_shared e a = State (\<lambda>s. let (r, l) = TryAcquire e a (election s) in (r, s\<lparr>election := l\<rparr>))"

definition leader_tick :: "replica_id \<Rightarrow> answers \<Rightarrow> cron_lib \<Rightarrow> int \<Rightarrow> ((world, lock_sys) shared_state, unit) state" where
  "leader_tick e a cron skew = promoter_tick (try_acquire_shared e a) (shared pg_store) cron (interrupted (host_clock skew))"

text \<open>
  The services, the election, and ticks of scheduler replicas. A tick is the whole of \<open>Promoter.Run\<close>'s tick, with what the
  others do between its store calls; it ends while the replica's election session is still alive.
\<close>

inductive cluster_step :: "world \<times> lock_sys \<Rightarrow> world \<times> lock_sys \<Rightarrow> bool" where
  service: "service_step orderly w w' \<Longrightarrow> cluster_step (w, l) (w', l)"
| electing: "lock_step l l' \<Longrightarrow> cluster_step (w, l) (w, l')"
| tick: "pool_gives e l (acquire1 a) \<Longrightarrow> pool_gives e l (acquire2 a) \<Longrightarrow>
    (\<forall>f\<in>set fs. \<forall>v m. undisturbed v \<longrightarrow> leads e m \<longrightarrow> (meanwhile e)\<^sup>*\<^sup>* (v, m) (f (v, m))) \<Longrightarrow>
    run_state (leader_tick e a cron skew) \<lparr>store_state = w, election = l, others = fs\<rparr> = ((), s') \<Longrightarrow>
    cluster_step (w, l) (store_state s', election s')"

definition cluster_inv :: "world \<times> lock_sys \<Rightarrow> bool" where
  "cluster_inv c \<longleftrightarrow> undisturbed (fst c) \<and> lock_inv (snd c) \<and> (\<forall>u. active_runs (fst c) u \<le> 1)"

lemma shared_clock_frame:
  "io_rel (store_frame (shared_ready undisturbed (leads e) (meanwhile e)\<^sup>*\<^sup>*) (\<lambda>s. uuid_in (store_state s)) (\<lambda>s. active_runs (store_state s)))
     (interrupted (host_clock skew))"
  by (rule leader.interrupted_frame, rule io_relI) (simp add: host_clock_def store_frame_def)

lemma tick_inv:
  assumes "cluster_inv (w, l)" and "pool_gives e l (acquire1 a)" and "pool_gives e l (acquire2 a)"
    and "\<forall>f\<in>set fs. \<forall>v m. undisturbed v \<longrightarrow> leads e m \<longrightarrow> (meanwhile e)\<^sup>*\<^sup>* (v, m) (f (v, m))"
    and "run_state (leader_tick e a cron skew) \<lparr>store_state = w, election = l, others = fs\<rparr> = ((), s')"
  shows "cluster_inv (store_state s', election s')"
proof -
  obtain r l1 where t: "TryAcquire e a l = (r, l1)" by fastforce
  note inv = TryAcquire_inv [OF _ assms(2,3) t]
  let ?s = "\<lparr>store_state = w, election = l1, others = fs\<rparr>" and ?pass = "PromoteOnce (shared pg_store) cron (interrupted (host_clock skew))"
  show ?thesis
  proof (cases "r = Inr True")
    case False
    then have "s' = ?s" using assms(5) t
      by (auto simp: leader_tick_def promoter_tick_def try_acquire_shared_def split: sum.splits)
    then show ?thesis using assms(1) inv(1) by (simp add: cluster_inv_def)
  next
    case True
    then have s': "s' = snd (run_state ?pass ?s)" using assms(5) t
      by (auto simp: leader_tick_def promoter_tick_def try_acquire_shared_def split: prod.splits)
    have "leads e l1" using inv True assms(1) by (auto simp: leads_def live_leader_def cluster_inv_def)
    then have "shared_ready undisturbed (leads e) (meanwhile e)\<^sup>*\<^sup>* ?s" using assms(1,4) by (simp add: shared_ready_def cluster_inv_def)
    then have "shared_ready undisturbed (leads e) (meanwhile e)\<^sup>*\<^sup>* s' \<and> (\<forall>u. active_runs (store_state s') u \<le> max 1 (active_runs w u))"
      using io_relD [OF leader.sh.PromoteOnce_bounded [OF shared_clock_frame [of e skew], of cron] surjective_pairing, of ?s] s'
      by (simp add: no_second_run_def)
    moreover from this have "active_runs (store_state s') u \<le> 1" for u
      using assms(1) by (auto simp: cluster_inv_def dest!: spec [of _ u])
    ultimately show ?thesis by (auto simp: cluster_inv_def shared_ready_def leads_def)
  qed
qed

lemma cluster_step_inv: "cluster_step c c' \<Longrightarrow> cluster_inv c \<Longrightarrow> cluster_inv c'"
proof (induction rule: cluster_step.induct)
  case (service w w' l)
  then show ?case
    using undisturbed_step [OF service(1)] orderly_active [OF service(1)]
    by (auto simp: cluster_inv_def undisturbed_def intro: order_trans)
next
  case (electing l l' w)
  then show ?case by (auto simp: cluster_inv_def intro: step_lock_inv)
next
  case (tick e l a fs cron skew w s')
  then show ?case using tick_inv by blast
qed

lemma cluster_steps_inv: "cluster_step\<^sup>*\<^sup>* c c' \<Longrightarrow> cluster_inv c \<Longrightarrow> cluster_inv c'"
  by (induction rule: rtranclp_induct) (auto intro: cluster_step_inv)


subsection \<open>Property\<close>

text \<open>
  C24. The whole cluster, call by call. Start with no job having two active runs and no leader. Let workers start and requeue only runs that are
  still active, and let every promotion pass end before its leader's session does. Then, whatever the API, the janitors, the workers and any
  number of scheduler replicas do, under any faults and with every store call of a pass interleaved with everybody else's calls,
  no job ever has two active runs; and while a replica leads on a live session, no other replica is told that it is the leader.
\<close>

theorem cluster_one_active_run:
  assumes "undisturbed w0" and "idle_sys l0" and "\<And>u. active_runs w0 u \<le> 1" and "cluster_step\<^sup>*\<^sup>* (w0, l0) (w, l)"
  shows "active_runs w u \<le> 1 \<and>
    (live_leader e l \<longrightarrow> (meanwhile e)\<^sup>*\<^sup>* (w, l) (w', l') \<longrightarrow> e' \<noteq> e \<longrightarrow> pool_gives e' l' (acquire1 a) \<longrightarrow>
       pool_gives e' l' (acquire2 a) \<longrightarrow> fst (TryAcquire e' a l') \<noteq> Inr True)"
proof -
  have "cluster_inv (w0, l0)" using assms(1-3) idle_lock_inv by (simp add: cluster_inv_def)
  then have inv: "cluster_inv (w, l)" using cluster_steps_inv [OF assms(4)] by simp
  have "leads e l'" if "live_leader e l" "(meanwhile e)\<^sup>*\<^sup>* (w, l) (w', l')"
    using meanwhiles_frame [OF that(2)] inv that(1) by (simp add: cluster_inv_def leads_def)
  then show ?thesis using inv leader_excludes by (auto simp: cluster_inv_def)
qed

definition demo_idle :: world where
  "demo_idle = demo_world (empty_db\<lparr>jobs := [demo_job]\<rparr>) 1"

definition demo_tick :: "(world, lock_sys) shared_state" where
  "demo_tick = snd (run_state (leader_tick 0 (calm 0) (\<lambda>_. Inl ErrJSON) 0)
     \<lparr>store_state = demo_idle, election = demo_sys, others = [\<lambda>c. (snd (run_state ReclaimExpiredLeases (fst c)), snd c)]\<rparr>)"

theorem cluster_one_active_run_witness:
  "active_runs (store_state demo_tick) (demo_uuid 0) \<le> 1 \<and>
   fst (TryAcquire 1 (calm 1) (snd (TryAcquire 0 (calm 0) demo_sys))) \<noteq> Inr True"
proof -
  let ?l = "snd (TryAcquire 0 (calm 0) demo_sys)"
  have "good demo_idle" unfolding demo_idle_def by (rule good_store(1) [OF good_demo_empty demo_CreateJob])
  then have start: "undisturbed demo_idle" "idle_sys demo_sys" "active_runs demo_idle u \<le> 1" for u
    by (simp_all add: undisturbed_def good_def idle_sys_def demo_sys_def active_runs_def demo_idle_def empty_db_def)
  have pool: "pool_gives e demo_sys (acquire1 (calm e))" "pool_gives e demo_sys (acquire2 (calm e))" if "e < 2" for e
    using that by (simp_all add: pool_gives_def demo_sys_def calm_def)
  have "cluster_step (demo_idle, demo_sys) (store_state demo_tick, election demo_tick)"
    by (rule cluster_step.tick [OF pool(1) pool(2), of 0 "[\<lambda>c. (snd (run_state ReclaimExpiredLeases (fst c)), snd c)]" "\<lambda>_. Inl ErrJSON" 0])
      (auto simp: demo_tick_def prod_eq_iff intro!: r_into_rtranclp meanwhile.services service_step.reclaim)
  then have "active_runs (store_state demo_tick) (demo_uuid 0) \<le> 1"
    using cluster_one_active_run [OF start r_into_rtranclp] by blast
  moreover have "cluster_step (demo_idle, demo_sys) (demo_idle, ?l)"
    by (rule cluster_step.electing, rule lock_step.try_acquire) (simp_all add: pool)
  moreover have "live_leader 0 ?l" "pool_gives 1 ?l (acquire1 (calm 1))" "pool_gives 1 ?l (acquire2 (calm 1))"
    by (simp_all add: live_leader_def pool_gives_def TryAcquire_def ensure_conn_def pg_try_advisory_lock_def demo_sys_def newPostgresElector_def calm_def set_elector_def Let_def)
  ultimately show ?thesis
    using cluster_one_active_run [OF start r_into_rtranclp, of demo_idle ?l _ 0 demo_idle ?l 1 "calm 1"] by blast
qed

end
