(* ===== verification/Lifecycle.thy ===== *)
theory Lifecycle
  imports Service Cluster "HOL-Library.Multiset"
begin

text \<open>
  The \<open>main\<close> functions from start to exit: what each opens, what makes it exit early, what it waits for, and what it closes on the
  way out, deferred calls last and in reverse. Then the end of a scheduler's leadership on shutdown.
\<close>

subsection \<open>Tracing\<close>

text \<open>
  \<open>tracing.Init\<close>: with an endpoint it builds an exporter and makes a provider for it, with the service's name, the global one; what it
  returns is the function that \<open>main\<close> defers.
\<close>

datatype shutdown_fun = No_shutdown | Provider_shutdown

record otel_globals =
  tracer_provider :: "(string \<times> string) option"
  propagates :: bool

definition Init :: "libraries \<Rightarrow> string \<Rightarrow> string \<Rightarrow> otel_globals \<Rightarrow> (err + shutdown_fun) \<times> otel_globals" where
  "Init lib serviceName otlpEndpoint g =
     (if otlpEndpoint = [] then (Inr No_shutdown, g)
      else (case otlp_New lib otlpEndpoint of
          Some e \<Rightarrow> (Inl (ErrWrap ''create otlp exporter'' e), g)
        | None \<Rightarrow> (Inr Provider_shutdown, g\<lparr>tracer_provider := Some (otlpEndpoint, serviceName), propagates := True\<rparr>)))"

text \<open>
  Tracing is opt-in: without an endpoint \<open>Init\<close> succeeds and leaves the globals alone, whatever the exporter would do; and \<open>boot\<close> uses
  of it exactly whether it fails.
\<close>

theorem tracing_opt_in:
  "Init lib serviceName [] g = (Inr No_shutdown, g) \<and>
   (tracing_Init lib otlpEndpoint = None \<longleftrightarrow> (\<exists>f. fst (Init lib serviceName otlpEndpoint g) = Inr f)) \<and>
   (\<forall>e. tracing_Init lib otlpEndpoint = Some e \<longrightarrow> Init lib serviceName otlpEndpoint g = (Inl e, g))"
  by (simp add: Init_def tracing_Init_def split: option.splits)

subsection \<open>The processes\<close>

datatype resource = Signals | Tracing | Store_pool | Replica_pool | Redis | Server string | Shutdown_timeout

datatype action = Open resource | Shut resource | Log_error string

text \<open>\<open>PostgresStore.Close\<close> closes its pools, \<open>Close\<close> of the cache Redis' connection and then the store under it.\<close>

definition pg_Close :: "bool \<Rightarrow> action list" where
  "pg_Close replicaPool = Shut Store_pool # (if replicaPool then [Shut Replica_pool] else [])"

definition cache_Close :: "bool \<Rightarrow> action list" where
  "cache_Close replicaPool = Shut Redis # pg_Close replicaPool"

text \<open>\<open>fatal\<close>: the error is logged, \<open>stop\<close> is called, and \<open>os.Exit(1)\<close> skips every deferred call.\<close>

definition fatal :: "action list \<Rightarrow> string \<Rightarrow> action list \<times> int" where
  "fatal before msg = (before @ [Log_error msg, Shut Signals], 1)"

text \<open>
  The part the three functions share, from the signal context to the migrations; \<open>rest\<close> continues with what is open. The tracing
  that \<open>Init\<close> sets up is a no-op without an endpoint, and its shutdown then does nothing.
\<close>

definition open_common :: "libraries \<Rightarrow> (string \<Rightarrow> err option) \<Rightarrow> config \<Rightarrow> (action list \<Rightarrow> action list \<times> int) \<Rightarrow> action list \<times> int" where
  "open_common lib migrate cfg rest =
     (if tracing_Init lib (cfg_OTLPEndpoint cfg) \<noteq> None then fatal [Open Signals] ''init tracing''
      else if store_New lib (cfg_DatabaseURL cfg) \<noteq> None then fatal [Open Signals, Open Tracing] ''connect to database''
      else if migrate (cfg_DatabaseURL cfg) \<noteq> None then fatal [Open Signals, Open Tracing, Open Store_pool] ''run migrations''
      else rest [Open Signals, Open Tracing, Open Store_pool])"

datatype wait = Signal_received | Server_failed

definition api_process :: "environment \<Rightarrow> libraries \<Rightarrow> (string \<Rightarrow> err option) \<Rightarrow> wait \<Rightarrow> action list \<times> int" where
  "api_process env lib migrate ev = (case Load env of
     Inl _ \<Rightarrow> ([Log_error ''load config''], 1)
   | Inr cfg \<Rightarrow>
       if cfg_JWTSecret cfg = [] then ([Log_error ''JWT_SECRET must be set''], 1)
       else open_common lib migrate cfg (\<lambda>opened.
         if cfg_ReplicaURL cfg \<noteq> [] \<and> EnableReadReplica lib (cfg_ReplicaURL cfg) \<noteq> None then fatal opened ''connect to read replica''
         else let replica = (cfg_ReplicaURL cfg \<noteq> []); redis = (cfg_RedisAddr cfg \<noteq> []) in
           (opened @ (if replica then [Open Replica_pool] else []) @ (if redis then [Open Redis] else []) @
              [Open (Server (cfg_HTTPAddr cfg)), Open (Server (cfg_MetricsAddr cfg))] @
              (case ev of Signal_received \<Rightarrow> [] | Server_failed \<Rightarrow> [Log_error ''server error, shutting down'']) @
              [Open Shutdown_timeout, Shut (Server (cfg_HTTPAddr cfg)), Shut (Server (cfg_MetricsAddr cfg)), Shut Shutdown_timeout] @
              (if redis then cache_Close replica else pg_Close replica) @ [Shut Tracing, Shut Signals], 0)))"

text \<open>The scheduler and the worker: a metrics server beside the loop, whose own errors are ignored, and its shutdown when the loop returns.\<close>

definition loop_process :: "environment \<Rightarrow> libraries \<Rightarrow> (string \<Rightarrow> err option) \<Rightarrow> action list \<times> int" where
  "loop_process env lib migrate = (case Load env of
     Inl _ \<Rightarrow> ([Log_error ''load config''], 1)
   | Inr cfg \<Rightarrow> open_common lib migrate cfg (\<lambda>opened.
       (opened @ [Open (Server (cfg_MetricsAddr cfg)), Open Shutdown_timeout, Shut (Server (cfg_MetricsAddr cfg)), Shut Shutdown_timeout] @
        pg_Close False @ [Shut Tracing, Shut Signals], 0)))"

definition scheduler_process :: "environment \<Rightarrow> libraries \<Rightarrow> (string \<Rightarrow> err option) \<Rightarrow> action list \<times> int" where
  "scheduler_process = loop_process"

definition worker_process :: "environment \<Rightarrow> libraries \<Rightarrow> (string \<Rightarrow> err option) \<Rightarrow> action list \<times> int" where
  "worker_process = loop_process"

definition opened_resources :: "action list \<Rightarrow> resource list" where
  "opened_resources as = concat (map (\<lambda>a. case a of Open r \<Rightarrow> [r] | _ \<Rightarrow> []) as)"

definition shut_resources :: "action list \<Rightarrow> resource list" where
  "shut_resources as = concat (map (\<lambda>a. case a of Shut r \<Rightarrow> [r] | _ \<Rightarrow> []) as)"

lemmas action_simps = opened_resources_def shut_resources_def fatal_def pg_Close_def cache_Close_def

text \<open>
  A process that comes up closes everything it opened, whatever made it stop; one that does not come up exits with 1 and leaves
  what it opened to the operating system, except the signal handler. Whether the API comes up is what \<open>api_main\<close> says.
\<close>

theorem process_releases:
  assumes "api_process env lib migrate ev = (as, code)"
  shows "(code = 0 \<longrightarrow> mset (opened_resources as) = mset (shut_resources as) \<and> (\<exists>svc. api_main env lib migrate = Inr svc)) \<and>
    (code \<noteq> 0 \<longrightarrow> code = 1 \<and> set (shut_resources as) \<subseteq> {Signals} \<and> (\<exists>msg. api_main env lib migrate = Inl msg))"
  using assms
  by (auto simp: api_process_def open_common_def api_main_def boot_def action_simps Let_def
      split: sum.splits if_splits wait.splits)

theorem loop_process_releases:
  assumes "scheduler_process env lib migrate = (as, code) \<or> worker_process env lib migrate = (as, code)"
  shows "(code = 0 \<longrightarrow> mset (opened_resources as) = mset (shut_resources as) \<and> (\<exists>d. scheduler_main env lib migrate = Inr d)) \<and>
    (code \<noteq> 0 \<longrightarrow> code = 1 \<and> set (shut_resources as) \<subseteq> {Signals} \<and> (\<exists>msg. scheduler_main env lib migrate = Inl msg))"
  using assms
  by (auto simp: scheduler_process_def worker_process_def loop_process_def open_common_def scheduler_main_def boot_def action_simps split: sum.splits if_splits)

text \<open>
  A server error ends the process like a signal does: the exit code is 0.
\<close>

theorem server_error_exits_zero:
  "snd (api_process env lib migrate Server_failed) = snd (api_process env lib migrate Signal_received)"
  by (simp add: api_process_def open_common_def fatal_def Let_def split: sum.splits)

subsection \<open>Leadership on shutdown\<close>

lemma TryAcquire_holder:
  assumes "TryAcquire e a l = (r, l')" and "lock_by l = Some (s, n)"
  shows "\<exists>m. lock_by l' = Some (s, m)" and "owner l' = owner l"
proof -
  obtain c l1 where ec: "ensure_conn e a l = (c, l1)" by fastforce
  then have one: "lock_by l1 = Some (s, n)" "owner l1 = owner l"
    using assms(2) by (auto simp: ensure_conn_def Let_def split: option.splits if_splits)
  have try_lock: "(\<exists>m. lock_by l2 = Some (s, m)) \<and> owner l2 = owner l1" if "pg_try_advisory_lock t l1 = (acq, l2)" for t acq l2
    using that one by (auto simp: pg_try_advisory_lock_def split: if_splits)
  show "\<exists>m. lock_by l' = Some (s, m)" and "owner l' = owner l"
    using assms(1) ec one by (auto simp: TryAcquire_def split: sum.splits if_splits prod.splits dest: try_lock)
qed

text \<open>
  When the context is over, \<open>Promoter.Run\<close> calls \<open>Release\<close> with that same context. The driver does not send a query whose context
  is done: the call fails, and the connection goes back to the pool with its session alive.
\<close>

definition release_on_shutdown :: "replica_id \<Rightarrow> answers \<Rightarrow> lock_sys \<Rightarrow> (err + unit) \<times> lock_sys" where
  "release_on_shutdown e a l = Release e (a\<lparr>sent := False\<rparr>) l"

text \<open>
  So a leader that shuts down does not give up leadership at once: its elector forgets the connection, but the lock stays with
  the session, no other replica is told yes, and only the end of the session, when the process closes its pool, frees it.
\<close>

theorem shutdown_keeps_lock:
  assumes "lock_inv l" and "live_leader e l" and "release_on_shutdown e a l = (r, l')"
    and "e' \<noteq> e" and "pool_gives e' l' (acquire1 b)" and "pool_gives e' l' (acquire2 b)"
  shows "r = Inl ErrConn \<and> \<not> isLeader (electors l' e) \<and> lock_by l' = lock_by l \<and> fst (TryAcquire e' b l') \<noteq> Inr True \<and>
    (\<exists>s n. lock_by l = Some (s, n) \<and> lock_by (session_ends s l') = None)"
proof -
  obtain s where s: "conn (electors l e) = Some s" "alive l s" "isLeader (electors l e)"
    using assms(2) by (auto simp: live_leader_def)
  then obtain n where lk: "lock_by l = Some (s, n)" using lock_invD(4) [OF assms(1)] by blast
  have l': "r = Inl ErrConn" "l' = set_elector e \<lparr>conn = None, isLeader = False\<rparr> l"
    using assms(3) s by (auto simp: release_on_shutdown_def Release_def Let_def)
  have inv: "lock_inv l'" using Release_inv [OF assms(1), of e "a\<lparr>sent := False\<rparr>"] assms(3) by (simp add: release_on_shutdown_def)
  have "fst (TryAcquire e' b l') \<noteq> Inr True"
  proof
    assume yes: "fst (TryAcquire e' b l') = Inr True"
    obtain l2 where t: "TryAcquire e' b l' = (Inr True, l2)" using yes by (cases "TryAcquire e' b l'") simp
    obtain s2 n2 where s2: "conn (electors l2 e') = Some s2" "lock_by l2 = Some (s2, n2)" and inv2: "lock_inv l2"
      using TryAcquire_inv [OF inv assms(5,6) t] by blast
    have "owner l2 s2 = e'" using lock_invD(2) [OF inv2 s2(1)] .
    moreover have "s2 = s" "owner l2 s = owner l s" using TryAcquire_holder [OF t, of s n] l'(2) lk s2(2) by auto
    ultimately show False using lock_invD(2) [OF assms(1) s(1)] assms(4) by simp
  qed
  then show ?thesis using l' lk by (auto simp: session_ends_def)
qed

end
