(* ===== verification/Api_Types.thy ===== *)
theory Api_Types
  imports Router
begin

text \<open>
  The responses of the API against its interface description, \<open>src/docs/openapi.yaml\<close>: which status codes each route may answer with, the
  JSON text that \<open>encoding/json\<close> writes for each kind of body, by the tags of \<open>src/internal/model/model.go\<close>, and the schema it has to have.
\<close>

subsection \<open>Bodies as JSON\<close>

text \<open>
  Times are written by \<open>time.Time\<close>'s own method, a parameter. The tag \<open>omitempty\<close> leaves out a nil pointer and an empty slice or map; a
  nil map without it is written as \<open>null\<close>.
\<close>

fun run_status_string :: "run_status \<Rightarrow> string" where
  "run_status_string RunStatusPending = ''pending''"
| "run_status_string RunStatusLeased = ''leased''"
| "run_status_string RunStatusRunning = ''running''"
| "run_status_string RunStatusSucceeded = ''succeeded''"
| "run_status_string RunStatusFailed = ''failed''"
| "run_status_string RunStatusDead = ''dead''"

fun worker_status_string :: "worker_status \<Rightarrow> string" where
  "worker_status_string WorkerStatusAlive = ''alive''"
| "worker_status_string WorkerStatusDead = ''dead''"

definition omitempty :: "string \<Rightarrow> gval option \<Rightarrow> (string \<times> gval) list" where
  "omitempty key v = (case v of None \<Rightarrow> [] | Some x \<Rightarrow> [(key, x)])"

definition map_value :: "gomap \<Rightarrow> gval" where
  "map_value m = (case m of None \<Rightarrow> GNil | Some kvs \<Rightarrow> GObj kvs)"

definition GInt :: "int \<Rightarrow> gval" where
  "GInt n = GNum (of_int n)"

definition job_value :: "(time \<Rightarrow> string) \<Rightarrow> job \<Rightarrow> gval" where
  "job_value rfc3339 j = GObj ([(''id'', GStr (job_ID j)), (''name'', GStr (job_Name j)), (''payload'', map_value (job_Payload j))] @
     omitempty ''cron_expr'' (map_option GStr (job_CronExpr j)) @
     [(''priority'', GInt (sint (job_Priority j))), (''max_attempts'', GInt (sint (job_MaxAttempts j))),
      (''timeout_seconds'', GInt (sint (job_TimeoutSeconds j))), (''status'', GStr (job_status_string (job_Status j)))] @
     omitempty ''idempotency_key'' (map_option GStr (job_IdempotencyKey j)) @
     omitempty ''depends_on'' (if job_DependsOn j = [] then None else Some (GArr (map GStr (job_DependsOn j)))) @
     [(''created_at'', GStr (rfc3339 (job_CreatedAt j))), (''updated_at'', GStr (rfc3339 (job_UpdatedAt j)))])"

definition run_value :: "(time \<Rightarrow> string) \<Rightarrow> JobRun \<Rightarrow> gval" where
  "run_value rfc3339 r = GObj ([(''id'', GStr (run_ID r)), (''job_id'', GStr (run_JobID r)), (''status'', GStr (run_status_string (run_Status r))),
      (''attempt'', GInt (sint (run_Attempt r))), (''priority'', GInt (sint (run_Priority r))), (''scheduled_at'', GStr (rfc3339 (run_ScheduledAt r)))] @
     omitempty ''leased_by'' (map_option GStr (run_LeasedBy r)) @
     omitempty ''leased_at'' (map_option (GStr \<circ> rfc3339) (run_LeasedAt r)) @
     omitempty ''lease_expires_at'' (map_option (GStr \<circ> rfc3339) (run_LeaseExpiresAt r)) @
     omitempty ''started_at'' (map_option (GStr \<circ> rfc3339) (run_StartedAt r)) @
     omitempty ''finished_at'' (map_option (GStr \<circ> rfc3339) (run_FinishedAt r)) @
     omitempty ''result'' (map_option GObj (omit_empty (run_Result r))) @
     omitempty ''error'' (map_option GStr (run_Error r)) @
     [(''created_at'', GStr (rfc3339 (run_CreatedAt r)))])"

definition worker_value :: "(time \<Rightarrow> string) \<Rightarrow> worker \<Rightarrow> gval" where
  "worker_value rfc3339 x = GObj [(''id'', GStr (worker_ID x)), (''hostname'', GStr (worker_Hostname x)),
     (''status'', GStr (worker_status_string (worker_Status x))), (''last_heartbeat'', GStr (rfc3339 (worker_LastHeartbeat x))),
     (''started_at'', GStr (rfc3339 (worker_StartedAt x)))]"

fun body_value :: "(time \<Rightarrow> string) \<Rightarrow> body \<Rightarrow> gval" where
  "body_value rfc3339 (BError msg) = GObj [(''error'', GStr msg)]"
| "body_value rfc3339 (BJob j) = job_value rfc3339 j"
| "body_value rfc3339 (BJobs js) = GArr (map (job_value rfc3339) js)"
| "body_value rfc3339 (BRun r) = run_value rfc3339 r"
| "body_value rfc3339 (BRuns rs) = GArr (map (run_value rfc3339) rs)"
| "body_value rfc3339 (BWorkers ws) = GArr (map (worker_value rfc3339) ws)"
| "body_value rfc3339 (BStatus st) = GObj [(''status'', GStr st)]"
| "body_value rfc3339 BNull = GNil"

subsection \<open>Schemas\<close>

text \<open>
  A string or an object of any fields, nullable or not; one of several strings; an integer in a range, which a format or a minimum gives; an
  object with its properties and the required ones; an array. The formats \<open>uuid\<close> and \<open>date-time\<close> are not looked into. An object may have no
  property that the description does not name, which is more than the standard asks.
\<close>

datatype schema =
    Sch_string bool
  | Sch_enum "string list"
  | Sch_integer int int
  | Sch_map bool
  | Sch_object "(string \<times> schema) list" "string list"
  | Sch_array schema

function conforms :: "gval \<Rightarrow> schema \<Rightarrow> bool" where
  "conforms v (Sch_string nullable) = (case v of GStr _ \<Rightarrow> True | GNil \<Rightarrow> nullable | _ \<Rightarrow> False)"
| "conforms v (Sch_enum words) = (case v of GStr x \<Rightarrow> x \<in> set words | _ \<Rightarrow> False)"
| "conforms v (Sch_integer low high) = (case v of GNum q \<Rightarrow> of_int \<lfloor>q\<rfloor> = q \<and> low \<le> \<lfloor>q\<rfloor> \<and> \<lfloor>q\<rfloor> \<le> high | _ \<Rightarrow> False)"
| "conforms v (Sch_map nullable) = (case v of GObj _ \<Rightarrow> True | GNil \<Rightarrow> nullable | _ \<Rightarrow> False)"
| "conforms v (Sch_object props required) = (case v of
     GObj kvs \<Rightarrow> list_all (\<lambda>k. k \<in> set (map fst kvs)) required \<and>
       (\<forall>kv\<in>set kvs. case map_of props (fst kv) of None \<Rightarrow> False | Some sch \<Rightarrow> conforms (snd kv) sch)
   | _ \<Rightarrow> False)"
| "conforms v (Sch_array sch) = (case v of GArr vs \<Rightarrow> \<forall>x\<in>set vs. conforms x sch | _ \<Rightarrow> False)"
  by pat_completeness auto

lemma value_sizes:
  "x \<in> set vs \<Longrightarrow> size x < size (GArr vs)" "kv \<in> set kvs \<Longrightarrow> size (snd kv) < size (GObj kvs)"
  by (auto simp: less_Suc_eq_le size_prod_simp intro: size_list_estimation')

termination conforms
  by (relation "measure (size \<circ> fst)") (use value_sizes in force)+

definition int16_schema :: schema where
  "int16_schema = Sch_integer (- 32768) 32767"

definition Schema_Error :: schema where
  "Schema_Error = Sch_object [(''error'', Sch_string False)] []"

text \<open>\<open>Job\<close> is everything of \<open>NewJobInput\<close> and its own properties.\<close>

definition NewJobInput_properties :: "(string \<times> schema) list" where
  "NewJobInput_properties = [(''name'', Sch_string False), (''payload'', Sch_map False), (''cron_expr'', Sch_string True),
     (''priority'', int16_schema), (''max_attempts'', Sch_integer 1 32767), (''timeout_seconds'', Sch_integer 1 2147483647),
     (''idempotency_key'', Sch_string True), (''depends_on'', Sch_array (Sch_string False))]"

definition Schema_Job :: schema where
  "Schema_Job = Sch_object (NewJobInput_properties @ [(''id'', Sch_string False), (''status'', Sch_enum [''active'', ''paused'', ''archived'']),
     (''created_at'', Sch_string False), (''updated_at'', Sch_string False)]) [''name'']"

definition Schema_JobRun :: schema where
  "Schema_JobRun = Sch_object [(''id'', Sch_string False), (''job_id'', Sch_string False),
     (''status'', Sch_enum [''pending'', ''leased'', ''running'', ''succeeded'', ''failed'', ''dead'']), (''attempt'', int16_schema),
     (''priority'', int16_schema), (''scheduled_at'', Sch_string False), (''leased_by'', Sch_string True), (''leased_at'', Sch_string True),
     (''lease_expires_at'', Sch_string True), (''started_at'', Sch_string True), (''finished_at'', Sch_string True), (''result'', Sch_map True),
     (''error'', Sch_string True), (''created_at'', Sch_string False)] []"

definition Schema_Worker :: schema where
  "Schema_Worker = Sch_object [(''id'', Sch_string False), (''hostname'', Sch_string False), (''status'', Sch_enum [''alive'', ''dead'']),
     (''last_heartbeat'', Sch_string False), (''started_at'', Sch_string False)] []"

definition guarded :: "(int \<times> schema) list \<Rightarrow> (int \<times> schema) list" where
  \<comment> \<open>the responses \<open>Unauthorized\<close> and \<open>RateLimited\<close>, which every route under \<open>/v1\<close> refers to\<close>
  "guarded rs = rs @ [(401, Schema_Error), (429, Schema_Error)]"

fun openapi :: "route \<Rightarrow> (int \<times> schema) list" where
  "openapi (POST_jobs _) = guarded [(201, Schema_Job), (200, Schema_Job), (400, Schema_Error), (409, Schema_Error)]"
| "openapi (GET_jobs _ _ _) = guarded [(200, Sch_array Schema_Job), (400, Schema_Error)]"
| "openapi (GET_job _) = guarded [(200, Schema_Job), (404, Schema_Error)]"
| "openapi (POST_job_pause _) = guarded [(200, Schema_Job), (404, Schema_Error)]"
| "openapi (POST_job_resume _) = guarded [(200, Schema_Job), (404, Schema_Error)]"
| "openapi (GET_job_runs _ _) = guarded [(200, Sch_array Schema_JobRun)]"
| "openapi (GET_run _) = guarded [(200, Schema_JobRun), (404, Schema_Error)]"
| "openapi GET_workers = guarded [(200, Sch_array Schema_Worker)]"

subsection \<open>Which bodies conform\<close>

text \<open>What the description asks of a job beyond what every job has: a payload, and limits of at least one.\<close>

definition describable :: "job \<Rightarrow> bool" where
  "describable j \<longleftrightarrow> job_Payload j \<noteq> None \<and> 1 \<le> sint (job_MaxAttempts j) \<and> 1 \<le> sint (job_TimeoutSeconds j)"

lemma sint16_range: "- 32768 \<le> sint (a :: int16) \<and> sint a \<le> 32767"
  using sint_ge [of a] sint_lt [of a] by simp

lemma sint32_range: "sint (a :: int32) \<le> 2147483647"
  using sint_lt [of a] by simp

lemma conforms_string [simp]: "conforms (GStr x) (Sch_string b)" and conforms_integer [simp]: "conforms (GInt n) (Sch_integer low high) \<longleftrightarrow> low \<le> n \<and> n \<le> high"
  by (simp_all add: GInt_def)

lemma conforms_job_status [simp]: "conforms (GStr (job_status_string a)) (Sch_enum [''active'', ''paused'', ''archived''])"
  by (cases a) simp_all

lemma conforms_run_status [simp]:
  "conforms (GStr (run_status_string a)) (Sch_enum [''pending'', ''leased'', ''running'', ''succeeded'', ''failed'', ''dead''])"
  by (cases a) simp_all

lemma conforms_worker_status [simp]: "conforms (GStr (worker_status_string a)) (Sch_enum [''alive'', ''dead''])"
  by (cases a) simp_all

lemma ball_omitempty: "(\<forall>kv\<in>set (omitempty k v). P kv) \<longleftrightarrow> (\<forall>x. v = Some x \<longrightarrow> P (k, x))"
  by (auto simp: omitempty_def split: option.splits)

lemma object_conforms:
  "conforms (GObj kvs) (Sch_object props required) \<longleftrightarrow> list_all (\<lambda>k. k \<in> set (map fst kvs)) required \<and>
     (\<forall>kv\<in>set kvs. case map_of props (fst kv) of None \<Rightarrow> False | Some sch \<Rightarrow> conforms (snd kv) sch)"
  by simp

lemma job_conforms: "conforms (job_value rfc3339 j) Schema_Job \<longleftrightarrow> describable j"
proof -
  have payload: "conforms (map_value (job_Payload j)) (Sch_map False) \<longleftrightarrow> job_Payload j \<noteq> None"
    by (simp add: map_value_def split: option.splits)
  show ?thesis
    unfolding job_value_def Schema_Job_def NewJobInput_properties_def int16_schema_def describable_def object_conforms set_append ball_Un ball_omitempty
    using sint16_range [of "job_MaxAttempts j"] sint16_range [of "job_Priority j"] sint32_range [of "job_TimeoutSeconds j"]
    by (auto simp: payload simp del: conforms.simps(1-4) split: if_splits)
qed

lemma run_conforms: "conforms (run_value rfc3339 r) Schema_JobRun"
  unfolding run_value_def Schema_JobRun_def int16_schema_def object_conforms set_append ball_Un ball_omitempty
  using sint16_range [of "run_Attempt r"] sint16_range [of "run_Priority r"]
  by (auto simp del: conforms.simps(1-3))

lemma worker_conforms: "conforms (worker_value rfc3339 x) Schema_Worker"
  by (simp add: worker_value_def Schema_Worker_def object_conforms del: conforms.simps)

lemma error_conforms: "conforms (body_value rfc3339 (BError msg)) Schema_Error"
  by (simp add: Schema_Error_def)

text \<open>The jobs in a body.\<close>

fun body_jobs :: "body \<Rightarrow> job set" where
  "body_jobs (BJob j) = {j}"
| "body_jobs (BJobs js) = set js"
| "body_jobs _ = {}"

text \<open>
  A response that the description covers, as far as the jobs in it can be described at all; and those that the handlers give beside it.
\<close>

definition typed_body :: "(time \<Rightarrow> string) \<Rightarrow> body \<Rightarrow> schema \<Rightarrow> bool" where
  "typed_body rfc3339 b sch \<longleftrightarrow> (conforms (body_value rfc3339 b) sch \<longleftrightarrow> (\<forall>j\<in>body_jobs b. describable j))"

definition documented :: "(time \<Rightarrow> string) \<Rightarrow> route \<Rightarrow> response \<Rightarrow> bool" where
  "documented rfc3339 rt resp \<longleftrightarrow> (\<exists>sch. map_of (openapi rt) (fst resp) = Some sch \<and> typed_body rfc3339 (snd resp) sch)"

fun undocumented :: "route \<Rightarrow> response \<Rightarrow> bool" where
  "undocumented (GET_job_runs _ _) resp \<longleftrightarrow> resp \<in> {serverError, (200, BNull), writeError 400 ''invalid limit''}"
| "undocumented (GET_jobs _ _ _) resp \<longleftrightarrow> resp \<in> {serverError, (200, BNull)}"
| "undocumented GET_workers resp \<longleftrightarrow> resp \<in> {serverError, (200, BNull)}"
| "undocumented _ resp \<longleftrightarrow> resp = serverError"

lemma typed_bodies [simp]:
  "typed_body rfc3339 (BError msg) Schema_Error" "typed_body rfc3339 (BJob j) Schema_Job" "typed_body rfc3339 (BRun r) Schema_JobRun"
  "typed_body rfc3339 (BJobs js) (Sch_array Schema_Job)" "typed_body rfc3339 (BRuns rs) (Sch_array Schema_JobRun)"
  "typed_body rfc3339 (BWorkers ws) (Sch_array Schema_Worker)"
  using error_conforms by (simp_all add: typed_body_def job_conforms run_conforms worker_conforms)

lemmas typed_simps = documented_def guarded_def writeJSON_def writeError_def serverError_def

lemma create_typed:
  "documented rfc3339 (POST_jobs d) (fst (run_state (createJob st cron d) s)) \<or> fst (run_state (createJob st cron d) s) = serverError"
proof (cases "validate_job cron d")
  case (Inl resp)
  then have "\<exists>msg. resp = writeError 400 msg" by (auto simp: validate_job_def Let_def split: sum.splits if_splits option.splits)
  then show ?thesis using Inl by (auto simp: createJob_def typed_simps)
next
  case (Inr i)
  then show ?thesis
    by (auto simp: createJob_def Let_def typed_simps split: option.splits sum.splits prod.splits if_splits)
qed

lemma limit_error: "parseLimit raw = Inl resp \<Longrightarrow> resp = writeError 400 ''invalid limit''"
  "parseOffset raw = Inl resp \<Longrightarrow> resp = writeError 400 ''invalid offset''"
  by (auto simp: parseLimit_def parseOffset_def split: option.splits if_splits)

lemma dispatch_typed:
  "documented rfc3339 rt (fst (run_state (dispatch st cron rt) s)) \<or> undocumented rt (fst (run_state (dispatch st cron rt) s))"
proof (cases rt)
  case (POST_jobs d)
  then show ?thesis using create_typed [of rfc3339 d st cron s] by auto
next
  case (GET_jobs status limit offset)
  then show ?thesis
    by (auto simp: listJobs_def typed_simps split: option.splits sum.splits prod.splits if_splits dest!: limit_error)
next
  case (GET_job_runs i limit)
  then show ?thesis
    by (auto simp: listJobRuns_def typed_simps split: option.splits sum.splits prod.splits if_splits dest!: limit_error)
next
  case (POST_job_pause i)
  then show ?thesis by (auto simp: pauseJob_def updateJobStatus_def typed_simps split: sum.splits prod.splits if_splits)
next
  case (POST_job_resume i)
  then show ?thesis by (auto simp: resumeJob_def updateJobStatus_def typed_simps split: sum.splits prod.splits if_splits)
qed (auto simp: getJob_def getRun_def listWorkers_def typed_simps split: sum.splits prod.splits if_splits)

lemma turned_away_typed: "documented rfc3339 rt (writeError 401 msg)" "documented rfc3339 rt (writeError 429 msg)"
  by (cases rt; force simp: typed_simps)+

subsection \<open>Properties\<close>

text \<open>
  C38. Every response of a route under \<open>/v1\<close> is well typed, for every store, cron library, token library, request and limiter
  state: its status is one that the interface description lists for the route, and the JSON text of its body conforms to the schema given there, field by
  field, exactly if every job in it has a payload and limits of at least one: a job that was created without a payload is written with the
  payload \<open>null\<close>, which the schema does not allow. The only other exceptions, which the description does not have, are 500 with the generic
  error, \<open>null\<close> in place of an empty array, and 400 for the limit of the list of a job's runs.
\<close>

theorem responses_typed:
  "let resp = fst (run_state (serve_v1 st cron jwt secret now now2 r) (rl, s)) in
    (\<exists>sch. map_of (openapi (Route r)) (fst resp) = Some sch \<and>
      (conforms (body_value rfc3339 (snd resp)) sch \<longleftrightarrow>
        (\<forall>j\<in>body_jobs (snd resp). job_Payload j \<noteq> None \<and> 1 \<le> sint (job_MaxAttempts j) \<and> 1 \<le> sint (job_TimeoutSeconds j)))) \<or>
    undocumented (Route r) resp"
proof -
  let ?resp = "fst (run_state (serve_v1 st cron jwt secret now now2 r) (rl, s))"
  have "documented rfc3339 (Route r) ?resp \<or> undocumented (Route r) ?resp"
  proof (cases "fst (allow (clientIP (RemoteAddr r)) now rl)")
    case False
    then obtain rl' where "allow (clientIP (RemoteAddr r)) now rl = (False, rl')" by (metis prod.collapse)
    then show ?thesis using turned_away_typed(2) by (simp add: serve_v1_def rate_middleware_def)
  next
    case True
    then have "?resp = fst (run_state (jwtAuth jwt secret now2 (Authorization r) (dispatch st cron (Route r))) s)"
      by (auto simp: serve_v1_def rate_middleware_def split: prod.splits)
    then show ?thesis
      using jwtAuth_cases [of jwt secret now2 "Authorization r" "dispatch st cron (Route r)"] dispatch_typed [of rfc3339 "Route r" st cron s]
        turned_away_typed(1)
      by auto
  qed
  then show ?thesis by (simp add: Let_def documented_def typed_body_def describable_def)
qed

definition demo_read :: request where
  "demo_read = \<lparr>RemoteAddr = ''10.0.0.1:4711'', Authorization = ''Bearer '' @ demo_sign 5 ''secret'', Route = GET_job (demo_uuid 0)\<rparr>"

theorem responses_typed_witness: "conforms (body_value (\<lambda>_. ''t'') (BJob (job_view demo_db demo_job))) Schema_Job"
proof -
  let ?resp = "fst (run_state (serve_v1 pg_store (\<lambda>_. Inl ErrJSON) demo_jwt ''secret'' 0 0 demo_read) (newRateLimiter 20 40, demo_world demo_db 2))"
  have tok: "jwt_Parse demo_jwt 0 (demo_sign 5 ''secret'') (keyfunc ''secret'') [''HS256''] = Inr True"
    by (simp add: demo_jwt_def keyfunc_def)
  have some: "demo_sign 5 ''secret'' \<noteq> []" "job_ID demo_job = demo_uuid 0" by (simp_all add: demo_sign_def demo_job_def new_job_row_def)
  have "fst (allow (clientIP (RemoteAddr demo_read)) 0 (newRateLimiter 20 40))"
    using float64_round_int [of 40] by (simp add: allow_def newRateLimiter_def Let_def)
  then have resp: "?resp = (200, BJob (job_view demo_db demo_job))"
    using GetJob_good [OF good_demo, of "demo_uuid 0"] tok some
    by (auto simp: serve_v1_def rate_middleware_def jwtAuth_def demo_read_def demo_sign_trim getJob_def writeJSON_def demo_db_def split: prod.splits)
  have "job_Payload (job_view demo_db demo_job) \<noteq> None" "1 \<le> sint (job_MaxAttempts (job_view demo_db demo_job))"
    "1 \<le> sint (job_TimeoutSeconds (job_view demo_db demo_job))"
    by (simp_all add: demo_job_def demo_input_def new_job_row_def job_view_def job_of_row_def decode_def json_Unmarshal_def)
  moreover have "Route demo_read = GET_job (demo_uuid 0)" by (simp add: demo_read_def)
  ultimately show ?thesis
    using responses_typed [of pg_store "\<lambda>_. Inl ErrJSON" demo_jwt "''secret''" 0 0 demo_read "newRateLimiter 20 40" "demo_world demo_db 2" "\<lambda>_. ''t''"]
    unfolding Let_def resp by (simp add: guarded_def serverError_def writeError_def writeJSON_def)
qed

text \<open>
  The exceptions occur: on an empty database, on a lost connection, with a limit that is not a number, and for the job created by a request
  without a payload, which the documentation allows.
\<close>

theorem undocumented_responses_occur:
  "fst (run_state (dispatch pg_store cron (GET_jobs [] [] [])) (demo_world empty_db 0)) = (200, BNull) \<and>
   fst (run_state (dispatch pg_store cron GET_workers) ((demo_world empty_db 0)\<lparr>script := [(Lost_request, 0)]\<rparr>)) = serverError \<and>
   fst (run_state (dispatch st cron (GET_job_runs i ''x'')) s) = writeError 400 ''invalid limit'' \<and>
   \<not> conforms GNil (Sch_array Schema_Job) \<and> map_of (openapi GET_workers) 500 = None \<and>
   map_of (openapi (GET_job_runs i ''x'')) 400 = None"
proof (intro conjI)
  show "fst (run_state (dispatch pg_store cron (GET_jobs [] [] [])) (demo_world empty_db 0)) = (200, BNull)"
    using ListJobs_good [OF good_demo_empty, of 50 0 None]
    by (simp add: listJobs_def parseLimit_def parseOffset_def parse_status_def defaultListLimit_def maxListLimit_def writeJSON_def
        select_jobs_def empty_db_def)
  show "fst (run_state (dispatch pg_store cron GET_workers) ((demo_world empty_db 0)\<lparr>script := [(Lost_request, 0)]\<rparr>)) = serverError"
    by (simp add: listWorkers_def ListWorkers_def driver_call_def deliver_def on_readPool_def readPool_def)
  show "fst (run_state (dispatch st cron (GET_job_runs i ''x'')) s) = writeError 400 ''invalid limit''"
    by (simp add: listJobRuns_def parseLimit_def Atoi_def digit_def)
qed (simp_all add: guarded_def)

text \<open>A job created without a payload is answered with a body that its schema does not allow, by the creation and by every later read.\<close>

theorem job_without_payload_undocumented:
  assumes "tx_closed w" and "in_Payload i = None" and "in_IdempotencyKey i = None"
    and "run_state (createJob pg_store cron (Inr i)) w = ((201, BJob job), w1)"
  shows "\<not> conforms (body_value rfc3339 (BJob job)) Schema_Job"
proof -
  obtain i' where i': "validate_job cron (Inr i) = Inr i'"
    using assms(4) by (auto simp: createJob_def validate_job_def writeError_def writeJSON_def Let_def split: if_splits sum.splits)
  then have input: "in_Payload i' = None" "in_IdempotencyKey i' = None"
    using assms(2,3) by (auto simp: validate_job_def Let_def split: if_splits)
  then have "run_state (CreateJob i') w = (Inr job, w1)"
    using assms(4) i' by (auto simp: createJob_def writeError_def writeJSON_def serverError_def Let_def split: sum.splits if_splits prod.splits)
  then obtain row where "job = job_of_row row (in_Payload i') (in_DependsOn i')" using CreateJob_Inr [OF assms(1)] by metis
  then have "job_Payload job = None" using input by (simp add: job_of_row_def)
  then show ?thesis by (simp add: job_conforms describable_def)
qed

end
