(* ===== verification/Query_Tracing.thy ===== *)
theory Query_Tracing
  imports Store_Api
begin

text \<open>
  \<open>src/internal/store/tracing.go\<close>: the tracer that the driver calls around every query. What it does is the sequence of calls it makes to
  the OpenTelemetry library, kept here as a log; a span is known by its number. The driver documents that the context which
  \<open>TraceQueryStart\<close> returns is the one it passes to \<open>TraceQueryEnd\<close> when the query is over.
\<close>

datatype otel_call =
    Start nat string "(string \<times> string) list"
  | RecordError nat err
  | SetStatus nat string
  | End nat

text \<open>A context, by what it carries under \<open>traceCtxKey\<close>: a span, or nothing.\<close>

record trace_context =
  ctx_span :: "nat option"

type_synonym 's traced_state = "'s \<times> otel_call list"

fun started :: "otel_call list \<Rightarrow> nat" where
  "started [] = 0"
| "started (Start _ _ _ # calls) = Suc (started calls)"
| "started (_ # calls) = started calls"

definition otel :: "otel_call \<Rightarrow> ('s traced_state, unit) state" where
  "otel c = State (\<lambda>(s, calls). ((), (s, calls @ [c])))"

definition TraceQueryStart :: "trace_context \<Rightarrow> string \<Rightarrow> ('s traced_state, trace_context) state" where
  "TraceQueryStart ctx sql = do {
     (s, calls) \<leftarrow> State_Monad.get;
     _ \<leftarrow> otel (Start (started calls) ''pg.query'' [(''db.system'', ''postgresql''), (''db.statement'', sql)]);
     ret (ctx\<lparr>ctx_span := Some (started calls)\<rparr>) }"

definition TraceQueryEnd :: "trace_context \<Rightarrow> err option \<Rightarrow> ('s traced_state, unit) state" where
  "TraceQueryEnd ctx err = (case ctx_span ctx of
     None \<Rightarrow> ret ()
   | Some sp \<Rightarrow> do {
       _ \<leftarrow> (case err of None \<Rightarrow> ret () | Some e \<Rightarrow> do { _ \<leftarrow> otel (RecordError sp e); otel (SetStatus sp (Error e)) });
       otel (End sp) })"

text \<open>A query of the pool with the tracer around it.\<close>

definition traced_query :: "trace_context \<Rightarrow> string \<Rightarrow> ('s, err + 'a) state \<Rightarrow> ('s traced_state, err + 'a) state" where
  "traced_query ctx sql m = do {
     ctx' \<leftarrow> TraceQueryStart ctx sql;
     r \<leftarrow> State (\<lambda>(s, calls). case run_state m s of (x, s') \<Rightarrow> (x, (s', calls)));
     _ \<leftarrow> TraceQueryEnd ctx' (case r of Inl e \<Rightarrow> Some e | Inr _ \<Rightarrow> None);
     ret r }"

text \<open>The calls that one query makes.\<close>

definition query_calls :: "nat \<Rightarrow> string \<Rightarrow> (err + 'a) \<Rightarrow> otel_call list" where
  "query_calls n sql r = Start n ''pg.query'' [(''db.system'', ''postgresql''), (''db.statement'', sql)] #
     (case r of Inl e \<Rightarrow> [RecordError n e, SetStatus n (Error e)] | Inr _ \<Rightarrow> []) @ [End n]"

lemma run_traced_query:
  "run_state (traced_query ctx sql m) (s, calls) =
     (fst (run_state m s), (snd (run_state m s), calls @ query_calls (started calls) sql (fst (run_state m s))))"
  by (auto simp: traced_query_def TraceQueryStart_def TraceQueryEnd_def otel_def query_calls_def split: prod.splits sum.splits)

lemma started_append: "started (xs @ ys) = started xs + started ys"
  by (induction xs rule: started.induct) simp_all

lemma started_query: "started (query_calls n sql r) = 1"
  by (simp add: query_calls_def started_append split: sum.splits)

text \<open>Numbers of the spans started and of those ended, in order, and the spans that were given an error.\<close>

definition starts :: "otel_call list \<Rightarrow> nat list" where
  "starts calls = concat (map (\<lambda>c. case c of Start n _ _ \<Rightarrow> [n] | _ \<Rightarrow> []) calls)"

definition ends :: "otel_call list \<Rightarrow> nat list" where
  "ends calls = concat (map (\<lambda>c. case c of End n \<Rightarrow> [n] | _ \<Rightarrow> []) calls)"

definition marked :: "otel_call list \<Rightarrow> nat list" where
  "marked calls = concat (map (\<lambda>c. case c of SetStatus n _ \<Rightarrow> [n] | _ \<Rightarrow> []) calls)"

lemma trace_of_query:
  "starts (query_calls n sql r) = [n]" "ends (query_calls n sql r) = [n]"
  "marked (query_calls n sql r) = (case r of Inl _ \<Rightarrow> [n] | Inr _ \<Rightarrow> [])"
  by (cases r; simp add: starts_def ends_def marked_def query_calls_def)+

lemma trace_concat:
  "starts (concat xss) = concat (map starts xss)" "ends (concat xss) = concat (map ends xss)" "marked (concat xss) = concat (map marked xss)"
  by (induction xss) (simp_all add: starts_def ends_def marked_def)

text \<open>
  Every query has its span. Run any queries one after the other, under any contexts: the results and the store are those of the
  untraced queries; one span is started per query and ended once, in order; and it is marked as an error exactly
  when its query failed.
\<close>

theorem queries_traced:
  assumes "run_state (for_each (\<lambda>(ctx, sql, m). traced_query ctx sql m) queries) (s, []) = (results, (s', calls))"
  shows "run_state (for_each (\<lambda>(ctx, sql, m). m) queries) s = (results, s') \<and>
    starts calls = [0..<length queries] \<and> ends calls = [0..<length queries] \<and>
    marked calls = filter (\<lambda>n. \<exists>e. results ! n = Inl e) [0..<length queries]"
proof -
  let ?block = "\<lambda>n q r. query_calls n (fst (snd q)) r"
  have "run_state (for_each (\<lambda>(ctx, sql, m). m) queries) s = (results, s') \<and> length results = length queries \<and>
      calls' = calls0 @ concat (map (\<lambda>i. ?block (started calls0 + i) (queries ! i) (results ! i)) [0..<length queries])"
    if "run_state (for_each (\<lambda>(ctx, sql, m). traced_query ctx sql m) queries) (s, calls0) = (results, (s', calls'))" for calls0 calls'
    using that
  proof (induction queries arbitrary: s calls0 results)
    case (Cons q queries)
    obtain ctx sql m where q: "q = (ctx, sql, m)" by (cases q)
    obtain r s1 where m: "run_state m s = (r, s1)" by (cases "run_state m s")
    obtain rs where rest: "run_state (for_each (\<lambda>(ctx, sql, m). traced_query ctx sql m) queries) (s1, calls0 @ query_calls (started calls0) sql r) = (rs, (s', calls'))"
      and results: "results = r # rs"
      using Cons.prems by (auto simp: q run_traced_query m split: prod.splits)
    note IH = Cons.IH [OF rest]
    have shift: "map (\<lambda>i. ?block (started calls0 + i) ((q # queries) ! i) (results ! i)) [1..<Suc (length queries)] =
        map (\<lambda>i. ?block (started (calls0 @ query_calls (started calls0) sql r) + i) (queries ! i) (rs ! i)) [0..<length queries]"
      by (simp add: started_append started_query results map_Suc_upt [symmetric, of 0] del: upt_Suc)
    show ?case using IH shift by (simp add: q m results upt_conv_Cons del: upt_Suc)
  qed simp
  from this [OF assms]
  have res: "run_state (for_each (\<lambda>(ctx, sql, m). m) queries) s = (results, s')"
    and calls: "calls = concat (map (\<lambda>i. ?block i (queries ! i) (results ! i)) [0..<length queries])" by simp_all
  have "concat (map (\<lambda>i. case results ! i of Inl _ \<Rightarrow> [i] | Inr _ \<Rightarrow> []) ns) = filter (\<lambda>n. \<exists>e. results ! n = Inl e) ns" for ns
    by (induction ns) (auto split: sum.splits)
  moreover have "concat (map (\<lambda>i. [i]) ns) = ns" for ns :: "nat list" by (induction ns) simp_all
  ultimately show ?thesis using res by (simp add: calls trace_concat trace_of_query o_def)
qed

end
