(* ===== verification/Singleflight.thy ===== *)
theory Singleflight
  imports Cache_Props
begin

text \<open>
  Concurrent reads through the cache, in several API processes that share one Redis. \<open>GetJob\<close> and \<open>GetRun\<close> of \<open>src/internal/cache/cache.go\<close> have the same
  shape; an \<open>entity\<close> says what they differ in. A read is taken apart where other calls can run in between: the lookup up to
  \<open>group.Do\<close>, the fetch inside it, the store into Redis, and the return to the caller and to everyone who called \<open>Do\<close> with the same key in
  the same process meanwhile. That they share one execution is what \<open>golang.org/x/sync/singleflight\<close> documents. Callers and processes
  are known by numbers.
\<close>

subsection \<open>Reads in steps\<close>

text \<open>The key of an identifier, the entries in Redis, the underlying read, what of it is stored (if anything), how, and for how long.\<close>

record ('s, 'v) entity =
  key_of :: "string \<Rightarrow> string"
  entries :: "'s cached \<Rightarrow> string \<Rightarrow> ((err + 'v) \<times> time) option"
  fetch :: "string \<Rightarrow> ('s, err + 'v) state"
  saved :: "'v \<Rightarrow> 'v option"
  set_entry :: "string \<Rightarrow> (err + 'v) \<times> time \<Rightarrow> 's cached \<Rightarrow> 's cached"
  ttl :: int

definition job_entity :: "'s store_api \<Rightarrow> ('s, job) entity" where
  "job_entity st = \<lparr>key_of = (\<lambda>i. jobKeyPrefix @ i), entries = redis_jobs, fetch = api_GetJob st,
     saved = (\<lambda>job. case Marshal_job job of Inl _ \<Rightarrow> None | Inr raw \<Rightarrow> Some raw),
     set_entry = (\<lambda>key e c. c\<lparr>redis_jobs := (redis_jobs c)(key \<mapsto> e)\<rparr>), ttl = jobTTL\<rparr>"

definition run_entity :: "'s store_api \<Rightarrow> ('s, JobRun) entity" where
  "run_entity st = \<lparr>key_of = (\<lambda>i. runKeyPrefix @ i), entries = redis_runs, fetch = api_GetRun st,
     saved = (\<lambda>run. if run_Status run = RunStatusSucceeded \<or> run_Status run = RunStatusDead
       then (case Marshal_run run of Inl _ \<Rightarrow> None | Inr raw \<Rightarrow> Some raw) else None),
     set_entry = (\<lambda>key e c. c\<lparr>redis_runs := (redis_runs c)(key \<mapsto> e)\<rparr>), ttl = runTTL\<rparr>"

text \<open>
  A call of \<open>group.Do\<close> under way: who waits for it, what was fetched, whether it was stored. The time of the fetch is not kept by the program; it is
  here to speak of it, as is the time of an answer, which is logged with the caller and the identifier.
\<close>

record 'v flight =
  waiters :: "nat list"
  fetched :: "(err + 'v) option"
  fetched_at :: time
  stored :: bool

record ('s, 'v) group_state =
  cache :: "'s cached"
  flights :: "nat \<times> string \<Rightarrow> 'v flight option"
  answers :: "(nat \<times> string \<times> (err + 'v) \<times> time) list"

definition group_call :: "('s, 'v) entity \<Rightarrow> nat \<Rightarrow> string \<Rightarrow> nat \<Rightarrow> ('s, 'v) group_state \<Rightarrow> ('s, 'v) group_state" where
  "group_call E p i caller g = (let key = key_of E i in
     case run_state (redis_exec (\<lambda>c. (live (redis_clock c) (entries E c key), c))) (cache g) of (hit, c) \<Rightarrow>
       (case hit of
          Some (Some (Inr v)) \<Rightarrow> g\<lparr>cache := c, answers := answers g @ [(caller, i, Inr v, redis_clock c)]\<rparr>
        | _ \<Rightarrow> g\<lparr>cache := c, flights := (flights g)((p, key) \<mapsto> (case flights g (p, key) of
              None \<Rightarrow> \<lparr>waiters = [caller], fetched = None, fetched_at = 0, stored = False\<rparr>
            | Some f \<Rightarrow> f\<lparr>waiters := waiters f @ [caller]\<rparr>))\<rparr>))"

definition group_fetch :: "('s, 'v) entity \<Rightarrow> nat \<Rightarrow> string \<Rightarrow> ('s, 'v) group_state \<Rightarrow> ('s, 'v) group_state" where
  "group_fetch E p i g = (let key = key_of E i in case flights g (p, key) of
     None \<Rightarrow> g
   | Some f \<Rightarrow> if fetched f \<noteq> None then g
       else (case run_state (on_underlying (fetch E i)) (cache g) of
         (r, c) \<Rightarrow> g\<lparr>cache := c, flights := (flights g)((p, key) \<mapsto> f\<lparr>fetched := Some r, fetched_at := redis_clock c\<rparr>)\<rparr>))"

definition group_save :: "('s, 'v) entity \<Rightarrow> nat \<Rightarrow> string \<Rightarrow> ('s, 'v) group_state \<Rightarrow> ('s, 'v) group_state" where
  "group_save E p i g = (let key = key_of E i in case flights g (p, key) of
     None \<Rightarrow> g
   | Some f \<Rightarrow> if fetched f = None \<or> stored f then g
       else g\<lparr>cache := (case fetched f of
             Some (Inr v) \<Rightarrow> (case saved E v of
                 None \<Rightarrow> cache g
               | Some raw \<Rightarrow> snd (run_state (redis_exec (\<lambda>c. ((), set_entry E key (Inr raw, redis_clock c + ttl E) c))) (cache g)))
           | _ \<Rightarrow> cache g),
         flights := (flights g)((p, key) \<mapsto> f\<lparr>stored := True\<rparr>)\<rparr>)"

definition group_return :: "('s, 'v) entity \<Rightarrow> nat \<Rightarrow> string \<Rightarrow> ('s, 'v) group_state \<Rightarrow> ('s, 'v) group_state" where
  "group_return E p i g = (let key = key_of E i in case flights g (p, key) of
     None \<Rightarrow> g
   | Some f \<Rightarrow> (case fetched f of
       None \<Rightarrow> g
     | Some r \<Rightarrow> if \<not> stored f then g
         else g\<lparr>flights := (flights g)((p, key) := None),
           answers := answers g @ map (\<lambda>n. (n, i, r, redis_clock (cache g))) (waiters f)\<rparr>))"

definition group_finish :: "('s, 'v) entity \<Rightarrow> nat \<Rightarrow> string \<Rightarrow> ('s, 'v) group_state \<Rightarrow> ('s, 'v) group_state" where
  "group_finish E p i g = group_return E p i (group_save E p i g)"

lemmas group_defs = group_call_def group_fetch_def group_save_def group_return_def group_finish_def Let_def

subsection \<open>A caller on its own\<close>

text \<open>The parts one after the other are \<open>cache_aside\<close>, under every fault.\<close>

lemma lone_call:
  assumes "flights g (p, key_of E i) = None"
    and g': "g' = group_finish E p i (group_fetch E p i (group_call E p i n g))"
    and read: "read = cache_aside (\<lambda>c. live (redis_clock c) (entries E c (key_of E i))) (fetch E i)
      (\<lambda>v. map_option (\<lambda>raw c. set_entry E (key_of E i) (Inr raw, redis_clock c + ttl E) c) (saved E v))"
  shows "(\<exists>t. answers g' = answers g @ [(n, i, fst (run_state read (cache g)), t)]) \<and>
    cache g' = snd (run_state read (cache g)) \<and> flights g' = flights g"
proof -
  let ?key = "key_of E i"
  obtain hit c where h: "run_state (redis_exec (\<lambda>c. (live (redis_clock c) (entries E c ?key), c))) (cache g) = (hit, c)" by fastforce
  show ?thesis
  proof (cases "\<exists>v. hit = Some (Some (Inr v))")
    case True
    then show ?thesis using assms(1) h by (auto simp: g' group_defs read cache_aside_def)
  next
    case False
    obtain r c1 where f: "run_state (on_underlying (fetch E i)) c = (r, c1)" by fastforce
    have called: "group_call E p i n g = g\<lparr>cache := c, flights := (flights g)((p, ?key) \<mapsto>
        \<lparr>waiters = [n], fetched = None, fetched_at = 0, stored = False\<rparr>)\<rparr>"
      using False h assms(1) by (auto simp: group_call_def Let_def split: option.splits sum.splits)
    have get: "run_state read (cache g) = run_state (case r of Inl e \<Rightarrow> fail e
         | Inr v \<Rightarrow> (case map_option (\<lambda>raw c. set_entry E ?key (Inr raw, redis_clock c + ttl E) c) (saved E v) of
             None \<Rightarrow> ok v
           | Some store_it \<Rightarrow> do { _ \<leftarrow> redis_exec (\<lambda>c. ((), store_it c)); ok v })) c1"
      using False h f by (auto simp: read cache_aside_def split: option.splits sum.splits)
    have fl: "(flights g)((p, ?key) := None) = flights g" using assms(1) by (simp add: fun_upd_idem)
    show ?thesis unfolding g' called get
      by (cases r) (auto simp: group_fetch_def group_save_def group_return_def group_finish_def Let_def f fl split: option.splits prod.splits)
  qed
qed

text \<open>So a caller on its own gets what \<open>cached_GetJob\<close> and \<open>cached_GetRun\<close> return, and leaves what they leave.\<close>

theorem lone_call_is_cached_read:
  "(flights g (p, jobKeyPrefix @ i) = None \<longrightarrow>
     (\<exists>t. answers (group_finish (job_entity st) p i (group_fetch (job_entity st) p i (group_call (job_entity st) p i n g))) =
        answers g @ [(n, i, fst (run_state (cached_GetJob st i) (cache g)), t)]) \<and>
     cache (group_finish (job_entity st) p i (group_fetch (job_entity st) p i (group_call (job_entity st) p i n g))) =
        snd (run_state (cached_GetJob st i) (cache g))) \<and>
   (flights h (p, runKeyPrefix @ i) = None \<longrightarrow>
     (\<exists>t. answers (group_finish (run_entity st) p i (group_fetch (run_entity st) p i (group_call (run_entity st) p i n h))) =
        answers h @ [(n, i, fst (run_state (cached_GetRun st i) (cache h)), t)]) \<and>
     cache (group_finish (run_entity st) p i (group_fetch (run_entity st) p i (group_call (run_entity st) p i n h))) =
        snd (run_state (cached_GetRun st i) (cache h)))"
proof (intro conjI impI)
  have job: "cached_GetJob st i = cache_aside (\<lambda>c. live (redis_clock c) (entries (job_entity st) c (key_of (job_entity st) i))) (fetch (job_entity st) i)
      (\<lambda>v. map_option (\<lambda>raw c. set_entry (job_entity st) (key_of (job_entity st) i) (Inr raw, redis_clock c + ttl (job_entity st)) c) (saved (job_entity st) v))"
    unfolding cached_GetJob_def Let_def job_entity_def entity.simps
    by (intro arg_cong [where f = "cache_aside _ _"] ext) (simp split: sum.splits)
  have run: "cached_GetRun st i = cache_aside (\<lambda>c. live (redis_clock c) (entries (run_entity st) c (key_of (run_entity st) i))) (fetch (run_entity st) i)
      (\<lambda>v. map_option (\<lambda>raw c. set_entry (run_entity st) (key_of (run_entity st) i) (Inr raw, redis_clock c + ttl (run_entity st)) c) (saved (run_entity st) v))"
    unfolding cached_GetRun_def Let_def run_entity_def entity.simps
    by (intro arg_cong [where f = "cache_aside _ _"] ext) (simp split: sum.splits)
  show "\<exists>t. answers (group_finish (job_entity st) p i (group_fetch (job_entity st) p i (group_call (job_entity st) p i n g))) =
      answers g @ [(n, i, fst (run_state (cached_GetJob st i) (cache g)), t)]"
    and "cache (group_finish (job_entity st) p i (group_fetch (job_entity st) p i (group_call (job_entity st) p i n g))) =
      snd (run_state (cached_GetJob st i) (cache g))" if "flights g (p, jobKeyPrefix @ i) = None"
    using lone_call [OF _ refl job, of g p n] that by (simp_all add: job_entity_def)
  show "\<exists>t. answers (group_finish (run_entity st) p i (group_fetch (run_entity st) p i (group_call (run_entity st) p i n h))) =
      answers h @ [(n, i, fst (run_state (cached_GetRun st i) (cache h)), t)]"
    and "cache (group_finish (run_entity st) p i (group_fetch (run_entity st) p i (group_call (run_entity st) p i n h))) =
      snd (run_state (cached_GetRun st i) (cache h))" if "flights h (p, runKeyPrefix @ i) = None"
    using lone_call [OF _ refl run, of h p n] that by (simp_all add: run_entity_def)
qed

subsection \<open>Bounded staleness\<close>

text \<open>
  What can happen: the steps of a read in any process, for any identifier and caller; the end of a process; and everything else, which may do
  to the underlying store and to Redis what it likes but store entries of this kind: other services, lost commands, deletions and
  evictions, time passing.
\<close>

definition no_new_entries :: "('s, 'v) entity \<Rightarrow> 's cached \<Rightarrow> 's cached \<Rightarrow> bool" where
  "no_new_entries E c c' \<longleftrightarrow> redis_clock c \<le> redis_clock c' \<and> (\<forall>k. entries E c' k = entries E c k \<or> entries E c' k = None)"

inductive group_step :: "('s, 'v) entity \<Rightarrow> ('s, 'v) group_state \<Rightarrow> ('s, 'v) group_state \<Rightarrow> bool" for E where
  call: "group_step E g (group_call E p i n g)"
| fetch: "group_step E g (group_fetch E p i g)"
| save: "group_step E g (group_save E p i g)"
| return: "group_step E g (group_return E p i g)"
| crash: "group_step E g (g\<lparr>flights := (\<lambda>(q, k). if q = p then None else flights g (q, k))\<rparr>)"
| elsewhere: "no_new_entries E (cache g) c \<Longrightarrow> group_step E g (g\<lparr>cache := c\<rparr>)"

text \<open>A history of states, the first with an empty cache and no reads under way.\<close>

inductive group_trace :: "('s, 'v) entity \<Rightarrow> ('s, 'v) group_state list \<Rightarrow> bool" for E where
  start: "entries E (cache g) = (\<lambda>_. None) \<Longrightarrow> flights g = (\<lambda>_. None) \<Longrightarrow> answers g = [] \<Longrightarrow> group_trace E [g]"
| step: "group_trace E (gs @ [g]) \<Longrightarrow> group_step E g g' \<Longrightarrow> group_trace E (gs @ [g, g'])"

text \<open>No fetch stays under way longer than \<open>d\<close>.\<close>

definition fetches_within :: "time \<Rightarrow> ('s, 'v) group_state list \<Rightarrow> bool" where
  "fetches_within d gs \<longleftrightarrow> (\<forall>g\<in>set gs. \<forall>k f. flights g k = Some f \<longrightarrow> fetched f \<noteq> None \<longrightarrow> redis_clock (cache g) \<le> fetched_at f + d)"

text \<open>The store returned \<open>r\<close> for \<open>i\<close> in a state of the history, when Redis' clock showed \<open>t\<close>.\<close>

definition was_read :: "('s, 'v) entity \<Rightarrow> ('s, 'v) group_state list \<Rightarrow> string \<Rightarrow> err + 'v \<Rightarrow> time \<Rightarrow> bool" where
  "was_read E gs i r t \<longleftrightarrow> (\<exists>g\<in>set gs. redis_clock (cache g) = t \<and> fst (run_state (fetch E i) (underlying (cache g))) = r)"

lemma was_read_mono: "was_read E gs i r t \<Longrightarrow> set gs \<subseteq> set gs' \<Longrightarrow> was_read E gs' i r t"
  unfolding was_read_def by blast

text \<open>Where entries, reads under way and answers come from.\<close>

definition entries_known :: "('s, 'v) entity \<Rightarrow> time \<Rightarrow> ('s, 'v) group_state list \<Rightarrow> ('s, 'v) group_state \<Rightarrow> bool" where
  "entries_known E d gs g \<longleftrightarrow> (\<forall>i v e. entries E (cache g) (key_of E i) = Some (v, e) \<longrightarrow>
     (\<exists>x raw t. was_read E gs i (Inr x) t \<and> saved E x = Some raw \<and> v = Inr raw \<and> t \<le> redis_clock (cache g) \<and> e \<le> t + d + ttl E))"

definition flights_known :: "('s, 'v) entity \<Rightarrow> ('s, 'v) group_state list \<Rightarrow> ('s, 'v) group_state \<Rightarrow> bool" where
  "flights_known E gs g \<longleftrightarrow> (\<forall>p i f r. flights g (p, key_of E i) = Some f \<longrightarrow> fetched f = Some r \<longrightarrow>
     was_read E gs i r (fetched_at f) \<and> fetched_at f \<le> redis_clock (cache g))"

definition answer_known :: "('s, 'v) entity \<Rightarrow> time \<Rightarrow> ('s, 'v) group_state list \<Rightarrow> nat \<times> string \<times> (err + 'v) \<times> time \<Rightarrow> bool" where
  "answer_known E d gs = (\<lambda>(n, i, r, t). \<forall>x. r = Inr x \<longrightarrow> (\<exists>y t0. was_read E gs i (Inr y) t0 \<and> t0 \<le> t \<and>
     (x = y \<and> t \<le> t0 + d \<or> saved E y = Some x \<and> t < t0 + d + ttl E)))"

definition group_known :: "('s, 'v) entity \<Rightarrow> time \<Rightarrow> ('s, 'v) group_state list \<Rightarrow> ('s, 'v) group_state \<Rightarrow> bool" where
  "group_known E d gs g \<longleftrightarrow> entries_known E d gs g \<and> flights_known E gs g \<and> (\<forall>a\<in>set (answers g). answer_known E d gs a)"

lemma known_mono:
  assumes "set gs \<subseteq> set gs'"
  shows "entries_known E d gs g \<Longrightarrow> entries_known E d gs' g" and "flights_known E gs g \<Longrightarrow> flights_known E gs' g"
    and "answer_known E d gs a \<Longrightarrow> answer_known E d gs' a"
  unfolding entries_known_def flights_known_def answer_known_def case_prod_beta using was_read_mono [OF _ assms] by meson+

lemma group_known_mono: "group_known E d gs g \<Longrightarrow> set gs \<subseteq> set gs' \<Longrightarrow> group_known E d gs' g"
  unfolding group_known_def using known_mono by meson

lemma group_save_cases:
  obtains "group_save E p i g = g"
  | f where "flights g (p, key_of E i) = Some f"
      "group_save E p i g = g\<lparr>cache := cache g, flights := (flights g)((p, key_of E i) \<mapsto> f\<lparr>stored := True\<rparr>)\<rparr>"
  | f x raw c where "flights g (p, key_of E i) = Some f" "fetched f = Some (Inr x)" "saved E x = Some raw"
      "c = snd (run_state (redis_exec (\<lambda>c. ((), set_entry E (key_of E i) (Inr raw, redis_clock c + ttl E) c))) (cache g))"
      "group_save E p i g = g\<lparr>cache := c, flights := (flights g)((p, key_of E i) \<mapsto> f\<lparr>stored := True\<rparr>)\<rparr>"
proof (cases "flights g (p, key_of E i)")
  case None
  then show ?thesis by (intro that(1)) (simp add: group_save_def Let_def)
next
  case (Some f)
  show ?thesis
  proof (cases "fetched f = None \<or> stored f")
    case True
    then show ?thesis using Some by (intro that(1)) (auto simp: group_save_def Let_def)
  next
    case False
    then obtain r where r: "fetched f = Some r" "\<not> stored f" by auto
    show ?thesis
    proof (cases "\<exists>x raw. r = Inr x \<and> saved E x = Some raw")
      case True
      then obtain x raw where "r = Inr x" "saved E x = Some raw" by blast
      then show ?thesis using Some r by (intro that(3) [OF Some _ _ refl]) (simp_all add: group_save_def Let_def)
    next
      case False
      then show ?thesis using Some r by (intro that(2) [OF Some]) (auto simp: group_save_def Let_def split: option.splits sum.splits)
    qed
  qed
qed

text \<open>Of an entity it is used that keys name identifiers and that storing an entry does just that.\<close>

locale cache_entity =
  fixes E :: "('s, 'v) entity"
  assumes key_inj: "key_of E i = key_of E j \<Longrightarrow> i = j"
    and entries_set: "entries E (set_entry E k e c) = (entries E c)(k \<mapsto> e)"
    and clock_set: "redis_clock (set_entry E k e c) = redis_clock c"
    and entries_kept: "entries E (c\<lparr>underlying := s\<rparr>) = entries E c" "entries E (c\<lparr>redis_script := scr\<rparr>) = entries E c"
begin

lemma exec_lookup:
  assumes "run_state (redis_exec (\<lambda>c. (live (redis_clock c) (entries E c k), c))) c0 = (hit, c1)"
  shows "redis_clock c1 = redis_clock c0" and "entries E c1 = entries E c0"
    and "hit = Some x \<Longrightarrow> x = live (redis_clock c0) (entries E c0 k)"
  using redis_exec_cases [OF assms] by (auto simp: entries_kept)

lemma known_call:
  assumes "group_known E d gs g"
  shows "group_known E d gs (group_call E p i n g)"
proof -
  let ?key = "key_of E i"
  obtain hit c where h: "run_state (redis_exec (\<lambda>c. (live (redis_clock c) (entries E c ?key), c))) (cache g) = (hit, c)" by fastforce
  note c = exec_lookup [OF h]
  show ?thesis
  proof (cases "\<exists>v. hit = Some (Some (Inr v))")
    case True
    then obtain v where v: "hit = Some (Some (Inr v))" by blast
    then obtain e where e: "entries E (cache g) ?key = Some (Inr v, e)" "redis_clock (cache g) < e"
      using c(3) [of "Some (Inr v)"] by (auto simp: live_def split: option.splits if_splits)
    obtain x t where x: "was_read E gs i (Inr x) t" "saved E x = Some v" "t \<le> redis_clock (cache g)" "e \<le> t + d + ttl E"
      using assms e(1) unfolding group_known_def entries_known_def by blast
    have "answer_known E d gs (n, i, Inr v, redis_clock c)"
      unfolding answer_known_def prod.case using x e(2) c(1) by (intro allI impI exI [of _ x] exI [of _ t]) auto
    then show ?thesis using assms h v c(1,2) by (simp add: group_call_def Let_def group_known_def entries_known_def flights_known_def)
  next
    case False
    then have called: "group_call E p i n g = g\<lparr>cache := c, flights := (flights g)((p, ?key) \<mapsto> (case flights g (p, ?key) of
              None \<Rightarrow> \<lparr>waiters = [n], fetched = None, fetched_at = 0, stored = False\<rparr>
            | Some f \<Rightarrow> f\<lparr>waiters := waiters f @ [n]\<rparr>))\<rparr>"
      using h by (auto simp: group_call_def Let_def split: option.splits sum.splits)
    have "flights_known E gs (group_call E p i n g)"
      using assms c(1) unfolding called group_known_def flights_known_def by (auto split: option.splits if_splits dest: key_inj)
    then show ?thesis using assms c(1,2) unfolding called by (simp add: group_known_def entries_known_def)
  qed
qed

lemma known_fetch:
  assumes "group_known E d gs g" and "g \<in> set gs"
  shows "group_known E d gs (group_fetch E p i g)"
proof (cases "\<exists>f. flights g (p, key_of E i) = Some f \<and> fetched f = None")
  case True
  then obtain f where f: "flights g (p, key_of E i) = Some f" "fetched f = None" by blast
  obtain r s where rs: "run_state (fetch E i) (underlying (cache g)) = (r, s)" by fastforce
  have "was_read E gs i r (redis_clock (cache g))" using assms(2) rs by (force simp: was_read_def)
  then have "flights_known E gs (group_fetch E p i g)"
    using assms f rs by (auto simp: group_fetch_def Let_def run_on_underlying group_known_def flights_known_def split: if_splits dest: key_inj)
  then show ?thesis using assms f rs
    by (simp add: group_fetch_def Let_def run_on_underlying group_known_def entries_known_def entries_kept)
next
  case False
  then have "group_fetch E p i g = g" by (auto simp: group_fetch_def Let_def split: option.splits)
  then show ?thesis using assms by simp
qed

lemma known_save:
  assumes "group_known E d gs g" and "g \<in> set gs" and "fetches_within d gs"
  shows "group_known E d gs (group_save E p i g)"
proof -
  let ?key = "key_of E i"
  have flights: "flights_known E gs (g\<lparr>cache := c, flights := (flights g)((p, ?key) \<mapsto> f\<lparr>stored := True\<rparr>)\<rparr>)"
    if "flights g (p, ?key) = Some f" "redis_clock c = redis_clock (cache g)" for c f
    using assms(1) that by (auto simp: group_known_def flights_known_def split: if_splits dest: key_inj)
  consider (same) "group_save E p i g = g"
    | (kept) f where "flights g (p, ?key) = Some f" "group_save E p i g = g\<lparr>cache := cache g, flights := (flights g)((p, ?key) \<mapsto> f\<lparr>stored := True\<rparr>)\<rparr>"
    | (set) f x raw c where "flights g (p, ?key) = Some f" "fetched f = Some (Inr x)" "saved E x = Some raw"
        "c = snd (run_state (redis_exec (\<lambda>c. ((), set_entry E ?key (Inr raw, redis_clock c + ttl E) c))) (cache g))"
        "group_save E p i g = g\<lparr>cache := c, flights := (flights g)((p, ?key) \<mapsto> f\<lparr>stored := True\<rparr>)\<rparr>"
    by (rule group_save_cases)
  then show ?thesis
  proof cases
    case same
    then show ?thesis using assms by simp
  next
    case kept
    then show ?thesis using assms(1) flights [OF kept(1), of "cache g"] by (simp add: group_known_def entries_known_def)
  next
    case set
    have read: "was_read E gs i (Inr x) (fetched_at f)" "fetched_at f \<le> redis_clock (cache g)"
      using assms(1) set(1,2) unfolding group_known_def flights_known_def by blast+
    have late: "redis_clock (cache g) \<le> fetched_at f + d"
      using assms(2,3) set(1,2) unfolding fetches_within_def by blast
    obtain scr where c: "c = (cache g)\<lparr>redis_script := scr\<rparr> \<or>
        c = set_entry E ?key (Inr raw, redis_clock (cache g) + ttl E) ((cache g)\<lparr>redis_script := scr\<rparr>)"
      using redis_exec_cases [OF surjective_pairing, of "\<lambda>c. ((), set_entry E ?key (Inr raw, redis_clock c + ttl E) c)" "cache g"] set(4) by auto
    then have clk: "redis_clock c = redis_clock (cache g)" by (auto simp: clock_set)
    have "entries_known E d gs (g\<lparr>cache := c, flights := (flights g)((p, ?key) \<mapsto> f\<lparr>stored := True\<rparr>)\<rparr>)"
      unfolding entries_known_def
    proof (intro allI impI)
      fix j v e assume entry: "entries E (cache (g\<lparr>cache := c, flights := (flights g)((p, ?key) \<mapsto> f\<lparr>stored := True\<rparr>)\<rparr>)) (key_of E j) = Some (v, e)"
      show "\<exists>x raw t. was_read E gs j (Inr x) t \<and> saved E x = Some raw \<and> v = Inr raw \<and>
          t \<le> redis_clock (cache (g\<lparr>cache := c, flights := (flights g)((p, ?key) \<mapsto> f\<lparr>stored := True\<rparr>)\<rparr>)) \<and> e \<le> t + d + ttl E"
      proof (cases "entries E (cache g) (key_of E j) = Some (v, e)")
        case True
        then show ?thesis using assms(1) clk by (simp add: group_known_def entries_known_def)
      next
        case False
        then have "j = i" "v = Inr raw" "e = redis_clock (cache g) + ttl E"
          using entry c by (auto simp: entries_set entries_kept split: if_splits dest: key_inj)
        then show ?thesis using read late clk set(3) by (intro exI [of _ x] exI [of _ raw] exI [of _ "fetched_at f"]) simp
      qed
    qed
    then show ?thesis using assms(1) flights [OF set(1) clk] set(5) by (simp add: group_known_def)
  qed
qed

lemma known_return:
  assumes "group_known E d gs g" and "g \<in> set gs" and "fetches_within d gs"
  shows "group_known E d gs (group_return E p i g)"
proof (cases "\<exists>f r. flights g (p, key_of E i) = Some f \<and> fetched f = Some r \<and> stored f")
  case True
  then obtain f r where f: "flights g (p, key_of E i) = Some f" "fetched f = Some r" "stored f" by blast
  have read: "was_read E gs i r (fetched_at f)" "fetched_at f \<le> redis_clock (cache g)"
    using assms(1) f(1,2) unfolding group_known_def flights_known_def by blast+
  have "redis_clock (cache g) \<le> fetched_at f + d" using assms(2,3) f(1,2) unfolding fetches_within_def by blast
  then have "answer_known E d gs (n, i, r, redis_clock (cache g))" for n using read by (auto simp: answer_known_def)
  then show ?thesis using assms(1) f
    by (auto simp: group_return_def Let_def group_known_def entries_known_def flights_known_def)
next
  case False
  then have "group_return E p i g = g" by (auto simp: group_return_def Let_def split: option.splits)
  then show ?thesis using assms by simp
qed

lemma known_step:
  assumes "group_known E d gs g" and "group_step E g g'" and "g \<in> set gs" and "fetches_within d gs"
  shows "group_known E d gs g'"
  using assms(2)
proof cases
  case (crash p)
  then show ?thesis using assms(1) by (auto simp: group_known_def entries_known_def flights_known_def)
next
  case (elsewhere c)
  have "entries_known E d gs g'" unfolding entries_known_def
  proof (intro allI impI)
    fix i v e assume "entries E (cache g') (key_of E i) = Some (v, e)"
    then have "entries E (cache g) (key_of E i) = Some (v, e)"
      using elsewhere by (auto simp: no_new_entries_def dest: spec [where x = "key_of E i"])
    then show "\<exists>x raw t. was_read E gs i (Inr x) t \<and> saved E x = Some raw \<and> v = Inr raw \<and> t \<le> redis_clock (cache g') \<and> e \<le> t + d + ttl E"
      using assms(1) elsewhere unfolding group_known_def entries_known_def no_new_entries_def
      by simp (meson order_trans)
  qed
  moreover have "flights_known E gs g'"
    using assms(1) elsewhere unfolding group_known_def flights_known_def no_new_entries_def by simp (meson order_trans)
  ultimately show ?thesis using assms(1) elsewhere by (simp add: group_known_def)
qed (use assms known_call known_fetch known_save known_return in simp_all)

lemma trace_known:
  assumes "group_trace E gs" and "fetches_within d gs"
  shows "gs \<noteq> [] \<and> group_known E d gs (last gs)"
  using assms
proof (induction rule: group_trace.induct)
  case (start g)
  then show ?case by (simp add: group_known_def entries_known_def flights_known_def)
next
  case (step gs g g')
  then have within: "fetches_within d (gs @ [g])" by (auto simp: fetches_within_def)
  then have "group_known E d (gs @ [g]) g" using step by simp
  from known_step [OF this step.hyps(2) _ within] have "group_known E d (gs @ [g]) g'" by simp
  then show ?case by (auto intro: group_known_mono)
qed

theorem answers_fresh:
  assumes "group_trace E gs" and "fetches_within d gs" and "(n, i, Inr x, t) \<in> set (answers (last gs))"
  shows "\<exists>g0\<in>set gs. \<exists>y. fst (run_state (fetch E i) (underlying (cache g0))) = Inr y \<and> redis_clock (cache g0) \<le> t \<and>
    (x = y \<and> t \<le> redis_clock (cache g0) + d \<or> saved E y = Some x \<and> t < redis_clock (cache g0) + d + ttl E)"
proof -
  have "answer_known E d gs (n, i, Inr x, t)" using trace_known [OF assms(1,2)] assms(3) by (auto simp: group_known_def)
  then show ?thesis unfolding answer_known_def was_read_def by auto
qed

end

interpretation jobs_cached: cache_entity "job_entity st" for st :: "'s store_api"
  by unfold_locales (simp_all add: job_entity_def)

interpretation runs_cached: cache_entity "run_entity st" for st :: "'s store_api"
  by unfold_locales (simp_all add: run_entity_def)

lemma update_is_elsewhere:
  "group_step (job_entity st) g (g\<lparr>cache := snd (run_state (cached_UpdateJobStatus st i s) (cache g))\<rparr>)"
  using cached_UpdateJobStatus_cases [OF surjective_pairing, of st i s "cache g"]
  by (intro group_step.elsewhere) (auto simp: no_new_entries_def job_entity_def split: if_splits)

text \<open>
  C32. Reads through the cache are stale for a bounded time only, however they interleave. Any number of API processes share one Redis; each read of them is
  taken apart into its lookup, its fetch, its store into Redis and its return, with fetches shared within a process. Between any two of these steps
  other reads make theirs, Redis commands are lost, keys are deleted and evicted, processes end, time passes, and the underlying store changes at will. If
  no fetch takes longer than \<open>d\<close> from the read of the store to the return, then a job that a caller is given is what the underlying store returned for
  that identifier at a time less than \<open>d\<close> and 30 seconds ago (by Redis' clock); and a run that a caller is given is what it returned at most \<open>d\<close> ago,
  or, up to the JSON text, what it returned less than \<open>d\<close> and an hour ago, when the run was succeeded or dead.
\<close>

theorem cache_staleness_bounded:
  "(group_trace (job_entity st) gs \<longrightarrow> fetches_within d gs \<longrightarrow> (n, i, Inr job, t) \<in> set (answers (last gs)) \<longrightarrow>
      (\<exists>g0\<in>set gs. fst (run_state (api_GetJob st i) (underlying (cache g0))) = Inr job \<and>
         redis_clock (cache g0) \<le> t \<and> t < redis_clock (cache g0) + d + 30000000000)) \<and>
   (group_trace (run_entity st) hs \<longrightarrow> fetches_within d hs \<longrightarrow> (n, i, Inr run, t) \<in> set (answers (last hs)) \<longrightarrow>
      (\<exists>g0\<in>set hs. \<exists>run0. fst (run_state (api_GetRun st i) (underlying (cache g0))) = Inr run0 \<and> redis_clock (cache g0) \<le> t \<and>
         (run = run0 \<and> t \<le> redis_clock (cache g0) + d \<or>
          run = run_json run0 \<and> run_Status run0 \<in> {RunStatusSucceeded, RunStatusDead} \<and> t < redis_clock (cache g0) + d + 3600000000000)))"
proof (intro conjI impI)
  have jobs: "fetch (job_entity st) i = api_GetJob st i" "ttl (job_entity st) = 30000000000" "saved (job_entity st) y = Some job \<Longrightarrow> y = job" for y
    by (simp_all add: job_entity_def jobTTL_def Marshal_job_def split: sum.splits)
  assume gs: "group_trace (job_entity st) gs" "fetches_within d gs" "(n, i, Inr job, t) \<in> set (answers (last gs))"
  show "\<exists>g0\<in>set gs. fst (run_state (api_GetJob st i) (underlying (cache g0))) = Inr job \<and>
         redis_clock (cache g0) \<le> t \<and> t < redis_clock (cache g0) + d + 30000000000"
    using jobs_cached.answers_fresh [OF gs, unfolded jobs(1,2)] jobs(3) by fastforce
next
  have runs: "fetch (run_entity st) i = api_GetRun st i" "ttl (run_entity st) = 3600000000000"
    "saved (run_entity st) y = Some run \<Longrightarrow> run = run_json y \<and> run_Status y \<in> {RunStatusSucceeded, RunStatusDead}" for y
    by (simp_all add: run_entity_def runTTL_def Marshal_run_def split: sum.splits if_splits)
  assume hs: "group_trace (run_entity st) hs" "fetches_within d hs" "(n, i, Inr run, t) \<in> set (answers (last hs))"
  show "\<exists>g0\<in>set hs. \<exists>run0. fst (run_state (api_GetRun st i) (underlying (cache g0))) = Inr run0 \<and> redis_clock (cache g0) \<le> t \<and>
         (run = run0 \<and> t \<le> redis_clock (cache g0) + d \<or>
          run = run_json run0 \<and> run_Status run0 \<in> {RunStatusSucceeded, RunStatusDead} \<and> t < redis_clock (cache g0) + d + 3600000000000)"
    using runs_cached.answers_fresh [OF hs, unfolded runs(1,2)] runs(3) by blast
qed

text \<open>A read in one process, and 20 seconds later one in another, of a job that was paused in between by somebody else.\<close>

definition demo_group :: "(world, job) group_state" where
  "demo_group = \<lparr>cache = demo_cache, flights = (\<lambda>_. None), answers = []\<rparr>"

abbreviation demo_entity :: "(world, job) entity" where
  "demo_entity \<equiv> job_entity pg_store"

lemma demo_read: "run_state (GetJob (demo_uuid 0)) (demo_world demo_db 2) = (Inr (job_view demo_db demo_job), demo_world demo_db 2)"
  using GetJob_good [OF good_demo, of "demo_uuid 0"] by (simp add: demo_db_def demo_job_def new_job_row_def)

lemma demo_marshal: "Marshal_job (job_view demo_db demo_job) = Inr (job_view demo_db demo_job)"
  by (simp add: Marshal_job_def job_view_def job_of_row_def demo_job_def new_job_row_def decode_def json_Unmarshal_def json_Marshal_def)

definition demo_key :: "nat \<times> string" where
  "demo_key = (0, jobKeyPrefix @ demo_uuid 0)"

definition demo_flight :: "job flight" where
  "demo_flight = \<lparr>waiters = [7], fetched = None, fetched_at = 0, stored = False\<rparr>"

definition demo_stored :: "world cached" where
  "demo_stored = demo_cache\<lparr>redis_jobs := [jobKeyPrefix @ demo_uuid 0 \<mapsto> (Inr (job_view demo_db demo_job), jobTTL)]\<rparr>"

definition demo_paused :: "world cached" where
  "demo_paused = demo_stored\<lparr>underlying := snd (run_state (UpdateJobStatus (demo_uuid 0) JobStatusPaused) (demo_world demo_db 2)), redis_clock := 20000000000\<rparr>"

definition demo_answer :: "nat \<Rightarrow> time \<Rightarrow> nat \<times> string \<times> (err + job) \<times> time" where
  "demo_answer n t = (n, demo_uuid 0, Inr (job_view demo_db demo_job), t)"

lemmas demo_group_defs = demo_group_def demo_key_def demo_flight_def demo_stored_def demo_paused_def demo_answer_def demo_cache_def job_entity_def

lemma demo_steps:
  "group_step demo_entity demo_group (demo_group\<lparr>flights := [demo_key \<mapsto> demo_flight]\<rparr>)"
  "group_step demo_entity (demo_group\<lparr>flights := [demo_key \<mapsto> demo_flight]\<rparr>)
     (demo_group\<lparr>flights := [demo_key \<mapsto> demo_flight\<lparr>fetched := Some (Inr (job_view demo_db demo_job))\<rparr>]\<rparr>)"
  "group_step demo_entity (demo_group\<lparr>flights := [demo_key \<mapsto> demo_flight\<lparr>fetched := Some (Inr (job_view demo_db demo_job))\<rparr>]\<rparr>)
     (demo_group\<lparr>cache := demo_stored, flights := [demo_key \<mapsto> demo_flight\<lparr>fetched := Some (Inr (job_view demo_db demo_job)), stored := True\<rparr>]\<rparr>)"
  "group_step demo_entity (demo_group\<lparr>cache := demo_stored, flights := [demo_key \<mapsto> demo_flight\<lparr>fetched := Some (Inr (job_view demo_db demo_job)), stored := True\<rparr>]\<rparr>)
     (demo_group\<lparr>cache := demo_stored, answers := [demo_answer 7 0]\<rparr>)"
  "group_step demo_entity (demo_group\<lparr>cache := demo_stored, answers := [demo_answer 7 0]\<rparr>) (demo_group\<lparr>cache := demo_paused, answers := [demo_answer 7 0]\<rparr>)"
  "group_step demo_entity (demo_group\<lparr>cache := demo_paused, answers := [demo_answer 7 0]\<rparr>)
     (demo_group\<lparr>cache := demo_paused, answers := [demo_answer 7 0, demo_answer 8 20000000000]\<rparr>)"
proof -
  let ?i = "demo_uuid 0" and ?j = "job_view demo_db demo_job"
  show "group_step demo_entity demo_group (demo_group\<lparr>flights := [demo_key \<mapsto> demo_flight]\<rparr>)"
    using group_step.call [of demo_entity demo_group 0 ?i 7] by (simp add: group_call_def Let_def redis_exec_up live_def demo_group_defs)
  show "group_step demo_entity (demo_group\<lparr>flights := [demo_key \<mapsto> demo_flight]\<rparr>) (demo_group\<lparr>flights := [demo_key \<mapsto> demo_flight\<lparr>fetched := Some (Inr ?j)\<rparr>]\<rparr>)"
    using group_step.fetch [of demo_entity "demo_group\<lparr>flights := [demo_key \<mapsto> demo_flight]\<rparr>" 0 ?i]
    by (simp add: group_fetch_def Let_def run_on_underlying demo_read demo_group_defs)
  show "group_step demo_entity (demo_group\<lparr>flights := [demo_key \<mapsto> demo_flight\<lparr>fetched := Some (Inr ?j)\<rparr>]\<rparr>)
     (demo_group\<lparr>cache := demo_stored, flights := [demo_key \<mapsto> demo_flight\<lparr>fetched := Some (Inr ?j), stored := True\<rparr>]\<rparr>)"
    using group_step.save [of demo_entity "demo_group\<lparr>flights := [demo_key \<mapsto> demo_flight\<lparr>fetched := Some (Inr ?j)\<rparr>]\<rparr>" 0 ?i]
    by (simp add: group_save_def Let_def redis_exec_up demo_marshal demo_group_defs)
  show "group_step demo_entity (demo_group\<lparr>cache := demo_stored, flights := [demo_key \<mapsto> demo_flight\<lparr>fetched := Some (Inr ?j), stored := True\<rparr>]\<rparr>)
     (demo_group\<lparr>cache := demo_stored, answers := [demo_answer 7 0]\<rparr>)"
    using group_step.return [of demo_entity "demo_group\<lparr>cache := demo_stored, flights := [demo_key \<mapsto> demo_flight\<lparr>fetched := Some (Inr ?j), stored := True\<rparr>]\<rparr>" 0 ?i]
    by (simp add: group_return_def Let_def demo_group_defs)
  show "group_step demo_entity (demo_group\<lparr>cache := demo_stored, answers := [demo_answer 7 0]\<rparr>) (demo_group\<lparr>cache := demo_paused, answers := [demo_answer 7 0]\<rparr>)"
    using group_step.elsewhere [of demo_entity "demo_group\<lparr>cache := demo_stored, answers := [demo_answer 7 0]\<rparr>" demo_paused]
    by (simp add: no_new_entries_def demo_group_defs)
  show "group_step demo_entity (demo_group\<lparr>cache := demo_paused, answers := [demo_answer 7 0]\<rparr>)
     (demo_group\<lparr>cache := demo_paused, answers := [demo_answer 7 0, demo_answer 8 20000000000]\<rparr>)"
    using group_step.call [of demo_entity "demo_group\<lparr>cache := demo_paused, answers := [demo_answer 7 0]\<rparr>" 1 ?i 8]
    by (simp add: group_call_def Let_def redis_exec_up live_def jobTTL_def demo_group_defs)
qed

lemma group_trace_more: "group_trace E gs \<Longrightarrow> group_step E (last gs) g \<Longrightarrow> gs \<noteq> [] \<Longrightarrow> group_trace E (gs @ [g])"
  using group_trace.step [of E "butlast gs" "last gs" g] append_butlast_last_id [of gs] by (metis append_Cons append_Nil append_assoc)

definition demo_reads :: "(world, job) group_state list" where
  "demo_reads = [demo_group, demo_group\<lparr>flights := [demo_key \<mapsto> demo_flight]\<rparr>,
     demo_group\<lparr>flights := [demo_key \<mapsto> demo_flight\<lparr>fetched := Some (Inr (job_view demo_db demo_job))\<rparr>]\<rparr>,
     demo_group\<lparr>cache := demo_stored, flights := [demo_key \<mapsto> demo_flight\<lparr>fetched := Some (Inr (job_view demo_db demo_job)), stored := True\<rparr>]\<rparr>,
     demo_group\<lparr>cache := demo_stored, answers := [demo_answer 7 0]\<rparr>, demo_group\<lparr>cache := demo_paused, answers := [demo_answer 7 0]\<rparr>,
     demo_group\<lparr>cache := demo_paused, answers := [demo_answer 7 0, demo_answer 8 20000000000]\<rparr>]"

lemma demo_trace: "group_trace demo_entity demo_reads" "fetches_within 0 demo_reads"
proof -
  have "group_trace demo_entity [demo_group]"
    by (rule group_trace.start) (simp_all add: demo_group_defs)
  from group_trace_more [OF group_trace_more [OF group_trace_more [OF group_trace_more [OF group_trace_more [OF group_trace_more [OF this]]]]]]
  show "group_trace demo_entity demo_reads" using demo_steps by (simp add: demo_reads_def)
  show "fetches_within 0 demo_reads" by (auto simp: fetches_within_def demo_reads_def demo_group_defs split: if_splits)
qed

theorem cache_staleness_bounded_witness:
  "\<exists>g0\<in>set demo_reads. fst (run_state (GetJob (demo_uuid 0)) (underlying (cache g0))) = Inr (job_view demo_db demo_job) \<and>
     redis_clock (cache g0) \<le> 20000000000 \<and> 20000000000 < redis_clock (cache g0) + 0 + 30000000000"
proof -
  have "(8, demo_uuid 0, Inr (job_view demo_db demo_job), 20000000000) \<in> set (answers (last demo_reads))"
    by (simp add: demo_reads_def demo_answer_def)
  with demo_trace cache_staleness_bounded [THEN conjunct1, of pg_store demo_reads 0 8 "demo_uuid 0" "job_view demo_db demo_job" 20000000000]
  show ?thesis unfolding pg_store_simps by blast
qed

subsection \<open>Sharing\<close>

lemma group_call_cold:
  assumes "redis_script (cache g) = []" and "live (redis_clock (cache g)) (redis_jobs (cache g) (jobKeyPrefix @ i)) = None"
  shows "group_call (job_entity st) p i n g = g\<lparr>flights := (flights g)((p, jobKeyPrefix @ i) \<mapsto> (case flights g (p, jobKeyPrefix @ i) of
      None \<Rightarrow> \<lparr>waiters = [n], fetched = None, fetched_at = 0, stored = False\<rparr> | Some f \<Rightarrow> f\<lparr>waiters := waiters f @ [n]\<rparr>))\<rparr>"
  using assms by (simp add: group_call_def Let_def redis_exec_up job_entity_def)

lemma group_calls_cold:
  assumes "redis_script (cache g) = []" and "live (redis_clock (cache g)) (redis_jobs (cache g) (jobKeyPrefix @ i)) = None"
    and "flights g (p, jobKeyPrefix @ i) = Some f"
  shows "fold (group_call (job_entity st) p i) ns g = g\<lparr>flights := (flights g)((p, jobKeyPrefix @ i) \<mapsto> f\<lparr>waiters := waiters f @ ns\<rparr>)\<rparr>"
  using assms
proof (induction ns arbitrary: g f)
  case Nil
  then show ?case by (simp add: fun_upd_idem)
next
  case (Cons n ns)
  let ?g = "g\<lparr>flights := (flights g)((p, jobKeyPrefix @ i) \<mapsto> f\<lparr>waiters := waiters f @ [n]\<rparr>)\<rparr>"
  have "group_call (job_entity st) p i n g = ?g" using group_call_cold [OF Cons.prems(1,2), of st p n] Cons.prems(3) by simp
  moreover have "fold (group_call (job_entity st) p i) ns ?g = ?g\<lparr>flights := (flights ?g)((p, jobKeyPrefix @ i) \<mapsto>
      (f\<lparr>waiters := waiters f @ [n]\<rparr>)\<lparr>waiters := waiters (f\<lparr>waiters := waiters f @ [n]\<rparr>) @ ns\<rparr>)\<rparr>"
    by (rule Cons.IH) (use Cons.prems in simp_all)
  ultimately show ?case by (simp add: fun_upd_def cong: if_cong)
qed

text \<open>
  A cold key is fetched once, however many requests to a process miss it at the same time: they all get what that one read of the store
  returned, and the store's state is that after a single read.
\<close>

theorem misses_share_one_fetch:
  assumes "redis_script (cache g) = []" and "live (redis_clock (cache g)) (redis_jobs (cache g) (jobKeyPrefix @ i)) = None"
    and "flights g (p, jobKeyPrefix @ i) = None" and "ns \<noteq> []"
    and "run_state (api_GetJob st i) (underlying (cache g)) = (r, s)"
    and g': "g' = group_finish (job_entity st) p i (group_fetch (job_entity st) p i (fold (group_call (job_entity st) p i) ns g))"
  shows "answers g' = answers g @ map (\<lambda>n. (n, i, r, redis_clock (cache g))) ns \<and> underlying (cache g') = s \<and> flights g' = flights g"
proof -
  let ?key = "(p, jobKeyPrefix @ i)"
  obtain n ms where ns: "ns = n # ms" using assms(4) by (cases ns) auto
  let ?f = "\<lambda>ns r. \<lparr>waiters = ns, fetched = r, fetched_at = 0, stored = False\<rparr>"
  let ?g1 = "g\<lparr>flights := (flights g)(?key \<mapsto> ?f [n] None)\<rparr>"
  have "fold (group_call (job_entity st) p i) ns g = fold (group_call (job_entity st) p i) ms ?g1"
    using group_call_cold [OF assms(1,2), of st p n] assms(3) ns by simp
  also have "\<dots> = g\<lparr>flights := (flights g)(?key \<mapsto> ?f (n # ms) None)\<rparr>"
    using group_calls_cold [of ?g1 i p "?f [n] None" st ms] assms(1,2) by simp
  finally have fetch: "group_fetch (job_entity st) p i (fold (group_call (job_entity st) p i) ns g) =
      g\<lparr>cache := (cache g)\<lparr>underlying := s\<rparr>, flights := (flights g)(?key \<mapsto> (?f ns (Some r))\<lparr>fetched_at := redis_clock (cache g)\<rparr>)\<rparr>"
    using assms(5) by (simp add: group_fetch_def Let_def run_on_underlying job_entity_def ns)
  have fl: "(flights g)(?key := None) = flights g" using assms(3) by (simp add: fun_upd_idem)
  show ?thesis unfolding g' fetch using assms(1) fl
    by (cases r) (auto simp: group_finish_def group_save_def group_return_def Let_def redis_exec_up job_entity_def split: sum.splits option.splits)
qed

text \<open>
  Sharing breaks reading one's own writes. One request misses and fetches an active job. Before it has stored it, a pause is
  written and its key deleted; the pause's own read joins the first request's fetch. The handler answers the pause with the active job, and
  the job goes into Redis after the deletion: every read of the next 30 seconds returns it as active.
\<close>

definition pause_joins :: "'s store_api \<Rightarrow> nat \<Rightarrow> string \<Rightarrow> ('s, job) group_state \<Rightarrow> ('s, job) group_state" where
  "pause_joins st p i g =
     (let g1 = group_fetch (job_entity st) p i (group_call (job_entity st) p i 0 g);
          g2 = g1\<lparr>cache := snd (run_state (cached_UpdateJobStatus st i JobStatusPaused) (cache g1))\<rparr>
      in group_finish (job_entity st) p i (group_call (job_entity st) p i 1 g2))"

theorem paused_job_read_active:
  assumes "redis_script (cache g) = []" and "live (redis_clock (cache g)) (redis_jobs (cache g) (jobKeyPrefix @ i)) = None"
    and "flights g (p, jobKeyPrefix @ i) = None"
    and "run_state (api_GetJob st i) (underlying (cache g)) = (Inr job, s)" and "Marshal_job job = Inr job"
    and "run_state (api_UpdateJobStatus st i JobStatusPaused) s = (Inr (), s')"
  shows "(1, i, Inr job, redis_clock (cache g)) \<in> set (answers (pause_joins st p i g)) \<and> underlying (cache (pause_joins st p i g)) = s' \<and>
    (\<forall>t w. t < redis_clock (cache g) + jobTTL \<longrightarrow>
      fst (run_state (cached_GetJob st i) ((cache (pause_joins st p i g))\<lparr>underlying := w, redis_clock := t\<rparr>)) = Inr job)"
proof -
  let ?key = "(p, jobKeyPrefix @ i)"
  let ?f = "\<lambda>ns. \<lparr>waiters = ns, fetched = Some (Inr job), fetched_at = redis_clock (cache g), stored = False\<rparr>"
  have g1: "group_fetch (job_entity st) p i (group_call (job_entity st) p i 0 g) =
      g\<lparr>cache := (cache g)\<lparr>underlying := s\<rparr>, flights := (flights g)(?key \<mapsto> ?f [0])\<rparr>"
    unfolding group_call_cold [OF assms(1,2)] using assms(3,4) by (simp add: group_fetch_def Let_def run_on_underlying job_entity_def)
  let ?c = "(cache g)\<lparr>underlying := s', redis_jobs := (redis_jobs (cache g))(jobKeyPrefix @ i := None)\<rparr>"
  have "snd (run_state (cached_UpdateJobStatus st i JobStatusPaused) ((cache g)\<lparr>underlying := s\<rparr>)) = ?c"
    using assms(1,6) by (simp add: cached_UpdateJobStatus_def run_check_err run_on_underlying redis_exec_up)
  moreover have "group_call (job_entity st) p i 1 (g\<lparr>flights := (flights g)(?key \<mapsto> ?f [0]), cache := ?c\<rparr>) =
      g\<lparr>cache := ?c, flights := (flights g)(?key \<mapsto> ?f [0, 1])\<rparr>"
    by (subst group_call_cold) (use assms(1) in \<open>simp_all add: live_def\<close>)
  ultimately have final: "pause_joins st p i g = group_finish (job_entity st) p i
      (g\<lparr>cache := ?c, flights := (flights g)(?key \<mapsto> ?f [0, 1])\<rparr>)"
    by (simp add: pause_joins_def g1 Let_def)
  let ?c' = "(cache g)\<lparr>underlying := s', redis_jobs := (redis_jobs (cache g))(jobKeyPrefix @ i \<mapsto> (Inr job, redis_clock (cache g) + jobTTL))\<rparr>"
  have cache: "cache (pause_joins st p i g) = ?c'" and "(1, i, Inr job, redis_clock (cache g)) \<in> set (answers (pause_joins st p i g))"
    using assms(1,5) unfolding final by (simp_all add: group_finish_def group_save_def group_return_def Let_def redis_exec_up job_entity_def)
  moreover have "fst (run_state (cached_GetJob st i) (?c'\<lparr>underlying := w, redis_clock := t\<rparr>)) = Inr job"
    if "t < redis_clock (cache g) + jobTTL" for t w
    using that assms(1) by (simp add: cached_GetJob_def Let_def cache_aside_up live_def)
  ultimately show ?thesis by simp
qed

text \<open>On the Postgres store, with an active job.\<close>

theorem paused_job_read_active_witness:
  "(\<exists>t. (1, demo_uuid 0, Inr (job_view demo_db demo_job), t) \<in> set (answers (pause_joins pg_store 0 (demo_uuid 0) demo_group))) \<and>
   job_Status (job_view demo_db demo_job) = JobStatusActive"
proof -
  let ?w = "demo_world demo_db 2"
  have get: "run_state (api_GetJob pg_store (demo_uuid 0)) (underlying (cache demo_group)) = (Inr (job_view demo_db demo_job), ?w)"
    using demo_read by (simp add: demo_group_def demo_cache_def)
  have "job_exists (demo_uuid 0) (primary ?w)" by (simp add: job_exists_def demo_db_def demo_job_def new_job_row_def)
  then have upd: "run_state (api_UpdateJobStatus pg_store (demo_uuid 0) JobStatusPaused) ?w =
      (Inr (), snd (run_state (UpdateJobStatus (demo_uuid 0) JobStatusPaused) ?w))"
    using UpdateJobStatus_good [OF good_demo, of "demo_uuid 0" "demo_uuid 0" JobStatusPaused] by simp
  have "job_Status (job_view demo_db demo_job) = JobStatusActive"
    by (simp add: job_view_def job_of_row_def demo_job_def new_job_row_def)
  moreover have "redis_script (cache demo_group) = []" "flights demo_group (0, jobKeyPrefix @ demo_uuid 0) = None"
    "live (redis_clock (cache demo_group)) (redis_jobs (cache demo_group) (jobKeyPrefix @ demo_uuid 0)) = None"
    by (simp_all add: demo_group_def demo_cache_def live_def)
  ultimately show ?thesis
    using paused_job_read_active [OF _ _ _ get demo_marshal upd] by blast
qed

end
