(* ===== verification/Run_Lifecycle.thy ===== *)
theory Run_Lifecycle
  imports Services
begin

text \<open>
  The life of a run as \<open>docs/ARCHITECTURE.md\<close> draws it ("Job lifecycle"), as an abstract state machine over the status and the attempt
  counter of every run, and the store as a refinement of it: each call of any service is a step of the machine. What the
  machine promises (final states, attempts) is proved on the machine alone and carried over by the simulation.
\<close>

subsection \<open>The state machine\<close>

type_synonym run_phase = "run_status \<times> int"

type_synonym lifecycle = "uid \<Rightarrow> run_phase option"

text \<open>The arrows of the diagram, with the attempt counter.\<close>

inductive documented :: "run_phase \<Rightarrow> run_phase \<Rightarrow> bool" where
  lease: "documented (RunStatusPending, n) (RunStatusLeased, n + 1)"
| start: "documented (RunStatusLeased, n) (RunStatusRunning, n)"
| complete: "documented (RunStatusRunning, n) (RunStatusSucceeded, n)"
| retry: "documented (RunStatusRunning, n) (RunStatusPending, n)"
| give_up: "documented (RunStatusRunning, n) (RunStatusFailed, n)"
| bury: "documented (RunStatusFailed, n) (RunStatusDead, n)"
| reclaim_leased: "documented (RunStatusLeased, n) (RunStatusPending, n)"
| reclaim_running: "documented (RunStatusRunning, n) (RunStatusPending, n)"

text \<open>
  The arrows that a worker adds: it buries a run without a handler before starting it, and it goes on when \<open>MarkRunning\<close> or
  \<open>FailRun\<close> fails.
\<close>

inductive shortcut :: "run_phase \<Rightarrow> run_phase \<Rightarrow> bool" where
  unstarted: "s \<in> {RunStatusSucceeded, RunStatusPending, RunStatusFailed, RunStatusDead} \<Longrightarrow> shortcut (RunStatusLeased, n) (s, n)"
| unfailed: "shortcut (RunStatusRunning, n) (RunStatusDead, n)"

inductive_simps documented_iff: "documented (s, n) (s', n')"
inductive_simps shortcut_iff: "shortcut (s, n) (s', n')"

definition taken :: "run_phase \<Rightarrow> run_phase \<Rightarrow> bool" where
  "taken a b \<longleftrightarrow> documented a b \<or> shortcut a b"

text \<open>A step of the machine: every run stays as it is, is created, or moves along an arrow.\<close>

inductive moves :: "(run_phase \<Rightarrow> run_phase \<Rightarrow> bool) \<Rightarrow> run_phase option \<Rightarrow> run_phase option \<Rightarrow> bool" for edge where
  stays: "moves edge x x"
| created: "moves edge None (Some (RunStatusPending, 0))"
| along: "edge a b \<Longrightarrow> moves edge (Some a) (Some b)"

inductive_simps moves_Some: "moves edge (Some a) y"
inductive_simps moves_None: "moves edge None y"

definition lifecycle_step :: "(run_phase \<Rightarrow> run_phase \<Rightarrow> bool) \<Rightarrow> lifecycle \<Rightarrow> lifecycle \<Rightarrow> bool" where
  "lifecycle_step edge m m' \<longleftrightarrow> (\<forall>u. moves edge (m u) (m' u))"

lemma lifecycle_run_history:
  assumes "(lifecycle_step edge)\<^sup>*\<^sup>* m m'"
  shows "case m u of Some a \<Rightarrow> \<exists>b. m' u = Some b \<and> edge\<^sup>*\<^sup>* a b
    | None \<Rightarrow> \<forall>b. m' u = Some b \<longrightarrow> edge\<^sup>*\<^sup>* (RunStatusPending, 0) b"
  using assms
proof (induction rule: rtranclp_induct)
  case (step y z)
  have "moves edge (y u) (z u)" using step(2) by (simp add: lifecycle_step_def)
  then show ?case using step(3) by cases (auto split: option.splits intro: rtranclp.rtrancl_into_rtrancl)
qed (auto split: option.splits)

definition phase_order :: "run_phase \<Rightarrow> run_phase \<Rightarrow> bool" where
  "phase_order a b \<longleftrightarrow> snd a \<le> snd b \<and> (fst a \<in> {RunStatusSucceeded, RunStatusDead} \<longrightarrow> b = a) \<and>
     (fst a = RunStatusFailed \<longrightarrow> fst b \<in> {RunStatusFailed, RunStatusDead} \<and> snd b = snd a) \<and>
     (fst b \<noteq> RunStatusPending \<longrightarrow> fst a = RunStatusPending \<longrightarrow> snd a < snd b)"

lemma taken_order: "taken a b \<Longrightarrow> phase_order a b"
  by (cases a; cases b) (auto simp: taken_def phase_order_def documented_iff shortcut_iff)

lemma phase_order_trans: "phase_order a b \<Longrightarrow> phase_order b c \<Longrightarrow> phase_order a c"
  by (cases a; cases b; cases c) (auto simp: phase_order_def)

lemma history_order: "taken\<^sup>*\<^sup>* a b \<Longrightarrow> phase_order a b"
proof (induction rule: rtranclp_induct)
  case base
  show ?case by (simp add: phase_order_def)
next
  case (step y z)
  then show ?case using phase_order_trans taken_order by blast
qed


subsection \<open>The store as a refinement of the machine\<close>

definition phase_of :: "run_row \<Rightarrow> run_phase" where
  "phase_of r = (run_Status r, sint (run_Attempt r))"

definition run_states :: "world \<Rightarrow> lifecycle" where
  "run_states w u = map_option phase_of (find (\<lambda>r. run_ID r = u) (job_runs (primary w)))"

text \<open>The status that a call by identifier gives to the run it names.\<close>

fun call_target :: "run_call \<Rightarrow> run_status option" where
  "call_target (Call_MarkRunning _) = Some RunStatusRunning"
| "call_target (Call_CompleteRun _) = Some RunStatusSucceeded"
| "call_target (Call_FailRun _ requeue) = Some (if requeue then RunStatusPending else RunStatusFailed)"
| "call_target (Call_MarkDead _) = Some RunStatusDead"
| "call_target _ = None"

lemma find_update_where:
  "(\<And>x. x \<in> set xs \<Longrightarrow> p x \<Longrightarrow> P (f x) = P x) \<Longrightarrow>
    find P (update_where p f xs) = map_option (\<lambda>x. if p x then f x else x) (find P xs)"
  by (induction xs) auto

lemma find_append: "find P (xs @ ys) = (case find P xs of Some x \<Rightarrow> Some x | None \<Rightarrow> find P ys)"
  by (induction xs) auto

text \<open>
  The contract between the services and the machine: \<open>allowed\<close> says on which runs a call may be made, and every such call is
  an arrow of the machine.
\<close>

locale run_discipline =
  fixes allowed :: "world \<Rightarrow> run_call \<Rightarrow> bool" and edge :: "run_phase \<Rightarrow> run_phase \<Rightarrow> bool"
  assumes edge_lease: "edge (RunStatusPending, n) (RunStatusLeased, n + 1)"
    and edge_reclaim: "s \<in> {RunStatusLeased, RunStatusRunning} \<Longrightarrow> edge (s, n) (RunStatusPending, n)"
    and edge_call: "allowed w call \<Longrightarrow> names_run call = Some i \<Longrightarrow> call_target call = Some s \<Longrightarrow>
      r \<in> set (job_runs (primary w)) \<Longrightarrow> uuid_in w i = Some (run_ID r) \<Longrightarrow> edge (run_Status r, n) (s, n)"
begin

lemma row_change_moves:
  assumes "row_change allowed w now r r'" and "r \<in> set (job_runs (primary w))"
  shows "run_ID r' = run_ID r \<and> moves edge (Some (phase_of r)) (Some (phase_of r'))"
proof -
  have call: "moves edge (Some (phase_of r)) (Some (s, sint (run_Attempt r)))"
    if "allowed w call" "uuid_in w i = Some (run_ID r)" "names_run call = Some i" "call_target call = Some s" for call i s
    unfolding phase_of_def using edge_call [OF that(1,3,4) assms(2) that(2)] by (rule moves.along)
  have attempt: "sint (run_Attempt r + 1) = sint (run_Attempt r) + 1" if "sint (run_Attempt r) \<noteq> 32767"
    using that sint_attempt_le [of "run_Attempt r"] by (intro sint_attempt_Suc) simp
  show ?thesis using assms(1) unfolding row_change_def
    by (elim disjE exE conjE)
      (auto simp: phase_of_def lease_row_def reclaim_row_def mark_running_row_def complete_row_def requeue_row_def fail_row_def
        lease_expired_def attempt edge_lease edge_reclaim intro: moves.along moves.stays dest: call)
qed

lemma simulation:
  assumes "service_step allowed w w'" and "wf_world w"
  shows "lifecycle_step edge (run_states w) (run_states w')"
  using service_rows [OF assms]
proof (elim disjE conjE exE)
  assume "rows_change (row_change allowed w (clock w')) w w'"
  then obtain p g where rows: "job_runs (primary w') = update_where p g (job_runs (primary w))"
    and C: "\<And>r. r \<in> set (job_runs (primary w)) \<Longrightarrow> p r \<Longrightarrow> row_change allowed w (clock w') r (g r)" by (auto simp: rows_change_def)
  note row = row_change_moves [OF C]
  have states: "run_states w' u = map_option (\<lambda>r. phase_of (if p r then g r else r)) (find (\<lambda>r. run_ID r = u) (job_runs (primary w)))" for u
    using row by (simp add: run_states_def rows find_update_where option.map_comp comp_def)
  show ?thesis unfolding lifecycle_step_def
  proof
    fix u show "moves edge (run_states w u) (run_states w' u)"
    proof (cases "find (\<lambda>r. run_ID r = u) (job_runs (primary w))")
      case None
      then show ?thesis by (simp add: states) (simp add: run_states_def moves.stays)
    next
      case (Some r)
      then have "r \<in> set (job_runs (primary w))" by (auto simp: find_Some_iff)
      then show ?thesis using Some row [of r] by (simp add: states) (simp add: run_states_def moves.stays)
    qed
  qed
next
  fix t u p sch assume "job_runs (primary w') = job_runs (primary w) @ [new_run_row (uuid_gen w (uuid_next w)) t u p sch]"
  then show ?thesis
    by (auto simp: lifecycle_step_def run_states_def find_append new_run_row_def phase_of_def split: option.splits intro: moves.stays moves.created)
qed

lemma refines: "(service_step allowed)\<^sup>*\<^sup>* w w' \<Longrightarrow> wf_world w \<Longrightarrow> (lifecycle_step edge)\<^sup>*\<^sup>* (run_states w) (run_states w') \<and> wf_world w'"
proof (induction rule: rtranclp_induct)
  case (step y z)
  then show ?case using simulation [OF step(2)] service_wf [OF step(2)] by (auto intro: rtranclp.rtrancl_into_rtrancl)
qed simp

end


subsection \<open>Two disciplines\<close>

definition names_only :: "run_status set \<Rightarrow> world \<Rightarrow> string \<Rightarrow> bool" where
  "names_only S w i \<longleftrightarrow> (\<forall>r\<in>set (job_runs (primary w)). uuid_in w i = Some (run_ID r) \<longrightarrow> run_Status r \<in> S)"

lemma names_onlyD: "names_only S w i \<Longrightarrow> r \<in> set (job_runs (primary w)) \<Longrightarrow> uuid_in w i = Some (run_ID r) \<Longrightarrow> run_Status r \<in> S"
  by (simp add: names_only_def)

text \<open>Calls on the runs that the diagram shows them on, and the calls of workers on the runs they hold.\<close>

fun diagram_calls :: "world \<Rightarrow> run_call \<Rightarrow> bool" where
  "diagram_calls w (Call_MarkRunning i) = names_only {RunStatusLeased} w i"
| "diagram_calls w (Call_CompleteRun i) = names_only {RunStatusRunning} w i"
| "diagram_calls w (Call_FailRun i _) = names_only {RunStatusRunning} w i"
| "diagram_calls w (Call_MarkDead i) = names_only {RunStatusFailed} w i"
| "diagram_calls w _ = True"

fun holder_calls :: "world \<Rightarrow> run_call \<Rightarrow> bool" where
  "holder_calls w (Call_MarkRunning i) = names_only {RunStatusLeased} w i"
| "holder_calls w (Call_CompleteRun i) = names_only {RunStatusLeased, RunStatusRunning} w i"
| "holder_calls w (Call_FailRun i _) = names_only {RunStatusLeased, RunStatusRunning} w i"
| "holder_calls w (Call_MarkDead i) = names_only {RunStatusLeased, RunStatusRunning, RunStatusFailed} w i"
| "holder_calls w _ = True"

interpretation diagram: run_discipline diagram_calls documented
proof unfold_locales
  fix w call i s r n assume "diagram_calls w call" "names_run call = Some i" "call_target call = Some s"
    "r \<in> set (job_runs (primary w))" "uuid_in w i = Some (run_ID r)"
  then show "documented (run_Status r, n) (s, n)"
    by (cases call) (auto dest!: names_onlyD simp: documented_iff split: if_splits)
qed (auto simp: documented_iff)

interpretation holders: run_discipline holder_calls taken
proof unfold_locales
  fix w call i s r n assume "holder_calls w call" "names_run call = Some i" "call_target call = Some s"
    "r \<in> set (job_runs (primary w))" "uuid_in w i = Some (run_ID r)"
  then show "taken (run_Status r, n) (s, n)"
    by (cases call) (auto dest!: names_onlyD simp: taken_def documented_iff shortcut_iff split: if_splits)
qed (auto simp: taken_def documented_iff)

subsection \<open>Property\<close>

text \<open>
  C21. The lifecycle of runs, for services that keep to it. The store starts, finishes and fails a run by its identifier alone, whatever state it is
  in, so this holds only under a condition on the callers, and under any faults: if calls are made
  only on runs in the states the diagram shows (\<open>diagram_calls\<close>), exactly its arrows are taken; if workers call only on runs they hold, but
  also bury a run without a handler and go on after a lost \<open>MarkRunning\<close> or \<open>FailRun\<close> (\<open>holder_calls\<close>), the undocumented arrows of
  \<open>shortcut\<close> come in. In both cases no run disappears, attempts
  never decrease, \<open>succeeded\<close> and \<open>dead\<close> are final, \<open>failed\<close> leads only to \<open>dead\<close>, every new
  attempt is counted, and a run created meanwhile came from \<open>pending\<close> with no attempts.
\<close>

theorem runs_follow_lifecycle:
  assumes "wf_world w"
  shows "((service_step diagram_calls)\<^sup>*\<^sup>* w w' \<longrightarrow> (lifecycle_step documented)\<^sup>*\<^sup>* (run_states w) (run_states w')) \<and>
    ((service_step holder_calls)\<^sup>*\<^sup>* w w' \<longrightarrow> (lifecycle_step taken)\<^sup>*\<^sup>* (run_states w) (run_states w') \<and>
      (\<forall>u. case run_states w u of
         Some a \<Rightarrow> \<exists>b. run_states w' u = Some b \<and> phase_order a b
       | None \<Rightarrow> \<forall>b. run_states w' u = Some b \<longrightarrow> phase_order (RunStatusPending, 0) b))"
proof (intro conjI impI allI)
  show "(lifecycle_step documented)\<^sup>*\<^sup>* (run_states w) (run_states w')" if "(service_step diagram_calls)\<^sup>*\<^sup>* w w'"
    using diagram.refines [OF that assms] ..
  assume "(service_step holder_calls)\<^sup>*\<^sup>* w w'"
  from holders.refines [OF this assms] show steps: "(lifecycle_step taken)\<^sup>*\<^sup>* (run_states w) (run_states w')" ..
  show "case run_states w u of Some a \<Rightarrow> \<exists>b. run_states w' u = Some b \<and> phase_order a b
      | None \<Rightarrow> \<forall>b. run_states w' u = Some b \<longrightarrow> phase_order (RunStatusPending, 0) b" for u
    using lifecycle_run_history [OF steps, of u] by (auto split: option.splits dest: history_order)
qed

theorem runs_follow_lifecycle_witness:
  "(lifecycle_step documented)\<^sup>*\<^sup>* (run_states (demo_world demo_db 2)) (run_states demo_running) \<and>
   run_states (demo_world demo_db 2) (demo_uuid 1) = Some (RunStatusPending, 0) \<and>
   run_states demo_running (demo_uuid 1) = Some (RunStatusRunning, 1) \<and> phase_order (RunStatusPending, 0) (RunStatusRunning, 1)"
proof -
  have one: "job_runs (primary demo_leased) = [lease_row ''w1'' 30000000000 0 demo_run]"
    by (simp add: demo_leased_def edit_run_def write_db_def update_where_def lease_row_def)
  have clk: "clock demo_leased = 0" by (simp add: demo_leased_def)
  have path: "(service_step allowed)\<^sup>*\<^sup>* (demo_world demo_db 2) demo_running"
    if "allowed (demo_leased\<lparr>clock := 5\<rparr>) (Call_MarkRunning (demo_uuid 1))" for allowed
  proof -
    have "service_step allowed (demo_world demo_db 2) demo_leased"
      using service_step.lease_next_run [of allowed "demo_world demo_db 2" "''w1''" 30000000000] demo_lease [folded demo_leased_def] by simp
    moreover have "service_step allowed demo_leased (demo_leased\<lparr>clock := 5\<rparr>)"
      using service_step.environment [of demo_leased 5 allowed "row_locked demo_leased" "script demo_leased"] clk by simp
    moreover have "service_step allowed (demo_leased\<lparr>clock := 5\<rparr>) demo_running"
      using service_step.mark_running [of allowed "demo_leased\<lparr>clock := 5\<rparr>" "demo_uuid 1", OF that] demo_start by simp
    ultimately show ?thesis by (meson rtranclp.rtrancl_into_rtrancl rtranclp.rtrancl_refl)
  qed
  have "diagram_calls (demo_leased\<lparr>clock := 5\<rparr>) (Call_MarkRunning (demo_uuid 1))"
    "holder_calls (demo_leased\<lparr>clock := 5\<rparr>) (Call_MarkRunning (demo_uuid 1))"
    by (simp_all add: names_only_def one lease_row_def)
  note path [of diagram_calls, OF this(1)] path [of holder_calls, OF this(2)]
  moreover have "run_states (demo_world demo_db 2) (demo_uuid 1) = Some (RunStatusPending, 0)"
    "run_states demo_running (demo_uuid 1) = Some (RunStatusRunning, 1)"
    by (simp_all add: run_states_def phase_of_def demo_running_def one edit_run_def write_db_def update_where_def mark_running_row_def
        lease_row_def demo_run_def new_run_row_def)
  ultimately show ?thesis using runs_follow_lifecycle [OF wf_demo(2), of demo_running] by (auto dest!: spec [of _ "demo_uuid 1"])
qed

end
