(* ===== verification/Pool_Concurrent.thy ===== *)
theory Pool_Concurrent
  imports Run_Lifecycle Cluster
begin

text \<open>
  A worker executing a run while every other service goes on. \<open>Cluster\<close> puts a store among others; here the locale \<open>rely_guarantee\<close>
  gives the rules for programs on such a store: assertions that hold while a lease lasts, kept by what the others do (\<open>rely\<close>), and a
  relation that the whole system obeys (\<open>guar\<close>). \<open>executeOne\<close> is verified with them twice, under any faults and on a calm database.
\<close>

subsection \<open>Programs on a shared store\<close>

definition conforming :: "('s \<Rightarrow> bool) \<Rightarrow> ('s \<Rightarrow> 's \<Rightarrow> bool) \<Rightarrow> ('s, 'l) shared_state \<Rightarrow> bool" where
  "conforming valid rely s \<longleftrightarrow> valid (store_state s) \<and> (\<forall>f\<in>set (others s). \<forall>a l. valid a \<longrightarrow> rely a (fst (f (a, l))))"

text \<open>A program that does not use the store: while it runs, only the others act.\<close>

definition only_waits :: "('s \<Rightarrow> bool) \<Rightarrow> ('s \<Rightarrow> 's \<Rightarrow> bool) \<Rightarrow> (('s, 'l) shared_state, 'a) state \<Rightarrow> bool" where
  "only_waits valid rely m \<longleftrightarrow> (\<forall>s. conforming valid rely s \<longrightarrow>
     conforming valid rely (snd (run_state m s)) \<and> rely (store_state s) (store_state (snd (run_state m s))))"

locale rely_guarantee =
  fixes valid :: "'s \<Rightarrow> bool" and now :: "'s \<Rightarrow> time" and rely guar :: "'s \<Rightarrow> 's \<Rightarrow> bool" and limit :: time
  assumes rely_safe: "rely a b \<Longrightarrow> valid a \<Longrightarrow> valid b \<and> now a \<le> now b \<and> guar a b"
    and guar_refl: "guar a a" and guar_trans: "guar a b \<Longrightarrow> guar b c \<Longrightarrow> guar a c"
begin

definition stable :: "('s \<Rightarrow> bool) \<Rightarrow> bool" where
  "stable P \<longleftrightarrow> (\<forall>a b. rely a b \<longrightarrow> valid a \<longrightarrow> now b \<le> limit \<longrightarrow> P a \<longrightarrow> P b)"

definition sat :: "('s \<Rightarrow> bool) \<Rightarrow> (('s, 'l) shared_state, 'a) state \<Rightarrow> ('a \<Rightarrow> 's \<Rightarrow> bool) \<Rightarrow> bool" where
  "sat P m Q \<longleftrightarrow> (\<forall>s r s'. conforming valid rely s \<longrightarrow> (now (store_state s) \<le> limit \<longrightarrow> P (store_state s)) \<longrightarrow> run_state m s = (r, s') \<longrightarrow>
     conforming valid rely s' \<and> now (store_state s) \<le> now (store_state s') \<and>
     (now (store_state s') \<le> limit \<longrightarrow> guar (store_state s) (store_state s') \<and> Q r (store_state s')))"

lemma satD:
  assumes "sat P m Q" and "conforming valid rely s" and "now (store_state s) \<le> limit \<Longrightarrow> P (store_state s)" and "run_state m s = (r, s')"
  shows "conforming valid rely s'" and "now (store_state s) \<le> now (store_state s')"
    and "now (store_state s') \<le> limit \<Longrightarrow> guar (store_state s) (store_state s') \<and> Q r (store_state s')"
  using assms unfolding sat_def by blast+

lemma sat_bind:
  assumes "sat P m Q" and "\<And>x. sat (Q x) (k x) R"
  shows "sat P (State_Monad.bind m k) R"
  unfolding sat_def
proof (intro allI impI)
  fix s r s' assume s: "conforming valid rely s" "now (store_state s) \<le> limit \<longrightarrow> P (store_state s)" "run_state (State_Monad.bind m k) s = (r, s')"
  obtain x s1 where m: "run_state m s = (x, s1)" by fastforce
  then have k: "run_state (k x) s1 = (r, s')" using s(3) by simp
  note first = satD [OF assms(1) s(1) s(2) [rule_format] m]
  note second = satD [OF assms(2) first(1) conjunct2 [OF first(3)] k]
  show "conforming valid rely s' \<and> now (store_state s) \<le> now (store_state s') \<and>
     (now (store_state s') \<le> limit \<longrightarrow> guar (store_state s) (store_state s') \<and> R r (store_state s'))"
    using first(2,3) second by (auto intro: guar_trans)
qed

lemma sat_ret: "(\<And>a. P a \<Longrightarrow> Q x a) \<Longrightarrow> sat P (ret x) Q"
  unfolding sat_def by (simp add: guar_refl)

lemma sat_weaken: "sat P m Q \<Longrightarrow> (\<And>a. P' a \<Longrightarrow> P a) \<Longrightarrow> (\<And>x a. Q x a \<Longrightarrow> Q' x a) \<Longrightarrow> sat P' m Q'"
  unfolding sat_def by blast

lemma sat_waits:
  assumes "only_waits valid rely m" and "stable P"
  shows "sat P m (\<lambda>_. P)"
  unfolding sat_def
proof (intro allI impI)
  fix s r s' assume s: "conforming valid rely s" "now (store_state s) \<le> limit \<longrightarrow> P (store_state s)" "run_state m s = (r, s')"
  have "conforming valid rely s'" "rely (store_state s) (store_state s')" "valid (store_state s)"
    using assms(1) s(1,3) by (force simp: only_waits_def conforming_def)+
  then show "conforming valid rely s' \<and> now (store_state s) \<le> now (store_state s') \<and>
     (now (store_state s') \<le> limit \<longrightarrow> guar (store_state s) (store_state s') \<and> P (store_state s'))"
    using rely_safe assms(2) s(2) unfolding stable_def by (meson order_trans)
qed

lemma sat_ex: "(\<And>x. sat (P x) m Q) \<Longrightarrow> sat (\<lambda>a. \<exists>x. P x a) m Q"
  unfolding sat_def by meson

lemma sat_pure:
  assumes "sat P m Q" and "\<And>x a. b \<Longrightarrow> Q x a \<Longrightarrow> Q' x a"
  shows "sat (\<lambda>a. b \<and> P a) m Q'"
  unfolding sat_def
proof (intro allI impI)
  fix s r s' assume s: "conforming valid rely s" "now (store_state s) \<le> limit \<longrightarrow> b \<and> P (store_state s)" "run_state m s = (r, s')"
  note m = satD [OF assms(1) s(1) conjunct2 [OF s(2) [rule_format]] s(3)]
  show "conforming valid rely s' \<and> now (store_state s) \<le> now (store_state s') \<and>
     (now (store_state s') \<le> limit \<longrightarrow> guar (store_state s) (store_state s') \<and> Q' r (store_state s'))"
    using m s(2) assms(2) by auto
qed

text \<open>What is known of the time and of the execution itself goes through a program.\<close>

lemma sat_later: "sat P m Q \<Longrightarrow> sat (\<lambda>a. T \<le> now a \<and> P a) m (\<lambda>x b. T \<le> now b \<and> Q x b)"
  unfolding sat_def by (meson order_trans)

lemma sat_ran: "sat P m Q \<Longrightarrow> sat P m (\<lambda>x b. Q x b \<and> (\<exists>v v'. run_state m v = (x, v') \<and> store_state v' = b \<and> P (store_state v)))"
  unfolding sat_def
proof (intro allI impI)
  fix s x s' assume sat: "\<forall>s r s'. conforming valid rely s \<longrightarrow> (now (store_state s) \<le> limit \<longrightarrow> P (store_state s)) \<longrightarrow> run_state m s = (r, s') \<longrightarrow>
     conforming valid rely s' \<and> now (store_state s) \<le> now (store_state s') \<and>
     (now (store_state s') \<le> limit \<longrightarrow> guar (store_state s) (store_state s') \<and> Q r (store_state s'))"
    and s: "conforming valid rely s" "now (store_state s) \<le> limit \<longrightarrow> P (store_state s)" "run_state m s = (x, s')"
  from sat [rule_format, OF s(1) s(2) [rule_format] s(3)]
  show "conforming valid rely s' \<and> now (store_state s) \<le> now (store_state s') \<and>
     (now (store_state s') \<le> limit \<longrightarrow> guar (store_state s) (store_state s') \<and> Q x (store_state s') \<and>
       (\<exists>v v'. run_state m v = (x, v') \<and> store_state v' = store_state s' \<and> P (store_state v)))"
    using s(2,3) order_trans by blast
qed

text \<open>A call with a context: one that is certainly alive, and one that may be over, when nothing is sent.\<close>

lemma sat_ctx_alive:
  assumes "sat P clk (\<lambda>x a. ctx_Err c x = None \<and> P a)" and "sat P m Q"
  shows "sat P (ctx_call c clk m) Q"
  unfolding ctx_call_def
proof (rule sat_bind [OF assms(1)])
  show "sat (\<lambda>a. ctx_Err c x = None \<and> P a) (case ctx_Err c x of None \<Rightarrow> m | Some e \<Rightarrow> fail e) Q" for x
    using assms(2) by (cases "ctx_Err c x") (simp_all add: sat_ret)
qed

lemma sat_ctx_any:
  assumes "sat P clk (\<lambda>_. P)" and "sat P m (\<lambda>_. Q)" and "\<And>a. P a \<Longrightarrow> Q a"
  shows "sat P (ctx_call c clk m) (\<lambda>_. Q)"
  unfolding ctx_call_def
proof (rule sat_bind [OF assms(1)])
  show "sat P (case ctx_Err c x of None \<Rightarrow> m | Some e \<Rightarrow> fail e) (\<lambda>_. Q)" for x
    using assms(2,3) by (cases "ctx_Err c x") (simp_all add: sat_ret)
qed

text \<open>A call: the others act first, so the assertion before it has to be stable.\<close>

lemma sat_call:
  assumes "stable P" and "\<And>a r b. valid a \<Longrightarrow> run_state m a = (r, b) \<Longrightarrow> valid b \<and> now a \<le> now b \<and> (P a \<longrightarrow> now b \<le> limit \<longrightarrow> guar a b \<and> Q r b)"
  shows "sat P (interrupted m) Q"
  unfolding sat_def
proof (intro allI impI)
  fix s r s' assume s: "conforming valid rely s" "now (store_state s) \<le> limit \<longrightarrow> P (store_state s)" "run_state (interrupted m) s = (r, s')"
  obtain a l where a: "(case others s of [] \<Rightarrow> (store_state s, election s) | f # _ \<Rightarrow> f (store_state s, election s)) = (a, l)"
    by fastforce
  have valid: "valid (store_state s)" using s(1) by (simp add: conforming_def)
  have before: "valid a \<and> now (store_state s) \<le> now a \<and> (now a \<le> limit \<longrightarrow> guar (store_state s) a \<and> P a)"
  proof (cases "others s")
    case Nil
    then show ?thesis using a valid s(2) guar_refl by simp
  next
    case (Cons f fs)
    then have "f (store_state s, election s) = (a, l)" "\<forall>b l. valid b \<longrightarrow> rely b (fst (f (b, l)))"
      using a s(1) by (simp_all add: conforming_def)
    then have "rely (store_state s) a" using valid by (metis fst_conv)
    then show ?thesis using rely_safe valid assms(1) s(2) unfolding stable_def by (meson order_trans)
  qed
  obtain b where m: "run_state m a = (r, b)" and s': "s' = \<lparr>store_state = b, election = l, others = tl (others s)\<rparr>"
    using s(3) a by (auto simp: interrupted_def split: prod.splits)
  note call = assms(2) [OF _ m]
  have "conforming valid rely s'" using s(1) s' call before by (cases "others s") (auto simp: conforming_def)
  then show "conforming valid rely s' \<and> now (store_state s) \<le> now (store_state s') \<and>
     (now (store_state s') \<le> limit \<longrightarrow> guar (store_state s) (store_state s') \<and> Q r (store_state s'))"
    using s' call before by (auto intro: guar_trans)
qed

end


subsection \<open>A worker under any faults\<close>

text \<open>The calls of everybody but the holder of the run \<open>u\<close>.\<close>

definition other_calls :: "uid \<Rightarrow> world \<Rightarrow> run_call \<Rightarrow> bool" where
  "other_calls u w call \<longleftrightarrow> foreign u w call \<and> holder_calls w call"

lemma service_step_mono: "service_step A w w' \<Longrightarrow> (\<And>w call. A w call \<Longrightarrow> B w call) \<Longrightarrow> service_step B w w'"
  by (induction rule: service_step.induct) (auto intro: service_step.intros)

lemma other_steps:
  assumes "(service_step (other_calls u))\<^sup>*\<^sup>* w w'"
  shows "(service_step (foreign u))\<^sup>*\<^sup>* w w'" and "(service_step holder_calls)\<^sup>*\<^sup>* w w'"
  using assms by (auto simp: other_calls_def elim!: rtranclp_mono [THEN predicate2D, rotated] intro: service_step_mono)

lemma services_wf: "(service_step allowed)\<^sup>*\<^sup>* w w' \<Longrightarrow> wf_world w \<Longrightarrow> wf_world w'"
  by (induction rule: rtranclp_induct) (auto dest: service_wf)

interpretation faulty: rely_guarantee wf_world clock "(service_step (other_calls u))\<^sup>*\<^sup>*" "(service_step holder_calls)\<^sup>*\<^sup>*" t for u t
  by unfold_locales (auto dest: foreign_clock services_wf other_steps(2))

text \<open>The run \<open>u\<close> is under a lease until \<open>t\<close>, in one of the states \<open>S\<close>.\<close>

definition in_phase :: "time \<Rightarrow> uid \<Rightarrow> run_status set \<Rightarrow> world \<Rightarrow> bool" where
  "in_phase t u S w \<longleftrightarrow> (\<exists>r. held_until t r w \<and> run_ID r = u \<and> run_Status r \<in> S \<and> run_LeaseExpiresAt r = Some t)"

lemma in_phase_stable: "faulty.stable u t (in_phase t u S)"
  unfolding faulty.stable_def
proof (intro allI impI)
  fix w w' assume "(service_step (other_calls u))\<^sup>*\<^sup>* w w'" "clock w' \<le> t" "in_phase t u S w"
  then show "in_phase t u S w'" using foreign_keeps_held other_steps(1) unfolding in_phase_def by blast
qed

lemma in_phase_names:
  assumes "in_phase t u S w" and "S \<subseteq> S'"
  shows "names_only S' w u"
proof -
  obtain r where r: "held_until t r w" "run_ID r = u" "run_Status r \<in> S" using assms(1) by (auto simp: in_phase_def)
  then have here: "r \<in> set (job_runs (primary w))" and wf: "wf_world w" by (simp_all add: held_until_def)
  have "uuid_in w u = Some u" using wf_worldD(3) [OF wf] run_in_exists [OF here] r(2) by blast
  then show ?thesis
    using distinct_key_unique [OF integrity_runs [OF wf_worldD(2) [OF wf]] here] r assms(2) by (auto simp: names_only_def)
qed

lemma in_phase_change:
  assumes "in_phase t u S w" and "rows_change C w w'" and "wf_world w'" and "S \<subseteq> S'" and "RunStatusPending \<notin> S'"
    and "\<And>r r'. C r r' \<Longrightarrow> run_ID r' = run_ID r \<and> run_LeaseExpiresAt r' = run_LeaseExpiresAt r \<and> run_Status r' \<in> S'"
  shows "in_phase t u S' w'"
proof -
  obtain r where r: "held_until t r w" "run_ID r = u" "run_Status r \<in> S" "run_LeaseExpiresAt r = Some t"
    using assms(1) by (auto simp: in_phase_def)
  obtain p g where rows: "job_runs (primary w') = update_where p g (job_runs (primary w))"
    and C: "\<And>r. r \<in> set (job_runs (primary w)) \<Longrightarrow> p r \<Longrightarrow> C r (g r)" using assms(2) by (auto simp: rows_change_def)
  let ?r = "if p r then g r else r"
  have here: "r \<in> set (job_runs (primary w))" using r(1) by (simp add: held_until_def)
  then have "?r \<in> set (job_runs (primary w'))" unfolding rows in_update_where by blast
  moreover have "run_ID ?r = u" "run_LeaseExpiresAt ?r = Some t" "run_Status ?r \<in> S'"
    using assms(6) [OF C [OF here]] r assms(4) by auto
  ultimately show ?thesis using assms(3,5) unfolding in_phase_def held_until_def by (intro exI [of _ ?r]) auto
qed

text \<open>A call of the holder: it is one of \<open>holder_calls\<close>, and leaves the run in the states \<open>Q\<close> speaks of.\<close>

lemma holder_call:
  assumes "\<And>w. in_phase t u S w \<Longrightarrow> service_step holder_calls w (snd (run_state m w))"
    and "\<And>w. service_step (\<lambda>_ _. True) w (snd (run_state m w))"
    and "\<And>w. in_phase t u S w \<Longrightarrow> wf_world (snd (run_state m w)) \<Longrightarrow> Q (snd (run_state m w))"
  shows "faulty.sat u t (in_phase t u S) (interrupted m) (\<lambda>_. Q)"
proof (rule faulty.sat_call [OF in_phase_stable])
  fix w r w' assume wf: "wf_world w" and m: "run_state m w = (r, w')"
  then have w': "w' = snd (run_state m w)" by simp
  have "wf_world w'" "clock w \<le> clock w'" unfolding w' using service_wf [OF assms(2) wf] service_frame [OF assms(2)] by simp_all
  then show "wf_world w' \<and> clock w \<le> clock w' \<and> (in_phase t u S w \<longrightarrow> clock w' \<le> t \<longrightarrow> (service_step holder_calls)\<^sup>*\<^sup>* w w' \<and> Q w')"
    using assms(1,3) w' by auto
qed


abbreviation under_lease :: "run_status set" where
  "under_lease \<equiv> {RunStatusLeased, RunStatusRunning}"

lemma shared_calls:
  "api_MarkRunning (shared st) i = interrupted (api_MarkRunning st i)"
  "api_CompleteRun (shared st) i res = interrupted (api_CompleteRun st i res)"
  "api_FailRun (shared st) i m rq bo = interrupted (api_FailRun st i m rq bo)"
  "api_MarkDead (shared st) i reason = interrupted (api_MarkDead st i reason)"
  by (simp_all add: shared_def)

lemma MarkRunning_sat:
  "faulty.sat u t (in_phase t u {RunStatusLeased}) (interrupted (MarkRunning u)) (\<lambda>_. in_phase t u under_lease)"
  by (rule holder_call)
    (auto intro!: service_step.mark_running in_phase_names in_phase_change [OF _ MarkRunning_rows] simp: mark_running_row_def)

lemma CompleteRun_sat: "faulty.sat u t (in_phase t u under_lease) (interrupted (CompleteRun u res)) (\<lambda>_ _. True)"
  by (rule holder_call) (auto intro!: service_step.complete_run in_phase_names)

lemma requeue_sat: "faulty.sat u t (in_phase t u under_lease) (interrupted (FailRun u m True bo)) (\<lambda>_ _. True)"
  by (rule holder_call) (auto intro!: service_step.fail_run in_phase_names)

lemma fail_sat:
  "faulty.sat u t (in_phase t u under_lease) (interrupted (FailRun u m False bo)) (\<lambda>_. in_phase t u {RunStatusLeased, RunStatusRunning, RunStatusFailed})"
  by (rule holder_call)
    (auto intro!: service_step.fail_run in_phase_names in_phase_change [OF _ FailRun_rows] simp: fail_row_def)

lemma MarkDead_sat:
  "faulty.sat u t (in_phase t u {RunStatusLeased, RunStatusRunning, RunStatusFailed}) (interrupted (MarkDead u reason)) (\<lambda>_ _. True)"
  by (rule holder_call) (auto intro!: service_step.mark_dead in_phase_names)

lemma clock_sat: "faulty.sat u t (in_phase t u S) (interrupted (host_clock skew)) (\<lambda>_. in_phase t u S)"
  by (rule faulty.sat_call [OF in_phase_stable]) (simp add: host_clock_def)

lemma fail_and_bury_sat:
  assumes "Store p = shared pg_store"
  shows "faulty.sat u t (in_phase t u under_lease) (fail_and_bury p (interrupted (host_clock skew)) ctx u msg reason) (\<lambda>_ _. True)"
  unfolding fail_and_bury_def assms shared_calls pg_store_simps
  by (rule faulty.sat_bind [OF faulty.sat_ctx_any [OF clock_sat fail_sat]], fastforce simp: in_phase_def,
      rule faulty.sat_bind [OF faulty.sat_ctx_any [OF clock_sat MarkDead_sat]], simp, rule faulty.sat_ret) simp

lemma finish_run_sat:
  assumes "Store p = shared pg_store"
  shows "faulty.sat (run_ID run) t (in_phase t (run_ID run) under_lease) (finish_run p (interrupted (host_clock skew)) ctx run job oc) (\<lambda>_ _. True)"
proof (cases oc)
  case (Inl e)
  have "faulty.sat (run_ID run) t (in_phase t (run_ID run) under_lease)
      (do { _ \<leftarrow> ctx_call ctx (interrupted (host_clock skew))
              (api_FailRun (Store p) (run_ID run) (Error e) True (retry_backoff (run_Attempt run))); ret () }) (\<lambda>_ _. True)"
    unfolding assms shared_calls pg_store_simps
    by (rule faulty.sat_bind [OF faulty.sat_ctx_any [OF clock_sat requeue_sat]], simp, rule faulty.sat_ret) simp
  then show ?thesis using fail_and_bury_sat [OF assms] Inl by (simp add: finish_run_def)
next
  case (Inr result)
  show ?thesis unfolding finish_run_def Inr sum.case assms shared_calls pg_store_simps
    by (rule faulty.sat_bind [OF faulty.sat_ctx_any [OF clock_sat CompleteRun_sat]], simp, rule faulty.sat_ret) simp
qed

lemma executeOne_sat:
  assumes "Store p = shared pg_store"
    and "\<And>h c. handlers p (job_Name job) = Some h \<Longrightarrow> only_waits wf_world (service_step (other_calls (run_ID run)))\<^sup>*\<^sup>* (h c job run)"
  shows "faulty.sat (run_ID run) t (in_phase t (run_ID run) {RunStatusLeased})
    (executeOne p (interrupted (host_clock skew)) ctx run job) (\<lambda>_ _. True)"
proof (cases "handlers p (job_Name job)")
  case None
  show ?thesis unfolding executeOne_def None option.case
    by (rule faulty.sat_weaken [OF fail_and_bury_sat [OF assms(1)]]) (auto simp: in_phase_def)
next
  case (Some h)
  have start: "faulty.sat (run_ID run) t (in_phase t (run_ID run) {RunStatusLeased})
      (ctx_call ctx (interrupted (host_clock skew)) (interrupted (MarkRunning (run_ID run)))) (\<lambda>_. in_phase t (run_ID run) under_lease)"
    by (rule faulty.sat_ctx_any [OF clock_sat MarkRunning_sat]) (fastforce simp: in_phase_def)
  show ?thesis unfolding executeOne_def Some option.case Let_def assms(1) shared_calls pg_store_simps
    by (rule faulty.sat_bind [OF start], rule faulty.sat_bind [OF clock_sat],
        rule faulty.sat_bind [OF faulty.sat_waits [OF assms(2) [OF Some] in_phase_stable]],
        rule faulty.sat_bind [OF clock_sat], rule finish_run_sat [OF assms(1)])
qed


subsection \<open>A worker on a calm database\<close>

text \<open>The same worker while no call of it fails; the others still do what they like except naming its run.\<close>

definition calm_others :: "uid \<Rightarrow> world \<Rightarrow> world \<Rightarrow> bool" where
  "calm_others u w w' \<longleftrightarrow> (service_step (foreign u))\<^sup>*\<^sup>* w w' \<and> script w' = []"

lemma services_replica: "(service_step allowed)\<^sup>*\<^sup>* w w' \<Longrightarrow> replica w' = replica w"
  by (induction rule: rtranclp_induct) (auto dest: service_frame)

interpretation calm: rely_guarantee good clock "calm_others u" "\<lambda>_ _. True" t for u t
  by unfold_locales (auto simp: calm_others_def good_def dest: foreign_clock services_wf services_replica)

definition holds_row :: "time \<Rightarrow> run_row \<Rightarrow> world \<Rightarrow> bool" where
  "holds_row t r w \<longleftrightarrow> held_until t r w \<and> good w"

lemma holds_row_stable: "L \<le> t \<Longrightarrow> calm.stable (run_ID r) L (holds_row t r)"
  unfolding calm.stable_def holds_row_def
  by (auto simp: calm_others_def good_def services_replica intro: foreign_keeps_held services_wf)

lemma holds_rowD:
  assumes "holds_row t r w"
  shows "good w" and "r \<in> set (job_runs (primary w))" and "uuid_in w (run_ID r) = Some (run_ID r)" and "run_exists (run_ID r) (primary w)"
  using assms run_in_exists [of r] good_uuid by (auto simp: holds_row_def held_until_def)

text \<open>A call of the holder on a good database.\<close>

lemma calm_call:
  assumes "\<And>w x w'. good w \<Longrightarrow> run_state m w = (x, w') \<Longrightarrow> good w'" and "\<And>w. service_step (\<lambda>_ _. True) w (snd (run_state m w))"
    and "\<And>w. holds_row t r w \<Longrightarrow> clock w \<le> t \<Longrightarrow> Q (snd (run_state m w))"
    and "L \<le> t"
  shows "calm.sat (run_ID r) L (holds_row t r) (interrupted m) (\<lambda>_. Q)"
proof (rule calm.sat_call [OF holds_row_stable [OF assms(4)]])
  fix w x w' assume "good w" and m: "run_state m w = (x, w')"
  moreover have "clock w \<le> clock w'" using service_frame [OF assms(2), of w] m by simp
  ultimately show "good w' \<and> clock w \<le> clock w' \<and> (holds_row t r w \<longrightarrow> clock w' \<le> L \<longrightarrow> True \<and> Q w')"
    using assms(1,3) [of w] assms(4) m by auto
qed

lemma edited_row: "r \<in> set (job_runs (primary w)) \<Longrightarrow> f r \<in> set (job_runs (primary (edit_run (run_ID r) f w)))"
  by (auto simp: in_update_where)

lemma holds_edited:
  assumes "holds_row t r w" and "good (edit_run (run_ID r) f w)" and "run_Status (f r) \<noteq> RunStatusPending"
    and "run_LeaseExpiresAt (f r) = run_LeaseExpiresAt r" and "run_LeaseExpiresAt r = Some t"
  shows "holds_row t (f r) (edit_run (run_ID r) f w)"
  using assms edited_row [OF holds_rowD(2) [OF assms(1)], of f] by (simp add: holds_row_def held_until_def good_def)

lemma calm_MarkRunning:
  assumes "run_LeaseExpiresAt r = Some t" and "L \<le> t"
  shows "calm.sat (run_ID r) L (holds_row t r) (interrupted (MarkRunning (run_ID r)))
    (\<lambda>_ w. \<exists>now. holds_row t (mark_running_row now r) w)"
proof (rule calm_call)
  fix w assume w: "holds_row t r w"
  note h = holds_rowD [OF w]
  have run: "run_state (MarkRunning (run_ID r)) w = (Inr (), edit_run (run_ID r) (mark_running_row (clock w)) w)"
    using MarkRunning_good [OF h(1,3)] h(4) by simp
  show "\<exists>now. holds_row t (mark_running_row now r) (snd (run_state (MarkRunning (run_ID r)) w))"
    unfolding run snd_conv by (rule exI [of _ "clock w"], rule holds_edited [OF w good_store(6) [OF h(1) run]])
      (simp_all add: mark_running_row_def assms)
qed (auto intro: good_store service_step.mark_running assms)


text \<open>What the worker made of its run: the row, and the dead letter of a run that is buried.\<close>

definition buried :: "run_row \<Rightarrow> string \<Rightarrow> string \<Rightarrow> world \<Rightarrow> bool" where
  "buried r msg reason w \<longleftrightarrow> (\<exists>now. (fail_row msg now r)\<lparr>run_Status := RunStatusDead\<rparr> \<in> set (job_runs (primary w))) \<and>
     (\<exists>l\<in>set (dead_letters (primary w)). dl_JobRunID l = run_ID r \<and> dl_Reason l = reason \<and>
       (\<exists>result. dl_Payload l = GObj [(''result'', result), (''error'', GStr msg)]))"

definition settled :: "JobRun \<Rightarrow> job \<Rightarrow> err + gomap \<Rightarrow> run_row \<Rightarrow> world \<Rightarrow> bool" where
  "settled run job oc r w \<longleftrightarrow> (case oc of
     Inr result \<Rightarrow> (\<exists>now. (case json_Marshal result of Inr raw \<Rightarrow> complete_row raw now r | Inl _ \<Rightarrow> r) \<in> set (job_runs (primary w)))
   | Inl e \<Rightarrow> if sint (run_Attempt run) < sint (job_MaxAttempts job)
       then \<exists>now. requeue_row (retry_backoff (run_Attempt run)) (Error e) now r \<in> set (job_runs (primary w))
       else buried r (Error e) ''max attempts exceeded'' w)"

lemma calm_FailRun:
  assumes "run_LeaseExpiresAt r = Some t" and "L \<le> t"
  shows "calm.sat (run_ID r) L (holds_row t r) (interrupted (FailRun (run_ID r) msg False bo)) (\<lambda>_ w. \<exists>now. holds_row t (fail_row msg now r) w)"
proof (rule calm_call)
  fix w assume w: "holds_row t r w"
  note h = holds_rowD [OF w]
  have run: "run_state (FailRun (run_ID r) msg False bo) w = (Inr (), edit_run (run_ID r) (fail_row msg (clock w)) w)"
    using FailRun_good [OF h(1,3)] h(4) by simp
  show "\<exists>now. holds_row t (fail_row msg now r) (snd (run_state (FailRun (run_ID r) msg False bo) w))"
    unfolding run snd_conv by (rule exI [of _ "clock w"], rule holds_edited [OF w good_store(8) [OF h(1) run]])
      (simp_all add: fail_row_def assms)
qed (auto intro: good_store service_step.fail_run assms)

lemma calm_MarkDead:
  "L \<le> t \<Longrightarrow> calm.sat (run_ID r) L (holds_row t (fail_row msg now r)) (interrupted (MarkDead (run_ID r) reason)) (\<lambda>_. buried r msg reason)"
proof -
  assume L: "L \<le> t"
  let ?r = "fail_row msg now r"
  have "calm.sat (run_ID ?r) L (holds_row t ?r) (interrupted (MarkDead (run_ID r) reason)) (\<lambda>_. buried r msg reason)"
  proof (rule calm_call)
    fix w assume w: "holds_row t ?r w"
    note h = holds_rowD [OF w]
    obtain raw where raw: "json_Marshal (dead_letter_payload (run_view ?r)) = Inr raw"
      using json_Marshal_dead_letter [of ?r] integrity_run [OF good_fields(4) [OF h(1)] h(2)] by auto
    have "run_Error ?r = Some msg" by (simp add: fail_row_def)
    then obtain result where "raw = GObj [(''result'', result), (''error'', GStr msg)]" using dead_letter_error raw by blast
    moreover have run: "run_state (MarkDead (run_ID r) reason) w = (Inr (), edit_run (run_ID ?r) (\<lambda>r. r\<lparr>run_Status := RunStatusDead\<rparr>)
        (write_db (\<lambda>d. d\<lparr>dead_letters := dead_letters d @ [\<lparr>dl_ID = uuid_gen w (uuid_next w), dl_JobRunID = run_ID ?r,
           dl_Reason = reason, dl_Payload = raw, dl_CreatedAt = clock w\<rparr>]\<rparr>) (w\<lparr>uuid_next := Suc (uuid_next w)\<rparr>)))"
      by (rule MarkDead_good [OF h(1) _ h(2) raw]) (use h(3) in \<open>simp add: fail_row_def\<close>)
    moreover have "?r\<lparr>run_Status := RunStatusDead\<rparr> \<in> set (job_runs (primary (snd (run_state (MarkDead (run_ID r) reason) w))))"
      unfolding run snd_conv by (rule edited_row) (simp add: write_db_def h(2))
    ultimately show "buried r msg reason (snd (run_state (MarkDead (run_ID r) reason) w))"
      by (auto simp: buried_def edit_run_primary write_db_def fail_row_def)
  qed (auto intro: good_store service_step.mark_dead L)
  then show ?thesis by (simp add: fail_row_def)
qed

text \<open>A call with the pool's context, which is alive up to the limit.\<close>

lemma calm_ctx:
  assumes "calm.sat (run_ID r) L (holds_row t r) m Q" and "ctx_Err ctx (L + skew) = None" and "L \<le> t"
  shows "calm.sat (run_ID r) L (holds_row t r) (ctx_call ctx (interrupted (host_clock skew)) m) Q"
proof (rule calm.sat_ctx_alive [OF calm.sat_call [OF holds_row_stable [OF assms(3)]] assms(1)])
  fix a x b assume "good a" "run_state (host_clock skew) a = (x, b)"
  then show "good b \<and> clock a \<le> clock b \<and> (holds_row t r a \<longrightarrow> clock b \<le> L \<longrightarrow> True \<and> ctx_Err ctx x = None \<and> holds_row t r b)"
    using ctx_Err_mono [OF assms(2)] by (auto simp: run_host_clock)
qed

lemma calm_bury:
  assumes "Store p = shared pg_store" and "run_LeaseExpiresAt r = Some t" and "ctx_Err ctx (L + skew) = None" and "L \<le> t"
  shows "calm.sat (run_ID r) L (holds_row t r) (fail_and_bury p (interrupted (host_clock skew)) ctx (run_ID r) msg reason) (\<lambda>_. buried r msg reason)"
proof -
  have failed: "run_ID (fail_row msg now r) = run_ID r" for now by (simp add: fail_row_def)
  note dead = calm_ctx [of "fail_row msg _ r", unfolded failed, OF calm_MarkDead [OF assms(4)] assms(3,4)]
  show ?thesis unfolding fail_and_bury_def assms(1) shared_calls pg_store_simps
    by (rule calm.sat_bind [OF calm_ctx [OF calm_FailRun [OF assms(2,4)] assms(3,4)]],
        rule calm.sat_bind [OF calm.sat_ex [OF dead]], rule calm.sat_ret)
qed

lemma calm_CompleteRun:
  assumes "L \<le> t"
  shows "calm.sat (run_ID r) L (holds_row t r) (interrupted (CompleteRun (run_ID r) result)) (\<lambda>_. settled run job (Inr result) r)"
proof (rule calm_call)
  fix w assume w: "holds_row t r w"
  note h = holds_rowD [OF w]
  show "settled run job (Inr result) r (snd (run_state (CompleteRun (run_ID r) result) w))"
  proof (cases "json_Marshal result")
    case (Inl e)
    then show ?thesis using h(2) by (simp add: settled_def CompleteRun_unmarshalable)
  next
    case (Inr raw)
    then show ?thesis using CompleteRun_good [OF h(1,3) Inr] edited_row [OF h(2)] by (auto simp: settled_def)
  qed
qed (auto intro: good_store service_step.complete_run assms)

lemma calm_requeue:
  assumes "L \<le> t"
  shows "calm.sat (run_ID r) L (holds_row t r) (interrupted (FailRun (run_ID r) msg True bo))
    (\<lambda>_ w. \<exists>now. requeue_row bo msg now r \<in> set (job_runs (primary w)))"
proof (rule calm_call)
  fix w assume w: "holds_row t r w"
  note h = holds_rowD [OF w]
  show "\<exists>now. requeue_row bo msg now r \<in> set (job_runs (primary (snd (run_state (FailRun (run_ID r) msg True bo) w))))"
    using FailRun_good [OF h(1,3), of msg True bo] edited_row [OF h(2)] by auto
qed (auto intro: good_store service_step.fail_run assms)

lemma calm_finish:
  assumes "Store p = shared pg_store" and "run_LeaseExpiresAt r = Some t" and "run_ID run = run_ID r"
    and "ctx_Err ctx (L + skew) = None" and "L \<le> t"
  shows "calm.sat (run_ID r) L (holds_row t r) (finish_run p (interrupted (host_clock skew)) ctx run job oc) (\<lambda>_. settled run job oc r)"
proof (cases oc)
  case (Inl e)
  have again: "calm.sat (run_ID r) L (holds_row t r)
      (do { _ \<leftarrow> ctx_call ctx (interrupted (host_clock skew))
              (api_FailRun (Store p) (run_ID r) (Error e) True (retry_backoff (run_Attempt run))); ret () })
      (\<lambda>_ w. \<exists>now. requeue_row (retry_backoff (run_Attempt run)) (Error e) now r \<in> set (job_runs (primary w)))"
    unfolding assms(1) shared_calls pg_store_simps
    by (rule calm.sat_bind [OF calm_ctx [OF calm_requeue [OF assms(5)] assms(4,5)]], rule calm.sat_ret)
  have "settled run job oc r = (if sint (run_Attempt run) < sint (job_MaxAttempts job)
      then \<lambda>w. \<exists>now. requeue_row (retry_backoff (run_Attempt run)) (Error e) now r \<in> set (job_runs (primary w))
      else buried r (Error e) ''max attempts exceeded'')" by (auto simp: settled_def Inl fun_eq_iff)
  then show ?thesis using again calm_bury [OF assms(1,2,4,5)] Inl assms(3) by (simp add: finish_run_def word_sless_alt)
next
  case (Inr result)
  show ?thesis unfolding finish_run_def Inr sum.case assms(1,3) shared_calls pg_store_simps
    by (rule calm.sat_bind [OF calm_ctx [OF calm_CompleteRun [OF assms(5)] assms(4,5)]], rule calm.sat_ret)
qed

text \<open>The handler started when the host's clock showed \<open>started\<close> and had returned \<open>res\<close> when it showed \<open>stopped\<close>.\<close>

definition handler_took :: "((world, 'l) shared_state, err + gomap) state \<Rightarrow> int \<Rightarrow> time \<Rightarrow> time \<Rightarrow> err + gomap \<Rightarrow> bool" where
  "handler_took m skew started stopped res \<longleftrightarrow> (\<exists>v v'. run_state m v = (res, v') \<and>
     clock (store_state v) + skew = started \<and> clock (store_state v') + skew \<le> stopped)"

text \<open>The three steps around the handler: the clock is read, the handler runs, the clock is read again.\<close>

lemma calm_started:
  assumes "L \<le> t"
  shows "calm.sat (run_ID r) L (holds_row t r) (interrupted (host_clock skew)) (\<lambda>started w. holds_row t r w \<and> clock w + skew = started)"
  by (rule calm.sat_call [OF holds_row_stable [OF assms]]) (auto simp: run_host_clock)

lemma calm_handler:
  assumes "only_waits good (calm_others (run_ID r)) m" and "L \<le> t"
  shows "calm.sat (run_ID r) L (\<lambda>w. holds_row t r w \<and> clock w + skew = started) m
    (\<lambda>res w. holds_row t r w \<and> handler_took m skew started (clock w + skew) res)"
proof -
  have "calm.sat (run_ID r) L (\<lambda>w. holds_row t r w \<and> clock w + skew = started) m (\<lambda>_. holds_row t r)"
    by (rule calm.sat_weaken [OF calm.sat_waits [OF assms(1) holds_row_stable [OF assms(2)]]]) simp_all
  from calm.sat_ran [OF this] show ?thesis by (rule calm.sat_weaken) (auto simp: handler_took_def)
qed

lemma calm_stopped:
  assumes "L \<le> t"
  shows "calm.sat (run_ID r) L (\<lambda>w. holds_row t r w \<and> handler_took m skew started (clock w + skew) res) (interrupted (host_clock skew))
    (\<lambda>stopped w. handler_took m skew started stopped res \<and> stopped - skew \<le> clock w \<and> holds_row t r w)"
proof (rule calm.sat_call)
  have "handler_took m skew started (b + skew) res" if "handler_took m skew started (a + skew) res" "a \<le> b" for a b
    using that unfolding handler_took_def by force
  then show "calm.stable (run_ID r) L (\<lambda>w. holds_row t r w \<and> handler_took m skew started (clock w + skew) res)"
    using holds_row_stable [OF assms, of r] unfolding calm.stable_def by (auto simp: calm_others_def dest: foreign_clock)
qed (auto simp: run_host_clock)

abbreviation run_ctx :: "go_context \<Rightarrow> job \<Rightarrow> time \<Rightarrow> go_context" where
  "run_ctx ctx job started \<equiv> WithTimeout ctx (run_timeout (job_TimeoutSeconds job)) started"

lemma calm_executeOne:
  assumes "Store p = shared pg_store" and "run_LeaseExpiresAt r = Some t" and "run_ID run = run_ID r"
    and "handlers p (job_Name job) = Some h" and "\<And>c. only_waits good (calm_others (run_ID r)) (h c job run)"
    and "ctx_Err ctx (L + skew) = None" and "L \<le> t"
  shows "calm.sat (run_ID r) L (\<lambda>w. T \<le> clock w \<and> holds_row t r w) (executeOne p (interrupted (host_clock skew)) ctx run job)
    (\<lambda>_ w. \<exists>started stopped res now. T \<le> started - skew \<and> handler_took (h (run_ctx ctx job started) job run) skew started stopped res \<and>
       stopped - skew \<le> clock w \<and> settled run job (outcome (run_ctx ctx job started) stopped res) (mark_running_row now r) w)"
proof -
  let ?runCtx = "run_ctx ctx job"
  let ?T = "\<lambda>started stopped res r w. handler_took (h (?runCtx started) job run) skew started stopped res \<and> stopped - skew \<le> clock w \<and>
       settled run job (outcome (?runCtx started) stopped res) r w"
  have rest: "calm.sat (run_ID r) L (\<lambda>w. T \<le> clock w \<and> holds_row t (mark_running_row now r) w)
      (do { started \<leftarrow> interrupted (host_clock skew);
            res \<leftarrow> h (?runCtx started) job run;
            stopped \<leftarrow> interrupted (host_clock skew);
            finish_run p (interrupted (host_clock skew)) ctx run job (outcome (?runCtx started) stopped res) })
      (\<lambda>_ w. \<exists>started stopped res now. T \<le> started - skew \<and> ?T started stopped res (mark_running_row now r) w)" for now
  proof -
    let ?r = "mark_running_row now r"
    have r: "run_ID ?r = run_ID r" "run_LeaseExpiresAt ?r = Some t" by (simp_all add: mark_running_row_def assms(2))
    have start: "calm.sat (run_ID r) L (\<lambda>w. T \<le> clock w \<and> holds_row t ?r w) (interrupted (host_clock skew))
        (\<lambda>started w. T \<le> started - skew \<and> holds_row t ?r w \<and> clock w + skew = started)"
      by (rule calm.sat_weaken [OF calm.sat_later [OF calm_started [of L t ?r, unfolded r(1), OF assms(7)]]]) auto
    have fin: "calm.sat (run_ID r) L (\<lambda>w. handler_took (h (?runCtx started) job run) skew started stopped res \<and> stopped - skew \<le> clock w \<and> holds_row t ?r w)
        (finish_run p (interrupted (host_clock skew)) ctx run job (outcome (?runCtx started) stopped res))
        (\<lambda>_ w. \<exists>stopped res. ?T started stopped res ?r w)" for started stopped res
      by (rule calm.sat_pure [OF calm.sat_later [OF calm_finish [of p ?r, unfolded r(1), OF assms(1) r(2) assms(3,6,7)]]]) blast
    have tail: "calm.sat (run_ID r) L (\<lambda>w. holds_row t ?r w \<and> clock w + skew = started)
      (do { res \<leftarrow> h (?runCtx started) job run;
            stopped \<leftarrow> interrupted (host_clock skew);
            finish_run p (interrupted (host_clock skew)) ctx run job (outcome (?runCtx started) stopped res) })
      (\<lambda>_ w. \<exists>stopped res. ?T started stopped res ?r w)" for started
      by (rule calm.sat_bind [OF calm_handler [of ?r, unfolded r(1), OF assms(5,7)]],
          rule calm.sat_bind [OF calm_stopped [of L t ?r, unfolded r(1), OF assms(7)] fin])
    show ?thesis by (rule calm.sat_bind [OF start], rule calm.sat_pure [OF tail]) blast
  qed
  show ?thesis unfolding executeOne_def assms(4) option.case Let_def assms(1) shared_calls pg_store_simps assms(3) outcome_def [symmetric]
    by (rule calm.sat_bind [where Q = "\<lambda>_ w. \<exists>now. T \<le> clock w \<and> holds_row t (mark_running_row now r) w"],
        rule calm.sat_weaken [OF calm.sat_later [OF calm_ctx [OF calm_MarkRunning [OF assms(2,7)] assms(6,7)]]],
        assumption, blast, rule calm.sat_ex [OF rest])
qed


lemma leased_row:
  assumes "wf_world w" and "run_state (LeaseNextRun x ld) w = (Inr (Some (run, job)), w')" and "run_LeaseExpiresAt run = Some t"
  obtains r where "held_until t r w'" and "run = run_view r" and "run_LeaseExpiresAt r = Some t" and "run_Status r = RunStatusLeased"
proof -
  obtain r t' where r: "held_until t' r w'" "run = run_view r" "run_LeaseExpiresAt run = Some t'"
    by (rule lease_held [OF assms(1,2)])
  obtain now r' where "run = run_view (lease_row x ld now r')" using LeaseNextRun_cases [OF assms(1,2)] by blast
  then have "run_Status run = RunStatusLeased" by (simp add: run_view_def run_of_row_def lease_row_def)
  then show ?thesis using that [of r] r assms(3) by (simp add: run_view_def run_of_row_def)
qed

subsection \<open>An example\<close>

text \<open>A worker that echoes the payload, with a janitor that acts between the lease and the start.\<close>

definition demo_shared :: "(world, unit) shared_state" where
  "demo_shared = \<lparr>store_state = demo_leased, election = (), others = [\<lambda>c. (snd (run_state ReclaimExpiredLeases (fst c)), snd c)]\<rparr>"

definition demo_shared_pool :: "(world, unit) shared_state pool" where
  "demo_shared_pool = \<lparr>Store = shared pg_store, WorkerID = ''w1'', LeaseDuration = 30000000000, PollInterval = 1000000000,
     handlers = [''echo'' \<mapsto> EchoHandler]\<rparr>"

abbreviation demo_lease_run :: JobRun where
  "demo_lease_run \<equiv> run_view (lease_row ''w1'' 30000000000 0 demo_run)"

lemma demo_lease_fields [simp]: "run_ID demo_lease_run = demo_uuid 1" "run_LeaseExpiresAt demo_lease_run = Some 30000000000"
  "run_Attempt (lease_row ''w1'' 30000000000 0 demo_run) = 1"
  by (simp_all add: run_view_def run_of_row_def lease_row_def)

lemma demo_shared_lease:
  "run_state (LeaseNextRun ''w1'' 30000000000) (demo_world demo_db 2) = (Inr (Some (demo_lease_run, demo_job_struct)), store_state demo_shared)"
  using demo_lease by (simp add: demo_shared_def demo_leased_def)

lemma echo_waits:
  "(\<And>s :: ('s, 'l) shared_state. conforming valid rely s \<Longrightarrow> rely (store_state s) (store_state s)) \<Longrightarrow>
    only_waits valid rely (EchoHandler c job run :: (('s, 'l) shared_state, err + gomap) state)"
  by (auto simp: only_waits_def EchoHandler_def)

lemma demo_exec:
  "\<exists>s'. run_state (executeOne demo_shared_pool (interrupted (host_clock 0)) demo_ctx demo_lease_run demo_job_struct) demo_shared = ((), s') \<and>
     clock (store_state s') = 0"
proof -
  let ?w1 = "edit_run (demo_uuid 1) (mark_running_row 0) demo_leased"
  have clk: "clock demo_leased = 0" by (simp add: demo_leased_def)
  have good: "good demo_leased" using good_store(4) [OF good_demo demo_lease [folded demo_leased_def]] .
  have "snd (run_state ReclaimExpiredLeases demo_leased) = demo_leased"
    using ReclaimExpiredLeases_good [OF good]
    by (simp add: clk update_where_none write_db_def) (simp add: demo_leased_def edit_run_def write_db_def lease_row_def lease_expired_def)
  moreover have mark: "run_state (MarkRunning (demo_uuid 1)) demo_leased = (Inr (), ?w1)"
    using MarkRunning_good [OF good demo_waiting(2)] demo_waiting(3) clk by simp
  moreover have "run_state (CompleteRun (demo_uuid 1) (Some [(''msg'', GStr ''hi'')])) ?w1 =
      (Inr (), edit_run (demo_uuid 1) (complete_row (GObj [(''msg'', GStr ''hi'')]) 0) ?w1)"
    using CompleteRun_good [OF good_store(6) [OF good mark], of "demo_uuid 1" "demo_uuid 1"] demo_waiting(2)
      run_edit_exists [OF good demo_waiting(3), of "mark_running_row 0"] clk by (simp add: json_Marshal_def)
  ultimately show ?thesis
    by (simp add: executeOne_def demo_shared_pool_def demo_shared_def shared_calls interrupted_def host_clock_def EchoHandler_def finish_run_def ctx_call_def
        clk demo_ctx_def WithTimeout_def ctx_Err_def ctx_done_at_def run_timeout_def time_Second_def)
qed

subsection \<open>Properties\<close>

text \<open>
  C22. A worker that finishes within its lease keeps the whole system inside the lifecycle, whatever fails, if the others do: it leases a run and executes it on the store
  it shares with all other services, which act between any two of its calls and while its handler runs, under any faults. Of them it is assumed
  that each calls only on runs it holds and never on this one, which holds while everybody is done within the lease. Then what
  happened to the store is a sequence of calls on runs their callers hold, so every run moved along the arrows of the lifecycle and its
  shortcuts, and this run from \<open>leased\<close> with the attempt it was leased with.
\<close>

theorem execution_follows_lifecycle:
  assumes "wf_world w" and "run_state (LeaseNextRun x ld) w = (Inr (Some (run, job)), store_state s)"
    and "conforming wf_world (service_step (other_calls (run_ID run)))\<^sup>*\<^sup>* s" and "Store p = shared pg_store"
    and "\<forall>h c. handlers p (job_Name job) = Some h \<longrightarrow> only_waits wf_world (service_step (other_calls (run_ID run)))\<^sup>*\<^sup>* (h c job run)"
    and "run_state (executeOne p (interrupted (host_clock skew)) ctx run job) s = ((), s')"
    and "run_LeaseExpiresAt run = Some t" and "clock (store_state s') \<le> t"
  shows "(service_step holder_calls)\<^sup>*\<^sup>* w (store_state s') \<and>
    (lifecycle_step taken)\<^sup>*\<^sup>* (run_states w) (run_states (store_state s')) \<and>
    (\<exists>b. run_states (store_state s') (run_ID run) = Some b \<and> taken\<^sup>*\<^sup>* (RunStatusLeased, sint (run_Attempt run)) b)"
proof -
  obtain r where r: "held_until t r (store_state s)" "run = run_view r" "run_LeaseExpiresAt r = Some t" "run_Status r = RunStatusLeased"
    by (rule leased_row [OF assms(1,2,7)])
  have start: "in_phase t (run_ID run) {RunStatusLeased} (store_state s)" using r by (auto simp: in_phase_def run_view_def run_of_row_def)
  have "faulty.sat (run_ID run) t (in_phase t (run_ID run) {RunStatusLeased})
      (executeOne p (interrupted (host_clock skew)) ctx run job) (\<lambda>_ _. True)"
    by (rule executeOne_sat [OF assms(4)]) (use assms(5) in blast)
  from faulty.satD(3) [OF this assms(3) start assms(6,8)]
  have exec: "(service_step holder_calls)\<^sup>*\<^sup>* (store_state s) (store_state s')" ..
  have lease: "service_step holder_calls w (store_state s)"
    using service_step.lease_next_run [of holder_calls w x ld] assms(2) by simp
  then have all: "(service_step holder_calls)\<^sup>*\<^sup>* w (store_state s')" using exec by (rule converse_rtranclp_into_rtranclp)
  have wf: "wf_world (store_state s)" using r(1) by (simp add: held_until_def)
  have "run_states (store_state s) (run_ID run) = Some (RunStatusLeased, sint (run_Attempt run))"
    using find_key [OF integrity_runs [OF wf_worldD(2) [OF wf]], of r] r
    by (simp add: run_states_def phase_of_def held_until_def run_view_def run_of_row_def)
  then show ?thesis
    using all holders.refines [OF all assms(1)] lifecycle_run_history [OF conjunct1 [OF holders.refines [OF exec wf]], of "run_ID run"] by simp
qed


theorem execution_follows_lifecycle_witness:
  "\<exists>s' b. run_state (executeOne demo_shared_pool (interrupted (host_clock 0)) demo_ctx demo_lease_run demo_job_struct) demo_shared = ((), s') \<and>
     run_states (store_state s') (demo_uuid 1) = Some b \<and> taken\<^sup>*\<^sup>* (RunStatusLeased, 1) b"
proof -
  obtain s' where s': "run_state (executeOne demo_shared_pool (interrupted (host_clock 0)) demo_ctx demo_lease_run demo_job_struct) demo_shared = ((), s')"
    "clock (store_state s') = 0" using demo_exec by blast
  let ?rely = "(service_step (other_calls (run_ID demo_lease_run)))\<^sup>*\<^sup>*"
  have others: "conforming wf_world ?rely demo_shared"
    using demo_waiting(1) by (auto simp: conforming_def demo_shared_def good_def wf_world_def intro: service_step.reclaim)
  have waits: "\<forall>h c. handlers demo_shared_pool (job_Name demo_job_struct) = Some h \<longrightarrow> only_waits wf_world ?rely (h c demo_job_struct demo_lease_run)"
    by (auto simp: demo_shared_pool_def intro: echo_waits split: if_splits)
  have "Store demo_shared_pool = shared pg_store" by (simp add: demo_shared_pool_def)
  from execution_follows_lifecycle [OF wf_demo(2) demo_shared_lease others this waits s'(1)] s' show ?thesis by auto
qed

text \<open>
  C23. What a worker decides within its lease is what the store has at the end, however many services are at work: it leases a run and executes it
  on a database whose calls do not fail, and everybody else does what they like between its calls and while the handler runs, except
  naming this run. If it is done before the lease expires and before the pool's context is over, then the row it leased has become the one it decided
  on. Without a handler it is dead with a dead letter. Otherwise the handler ran with a context that ends after the job's timeout, counted from its
  start; and what counts is its error, or the context's if the context was over when the clock was read after it returned, or else its result: the run is succeeded
  with the encoded result (or left running when the result has no encoding), back in the queue with the error and its backoff, or, with no attempts
  left, dead with a dead letter that has the error.
\<close>

theorem execution_within_lease:
  assumes "good w" and "run_state (LeaseNextRun x ld) w = (Inr (Some (run, job)), store_state s)"
    and "conforming good (calm_others (run_ID run)) s" and "Store p = shared pg_store"
    and "\<forall>h c. handlers p (job_Name job) = Some h \<longrightarrow> only_waits good (calm_others (run_ID run)) (h c job run)"
    and "run_state (executeOne p (interrupted (host_clock skew)) ctx run job) s = ((), s')"
    and "run_LeaseExpiresAt run = Some t" and "clock (store_state s') \<le> t" and "ctx_Err ctx (clock (store_state s') + skew) = None"
  shows "\<exists>r\<in>set (job_runs (primary (store_state s))). run = run_view r \<and> (case handlers p (job_Name job) of
      None \<Rightarrow> buried r (''no handler registered for job: '' @ job_Name job) ''no handler'' (store_state s')
    | Some h \<Rightarrow> \<exists>started stopped res now. clock (store_state s) \<le> started - skew \<and> handler_took (h (run_ctx ctx job started) job run) skew started stopped res \<and>
        stopped - skew \<le> clock (store_state s') \<and>
        settled run job (outcome (run_ctx ctx job started) stopped res) (mark_running_row now r) (store_state s'))"
proof -
  have wf: "wf_world w" using assms(1) by (simp add: good_def)
  obtain r where r: "held_until t r (store_state s)" "run = run_view r" "run_LeaseExpiresAt r = Some t"
    by (rule leased_row [OF wf assms(2,7)])
  have start: "holds_row t r (store_state s)" using r(1) good_store(4) [OF assms(1,2)] by (simp add: holds_row_def)
  have id: "run_ID run = run_ID r" using r(2) by (simp add: run_view_def run_of_row_def)
  note others = assms(3) [unfolded id]
  show ?thesis
  proof (intro bexI [of _ r] conjI)
    show "case handlers p (job_Name job) of
        None \<Rightarrow> buried r (''no handler registered for job: '' @ job_Name job) ''no handler'' (store_state s')
      | Some h \<Rightarrow> \<exists>started stopped res now. clock (store_state s) \<le> started - skew \<and> handler_took (h (run_ctx ctx job started) job run) skew started stopped res \<and>
          stopped - skew \<le> clock (store_state s') \<and>
          settled run job (outcome (run_ctx ctx job started) stopped res) (mark_running_row now r) (store_state s')"
    proof (cases "handlers p (job_Name job)")
      case None
      then have "run_state (fail_and_bury p (interrupted (host_clock skew)) ctx (run_ID r) (''no handler registered for job: '' @ job_Name job)
          ''no handler'') s = ((), s')"
        using assms(6) id by (simp add: executeOne_def)
      from calm.satD(3) [OF calm_bury [OF assms(4) r(3) assms(9,8)] others start this order_refl] show ?thesis by (simp add: None)
    next
      case (Some h)
      have waits: "only_waits good (calm_others (run_ID r)) (h c job run)" for c using assms(5) Some id by simp
      from calm.satD(3) [OF calm_executeOne [OF assms(4) r(3) id Some waits assms(9,8)] others conjI [OF order_refl start] assms(6) order_refl]
      show ?thesis by (simp add: Some)
    qed
  qed (use r start in \<open>simp_all add: held_until_def\<close>)
qed


theorem execution_within_lease_witness:
  "\<exists>s' r. run_state (executeOne demo_shared_pool (interrupted (host_clock 0)) demo_ctx demo_lease_run demo_job_struct) demo_shared = ((), s') \<and>
     r \<in> set (job_runs (primary (store_state s'))) \<and> run_ID r = demo_uuid 1 \<and> run_Attempt r = 1 \<and> run_Status r = RunStatusSucceeded"
proof -
  obtain s' where s': "run_state (executeOne demo_shared_pool (interrupted (host_clock 0)) demo_ctx demo_lease_run demo_job_struct) demo_shared = ((), s')"
    "clock (store_state s') = 0" using demo_exec by blast
  let ?rely = "calm_others (run_ID demo_lease_run)" and ?result = "Inr (Some [(''msg'', GStr ''hi'')])"
  have "good demo_leased" using good_store(4) [OF good_demo demo_lease [folded demo_leased_def]] .
  moreover have "?rely w (snd (run_state ReclaimExpiredLeases w))" if "good w" for w
    using good_store(10) [OF that surjective_pairing] by (auto simp: calm_others_def good_def intro: service_step.reclaim)
  ultimately have others: "conforming good ?rely demo_shared" by (simp add: conforming_def demo_shared_def)
  have waits: "\<forall>h c. handlers demo_shared_pool (job_Name demo_job_struct) = Some h \<longrightarrow> only_waits good ?rely (h c demo_job_struct demo_lease_run)"
    by (auto simp: demo_shared_pool_def calm_others_def conforming_def good_def intro: echo_waits split: if_splits)
  have "Store demo_shared_pool = shared pg_store" by (simp add: demo_shared_pool_def)
  from execution_within_lease [OF good_demo demo_shared_lease others this waits s'(1)] s'
  obtain r started stopped res now where r: "demo_lease_run = run_view r"
      "handler_took (EchoHandler (run_ctx demo_ctx demo_job_struct started) demo_job_struct demo_lease_run :: ((world, unit) shared_state, err + gomap) state)
        0 started stopped res" "0 \<le> started" "stopped \<le> 0"
      "settled demo_lease_run demo_job_struct (outcome (run_ctx demo_ctx demo_job_struct started) stopped res) (mark_running_row now r) (store_state s')"
    by (auto simp: demo_shared_pool_def demo_shared_def demo_leased_def)
  have "run_ID r = demo_uuid 1" "run_Attempt r = 1"
    using arg_cong [OF r(1), of run_ID] arg_cong [OF r(1), of run_Attempt] by simp_all
  moreover have "outcome (run_ctx demo_ctx demo_job_struct started) stopped res = ?result"
    using r(2-4) by (auto simp: handler_took_def EchoHandler_def outcome_def demo_ctx_def WithTimeout_def ctx_Err_def ctx_done_at_def run_timeout_exact)
  ultimately show ?thesis using r(5) s'(1)
    by (fastforce simp: settled_def json_Marshal_def complete_row_def mark_running_row_def)
qed

end
