(* ===== verification/Metrics.thy ===== *)
theory Metrics
  imports Service
begin

text \<open>
  The Prometheus collectors of \<open>src/internal/metrics/metrics.go\<close> and the code that feeds them: the handlers, loops and the cache with their
  metric calls, over the state of the plain ones paired with the \<open>metrics\<close>. The client library adds, sets and observes as it documents; its
  counters are exact here (they are float64, exact up to \<open>2^53\<close>), and a histogram is the list of its observations. Also
  \<open>requestLogger\<close> of \<open>src/internal/api/middleware.go\<close>, which observes every request.
\<close>

record metrics =
  JobsSubmitted :: nat
  RunsLeased :: "string \<Rightarrow> nat"
  RunsCompleted :: "string \<Rightarrow> nat"
  RunDuration :: "int list"
  QueueDepth :: nat
  LeasesReclaimed :: nat
  HTTPRequestDuration :: "string \<times> string \<times> string \<Rightarrow> int list"
  IsLeader :: nat
  CacheHits :: "string \<Rightarrow> nat"
  CacheMisses :: "string \<Rightarrow> nat"

definition unmetered :: "('s, 'a) state \<Rightarrow> ('s \<times> metrics, 'a) state" where
  "unmetered m = State (\<lambda>(s, k). case run_state m s of (x, s') \<Rightarrow> (x, (s', k)))"

definition meter :: "(metrics \<Rightarrow> metrics) \<Rightarrow> ('s \<times> metrics, unit) state" where
  "meter f = State (\<lambda>(s, k). ((), (s, f k)))"

abbreviation inc_label :: "string \<Rightarrow> (string \<Rightarrow> nat) \<Rightarrow> string \<Rightarrow> nat" where
  "inc_label l c \<equiv> c(l := Suc (c l))"

abbreviation inc_completed :: "string \<Rightarrow> metrics \<Rightarrow> metrics" where
  "inc_completed l k \<equiv> k\<lparr>RunsCompleted := inc_label l (RunsCompleted k)\<rparr>"

lemma run_unmetered [simp]: "run_state (unmetered m) (s, k) = (fst (run_state m s), (snd (run_state m s), k))"
  by (simp add: unmetered_def split: prod.splits)

lemma run_meter [simp]: "run_state (meter f) (s, k) = ((), (s, f k))"
  by (simp add: meter_def)

subsection \<open>The worker\<close>

definition metered_finish_run :: "'s pool \<Rightarrow> ('s, time) state \<Rightarrow> go_context \<Rightarrow> JobRun \<Rightarrow> job \<Rightarrow> err + gomap \<Rightarrow> ('s \<times> metrics, unit) state" where
  "metered_finish_run p time_Now ctx run job ended = (case ended of
     Inr result \<Rightarrow> do {
       _ \<leftarrow> unmetered (ctx_call ctx time_Now (api_CompleteRun (Store p) (run_ID run) result));
       meter (inc_completed ''succeeded'') }
   | Inl err \<Rightarrow>
       if run_Attempt run <s job_MaxAttempts job
       then do {
         _ \<leftarrow> unmetered (ctx_call ctx time_Now (api_FailRun (Store p) (run_ID run) (Error err) True (retry_backoff (run_Attempt run))));
         meter (inc_completed ''failed'') }
       else do {
         _ \<leftarrow> unmetered (fail_and_bury p time_Now ctx (run_ID run) (Error err) ''max attempts exceeded'');
         meter (inc_completed ''dead'') })"

definition metered_executeOne :: "'s pool \<Rightarrow> ('s, time) state \<Rightarrow> go_context \<Rightarrow> JobRun \<Rightarrow> job \<Rightarrow> ('s \<times> metrics, unit) state" where
  "metered_executeOne p time_Now ctx run job = (case handlers p (job_Name job) of
     None \<Rightarrow> do {
       _ \<leftarrow> unmetered (fail_and_bury p time_Now ctx (run_ID run) (''no handler registered for job: '' @ job_Name job) ''no handler'');
       meter (inc_completed ''dead'') }
   | Some h \<Rightarrow> do {
       _ \<leftarrow> unmetered (ctx_call ctx time_Now (api_MarkRunning (Store p) (run_ID run)));
       _ \<leftarrow> meter (\<lambda>k. k\<lparr>RunsLeased := inc_label (WorkerID p) (RunsLeased k)\<rparr>);
       started \<leftarrow> unmetered time_Now;
       let runCtx = WithTimeout ctx (run_timeout (job_TimeoutSeconds job)) started;
       res \<leftarrow> unmetered (h runCtx job run);
       now \<leftarrow> unmetered time_Now;
       _ \<leftarrow> meter (\<lambda>k. k\<lparr>RunDuration := RunDuration k @ [now - started]\<rparr>);
       metered_finish_run p time_Now ctx run job (case res of
         Inl e \<Rightarrow> Inl e
       | Inr result \<Rightarrow> (case ctx_Err runCtx now of Some e \<Rightarrow> Inl e | None \<Rightarrow> Inr result)) })"

definition metered_lease_turn :: "'s pool \<Rightarrow> ('s, time) state \<Rightarrow> go_context \<Rightarrow> ('s \<times> metrics, bool) state" where
  "metered_lease_turn p time_Now ctx = do {
     r \<leftarrow> unmetered (ctx_call ctx time_Now (api_LeaseNextRun (Store p) (WorkerID p) (LeaseDuration p)));
     case r of
       Inl _ \<Rightarrow> ret False
     | Inr None \<Rightarrow> ret False
     | Inr (Some (run, job)) \<Rightarrow> do { metered_executeOne p time_Now ctx run job; ret True } }"

definition metered_janitor_turn :: "'s pool \<Rightarrow> ('s \<times> metrics, unit) state" where
  "metered_janitor_turn p = do {
     r \<leftarrow> unmetered (api_ReclaimExpiredLeases (Store p));
     case r of
       Inl _ \<Rightarrow> ret ()
     | Inr n \<Rightarrow> if 0 < n then meter (\<lambda>k. k\<lparr>LeasesReclaimed := LeasesReclaimed k + n\<rparr>) else ret () }"

subsection \<open>The scheduler\<close>

definition metered_PromoteOnce :: "'s store_api \<Rightarrow> cron_lib \<Rightarrow> ('s, time) state \<Rightarrow> ('s \<times> metrics, err + nat) state" where
  "metered_PromoteOnce st cron time_Now =
     check_err (unmetered (api_ListJobs st (Some JobStatusActive) listActiveJobsLimit 0)) (\<lambda>jobs. do {
       now \<leftarrow> unmetered time_Now;
       promoted \<leftarrow> unmetered (for_each (promote_job st cron now) jobs);
       depth \<leftarrow> unmetered (api_CountPendingRuns st);
       _ \<leftarrow> (case depth of Inl _ \<Rightarrow> ret () | Inr d \<Rightarrow> meter (\<lambda>k. k\<lparr>QueueDepth := d\<rparr>));
       ok (length (filter (\<lambda>p. p) promoted)) })"

definition metered_promoter_tick ::
  "('s, err + bool) state \<Rightarrow> 's store_api \<Rightarrow> cron_lib \<Rightarrow> ('s, time) state \<Rightarrow> ('s \<times> metrics, unit) state" where
  "metered_promoter_tick try_acquire st cron time_Now = do {
     r \<leftarrow> unmetered try_acquire;
     case r of
       Inl _ \<Rightarrow> meter (\<lambda>k. k\<lparr>IsLeader := 0\<rparr>)
     | Inr leader \<Rightarrow>
         if leader then do {
           _ \<leftarrow> meter (\<lambda>k. k\<lparr>IsLeader := 1\<rparr>);
           _ \<leftarrow> metered_PromoteOnce st cron time_Now;
           ret () }
         else meter (\<lambda>k. k\<lparr>IsLeader := 0\<rparr>) }"

subsection \<open>The API and its cache\<close>

definition metered_create :: "'s store_api \<Rightarrow> new_job_input \<Rightarrow> ('s \<times> metrics, response) state" where
  \<comment> \<open>the end of \<open>createJob\<close>, from the call of \<open>CreateJob\<close> on\<close>
  "metered_create st i = do {
     r \<leftarrow> unmetered (api_CreateJob st i);
     case r of
       Inl e \<Rightarrow> ret (if errors_Is e ErrIdempotencyConflict then writeError 409 ''idempotency key already used'' else serverError)
     | Inr job \<Rightarrow> do {
         _ \<leftarrow> meter (\<lambda>k. k\<lparr>JobsSubmitted := Suc (JobsSubmitted k)\<rparr>);
         ret (writeJSON 201 (BJob job)) } }"

definition metered_createJob :: "'s store_api \<Rightarrow> cron_lib \<Rightarrow> err + new_job_input \<Rightarrow> ('s \<times> metrics, response) state" where
  "metered_createJob st cron decoded = (case validate_job cron decoded of
     Inl resp \<Rightarrow> ret resp
   | Inr i \<Rightarrow> (case in_IdempotencyKey i of
       None \<Rightarrow> metered_create st i
     | Some key \<Rightarrow>
         if key = [] then metered_create st i
         else do {
           r \<leftarrow> unmetered (api_GetJobByIdempotencyKey st key);
           case r of
             Inr existing \<Rightarrow> ret (writeJSON 200 (BJob existing))
           | Inl e \<Rightarrow> if errors_Is e ErrNotFound then metered_create st i else ret serverError }))"

text \<open>\<open>cache_aside\<close> with its hit and miss counters, for the entity \<open>job\<close> or \<open>run\<close>.\<close>

definition metered_cache_aside :: "string \<Rightarrow> ('s cached \<Rightarrow> (err + 'v) option) \<Rightarrow> ('s, err + 'v) state \<Rightarrow>
    ('v \<Rightarrow> ('s cached \<Rightarrow> 's cached) option) \<Rightarrow> ('s cached \<times> metrics, err + 'v) state" where
  "metered_cache_aside entity lookup fetch save = do {
     hit \<leftarrow> unmetered (redis_exec (\<lambda>c. (lookup c, c)));
     case hit of
       Some (Some (Inr v)) \<Rightarrow> do { _ \<leftarrow> meter (\<lambda>k. k\<lparr>CacheHits := inc_label entity (CacheHits k)\<rparr>); ok v }
     | _ \<Rightarrow> do {
         _ \<leftarrow> meter (\<lambda>k. k\<lparr>CacheMisses := inc_label entity (CacheMisses k)\<rparr>);
         r \<leftarrow> unmetered (on_underlying fetch);
         case r of
           Inl e \<Rightarrow> fail e
         | Inr v \<Rightarrow> (case save v of
             None \<Rightarrow> ok v
           | Some store_it \<Rightarrow> do { _ \<leftarrow> unmetered (redis_exec (\<lambda>c. ((), store_it c))); ok v }) } }"

subsection \<open>Metering changes nothing else\<close>

definition meters :: "('s \<times> metrics, 'a) state \<Rightarrow> ('s, 'a) state \<Rightarrow> bool" where
  "meters M m \<longleftrightarrow> (\<forall>s k. fst (run_state M (s, k)) = fst (run_state m s) \<and> fst (snd (run_state M (s, k))) = snd (run_state m s))"

lemma meters_unmetered: "meters (unmetered m) m"
  by (simp add: meters_def)

lemma meters_ret: "meters (ret x) (ret x)"
  by (simp add: meters_def)

lemma meters_meter: "meters (meter f) (ret ())"
  by (simp add: meters_def)

lemma meters_bind:
  assumes "meters M m" and "\<And>x. meters (F x) (f x)"
  shows "meters (State_Monad.bind M F) (State_Monad.bind m f)"
  unfolding meters_def
proof (intro allI)
  fix s :: 'a and k
  obtain x t l where M: "run_state M (s, k) = (x, (t, l))" by (metis prod.collapse)
  then have "run_state m s = (x, t)" using assms(1) by (simp add: meters_def prod_eq_iff)
  then show "fst (run_state (State_Monad.bind M F) (s, k)) = fst (run_state (State_Monad.bind m f) s) \<and>
      fst (snd (run_state (State_Monad.bind M F) (s, k))) = snd (run_state (State_Monad.bind m f) s)"
    using M assms(2) [of x] by (simp add: meters_def)
qed

lemma meters_then: "meters M m \<Longrightarrow> meters (State_Monad.bind (meter f) (\<lambda>_. M)) m"
  by (simp add: meters_def)

lemma meters_check_err: "meters M m \<Longrightarrow> (\<And>x. meters (F x) (f x)) \<Longrightarrow> meters (check_err M F) (check_err m f)"
  unfolding check_err_def by (rule meters_bind) (auto split: sum.splits intro: meters_ret)

lemma meters_sum: "(\<And>e. meters (F e) (f e)) \<Longrightarrow> (\<And>x. meters (G x) (g x)) \<Longrightarrow>
    meters (case r of Inl e \<Rightarrow> F e | Inr x \<Rightarrow> G x) (case r of Inl e \<Rightarrow> f e | Inr x \<Rightarrow> g x)"
  by (cases r) simp_all

lemma meters_option: "meters F f \<Longrightarrow> (\<And>x. meters (G x) (g x)) \<Longrightarrow>
    meters (case r of None \<Rightarrow> F | Some x \<Rightarrow> G x) (case r of None \<Rightarrow> f | Some x \<Rightarrow> g x)"
  by (cases r) simp_all

lemma meters_if: "meters F f \<Longrightarrow> meters G g \<Longrightarrow> meters (if b then F else G) (if b then f else g)"
  by simp

lemma meters_prod: "(\<And>x y. meters (F x y) (f x y)) \<Longrightarrow> meters (case r of (x, y) \<Rightarrow> F x y) (case r of (x, y) \<Rightarrow> f x y)"
  by (cases r) simp

lemma meters_let: "(\<And>x. meters (F x) (f x)) \<Longrightarrow> meters (let x = y in F x) (let x = y in f x)"
  by simp

lemmas meters_body = meters_then meters_bind meters_check_err meters_sum meters_option meters_if meters_prod meters_let
  meters_unmetered meters_ret meters_meter

text \<open>A counter that is the last thing a body does.\<close>

lemma meters_last: "meters M m \<Longrightarrow> meters (State_Monad.bind M (\<lambda>_. meter f)) m"
  using meters_bind [of M m "\<lambda>_. meter f" "\<lambda>_. ret ()"] meters_meter by (simp add: meters_def)

lemma meters_finish_run: "meters (metered_finish_run p time_Now ctx run job r) (finish_run p time_Now ctx run job r)"
  unfolding metered_finish_run_def finish_run_def
  by (intro meters_sum meters_if meters_bind meters_unmetered meters_meter meters_last)

lemma meters_executeOne: "meters (metered_executeOne p time_Now ctx run job) (executeOne p time_Now ctx run job)"
  unfolding metered_executeOne_def executeOne_def Let_def
  by (rule meters_option, rule meters_last, rule meters_unmetered) (intro meters_body meters_finish_run)

lemma meters_lease_turn: "meters (metered_lease_turn p time_Now ctx) (lease_turn p time_Now ctx)"
  unfolding metered_lease_turn_def lease_turn_def by (intro meters_body meters_executeOne)

lemma meters_janitor_turn: "meters (metered_janitor_turn p) (janitor_turn p)"
proof -
  have "meters (case r of Inl _ \<Rightarrow> ret () | Inr n \<Rightarrow> if 0 < n then meter (f n) else ret ()) (ret ())" for r :: "err + nat" and f
    by (cases r) (simp_all add: meters_ret meters_meter)
  then show ?thesis unfolding metered_janitor_turn_def janitor_turn_def by (intro meters_bind meters_unmetered)
qed

lemma meters_PromoteOnce: "meters (metered_PromoteOnce st cron time_Now) (PromoteOnce st cron time_Now)"
proof -
  have gauge: "meters (do { _ \<leftarrow> (case r of Inl _ \<Rightarrow> ret () | Inr n \<Rightarrow> meter (f n)); ok x }) (ok x)" for r :: "err + nat" and f and x :: nat
    by (cases r) (simp_all add: meters_def)
  show ?thesis unfolding metered_PromoteOnce_def PromoteOnce_def
    by (rule meters_check_err [OF meters_unmetered]) (intro meters_bind meters_unmetered gauge)
qed

lemma meters_promoter_tick: "meters (metered_promoter_tick a st cron time_Now) (promoter_tick a st cron time_Now)"
  unfolding metered_promoter_tick_def promoter_tick_def
  by (intro meters_body meters_PromoteOnce)

lemma meters_createJob: "meters (metered_createJob st cron d) (createJob st cron d)"
proof -
  have create: "meters (metered_create st i) (do {
         r \<leftarrow> api_CreateJob st i;
         ret (case r of
           Inl e \<Rightarrow> if errors_Is e ErrIdempotencyConflict then writeError 409 ''idempotency key already used'' else serverError
         | Inr job \<Rightarrow> writeJSON 201 (BJob job)) })" for i
    unfolding metered_create_def by (rule meters_bind [OF meters_unmetered]) (auto split: sum.splits intro: meters_ret meters_then)
  show ?thesis unfolding metered_createJob_def createJob_def Let_def
    by (intro meters_sum meters_ret meters_option meters_if create meters_bind meters_unmetered)
qed

lemma meters_cache_aside: "meters (metered_cache_aside e lookup fetch save) (cache_aside lookup fetch save)"
proof -
  have miss: "meters (do { _ \<leftarrow> meter f; r \<leftarrow> unmetered (on_underlying fetch);
        case r of
           Inl e \<Rightarrow> fail e
         | Inr v \<Rightarrow> (case save v of
             None \<Rightarrow> ok v
           | Some store_it \<Rightarrow> do { _ \<leftarrow> unmetered (redis_exec (\<lambda>c. ((), store_it c))); ok v }) })
      (do { r \<leftarrow> on_underlying fetch;
         case r of
           Inl e \<Rightarrow> fail e
         | Inr v \<Rightarrow> (case save v of
             None \<Rightarrow> ok v
           | Some store_it \<Rightarrow> do { _ \<leftarrow> redis_exec (\<lambda>c. ((), store_it c)); ok v }) })" for f
    by (intro meters_body)
  show ?thesis unfolding metered_cache_aside_def cache_aside_def
    by (rule meters_bind [OF meters_unmetered]) (auto split: option.splits sum.splits intro: miss meters_then meters_ret)
qed


subsection \<open>What the worker counts\<close>

definition outcome_label :: "JobRun \<Rightarrow> job \<Rightarrow> err + gomap \<Rightarrow> string" where
  "outcome_label run job r = (case r of Inr _ \<Rightarrow> ''succeeded''
     | Inl _ \<Rightarrow> if run_Attempt run <s job_MaxAttempts job then ''failed'' else ''dead'')"

lemma finish_run_counts:
  "snd (snd (run_state (metered_finish_run p time_Now ctx run job r) (s, k))) = inc_completed (outcome_label run job r) k"
  by (auto simp: metered_finish_run_def outcome_label_def split: sum.splits)

definition outcomes :: "string set" where
  "outcomes = {''succeeded'', ''failed'', ''dead''}"

definition completed_total :: "metrics \<Rightarrow> nat" where
  "completed_total k = RunsCompleted k ''succeeded'' + RunsCompleted k ''failed'' + RunsCompleted k ''dead''"

text \<open>What \<open>n\<close> executed runs, \<open>m\<close> of them with a handler, add to the metrics of worker \<open>x\<close>.\<close>

definition executed_metrics :: "string \<Rightarrow> nat \<Rightarrow> nat \<Rightarrow> metrics \<Rightarrow> metrics \<Rightarrow> bool" where
  "executed_metrics x n m k k' \<longleftrightarrow> m \<le> n \<and> (\<exists>durations completed. length durations = m \<and>
     k' = k\<lparr>RunsLeased := (RunsLeased k)(x := RunsLeased k x + m), RunDuration := RunDuration k @ durations, RunsCompleted := completed\<rparr> \<and>
     completed_total k' = completed_total k + n)"

lemma executed_metrics_refl: "executed_metrics x 0 0 k k"
  unfolding executed_metrics_def by (intro conjI exI [of _ "[]"] exI [of _ "RunsCompleted k"]) simp_all

lemma executed_metrics_trans:
  assumes "executed_metrics x n m k k'" and "executed_metrics x n' m' k' k''"
  shows "executed_metrics x (n + n') (m + m') k k''"
proof -
  obtain ds c where 1: "m \<le> n" "length ds = m" "k' = k\<lparr>RunsLeased := (RunsLeased k)(x := RunsLeased k x + m), RunDuration := RunDuration k @ ds, RunsCompleted := c\<rparr>"
    "completed_total k' = completed_total k + n" using assms(1) by (auto simp: executed_metrics_def)
  obtain ds' c' where 2: "m' \<le> n'" "length ds' = m'" "k'' = k'\<lparr>RunsLeased := (RunsLeased k')(x := RunsLeased k' x + m'), RunDuration := RunDuration k' @ ds', RunsCompleted := c'\<rparr>"
    "completed_total k'' = completed_total k' + n'" using assms(2) by (auto simp: executed_metrics_def)
  show ?thesis unfolding executed_metrics_def
    by (intro conjI exI [of _ "ds @ ds'"] exI [of _ c']) (use 1 2 in \<open>simp_all add: fun_upd_def fun_eq_iff\<close>)
qed

lemma outcome_label_cases: "outcome_label run job r \<in> outcomes"
  by (simp add: outcome_label_def outcomes_def split: sum.splits)

lemma completed_total_inc: "l \<in> outcomes \<Longrightarrow> completed_total (inc_completed l k) = Suc (completed_total k)"
  by (auto simp: completed_total_def outcomes_def)

text \<open>The metrics of one execution, in full.\<close>

lemma executeOne_counts:
  "handlers p (job_Name job) = None \<Longrightarrow>
     snd (snd (run_state (metered_executeOne p time_Now ctx run job) (s, k))) = inc_completed ''dead'' k"
  "handlers p (job_Name job) = Some h \<Longrightarrow> \<exists>d r. snd (snd (run_state (metered_executeOne p time_Now ctx run job) (s, k))) =
     inc_completed (outcome_label run job r) (k\<lparr>RunsLeased := inc_label (WorkerID p) (RunsLeased k), RunDuration := RunDuration k @ [d]\<rparr>)"
  by (simp add: metered_executeOne_def, simp add: metered_executeOne_def Let_def finish_run_counts, blast)

lemma executeOne_metrics:
  "executed_metrics (WorkerID p) 1 (if handlers p (job_Name job) = None then 0 else 1) k
     (snd (snd (run_state (metered_executeOne p time_Now ctx run job) (s, k))))"
proof (cases "handlers p (job_Name job)")
  case None
  show ?thesis unfolding executeOne_counts(1) [of p job, OF None] executed_metrics_def
    by (intro conjI exI [of _ "[]"] exI [of _ "inc_label ''dead'' (RunsCompleted k)"]) (simp_all add: completed_total_inc outcomes_def None)
next
  case (Some h)
  obtain d r where k': "snd (snd (run_state (metered_executeOne p time_Now ctx run job) (s, k))) =
     inc_completed (outcome_label run job r) (k\<lparr>RunsLeased := inc_label (WorkerID p) (RunsLeased k), RunDuration := RunDuration k @ [d]\<rparr>)"
    using executeOne_counts(2) [of p job, OF Some, of time_Now ctx run s k] by (elim exE)
  let ?l = "outcome_label run job r"
  have "completed_total (inc_completed ?l (k\<lparr>RunsLeased := inc_label (WorkerID p) (RunsLeased k), RunDuration := RunDuration k @ [d]\<rparr>)) = Suc (completed_total k)"
    using completed_total_inc [OF outcome_label_cases] by (simp add: completed_total_def)
  then show ?thesis using Some unfolding k' executed_metrics_def
    by (intro conjI exI [of _ "[d]"] exI [of _ "inc_label ?l (RunsCompleted k)"]) simp_all
qed

lemma lease_turn_metrics:
  assumes "run_state (metered_lease_turn p time_Now ctx) (s, k) = (b, (s', k'))"
  shows "\<exists>m. executed_metrics (WorkerID p) (if b then 1 else 0) m k k'"
proof (cases "fst (run_state (ctx_call ctx time_Now (api_LeaseNextRun (Store p) (WorkerID p) (LeaseDuration p))) s)")
  case (Inr r)
  show ?thesis
  proof (cases r)
    case (Some rj)
    obtain run job where rj: "rj = (run, job)" by (cases rj)
    have "b \<and> k' = snd (snd (run_state (metered_executeOne p time_Now ctx run job) (snd (run_state (ctx_call ctx time_Now (api_LeaseNextRun (Store p) (WorkerID p) (LeaseDuration p))) s), k)))"
      using assms Inr Some rj by (auto simp: metered_lease_turn_def split: prod.splits)
    then show ?thesis using executeOne_metrics [of p job k]
      by (intro exI [of _ "if handlers p (job_Name job) = None then 0 else 1"]) simp
  qed (use assms Inr executed_metrics_refl in \<open>auto simp: metered_lease_turn_def\<close>)
qed (use assms executed_metrics_refl in \<open>auto simp: metered_lease_turn_def\<close>)


subsection \<open>Requests\<close>

definition Itoa :: "int \<Rightarrow> string" where
  "Itoa i = (if i < 0 then CHR ''-'' # decimal (nat (- i)) else decimal (nat i))"

text \<open>
  \<open>requestLogger\<close> around a handler that writes a response or panics (\<open>None\<close>): what follows \<open>next.ServeHTTP\<close> is not reached by a
  panic. A status of 0 stands for a handler that wrote nothing.
\<close>

definition requestLogger ::
  "('s \<times> metrics, time) state \<Rightarrow> string \<Rightarrow> string \<Rightarrow> ('s \<times> metrics, response option) state \<Rightarrow> ('s \<times> metrics, response option) state" where
  "requestLogger time_Now path meth next_handler = do {
     start \<leftarrow> time_Now;
     r \<leftarrow> next_handler;
     case r of
       None \<Rightarrow> ret None
     | Some resp \<Rightarrow> do {
         now \<leftarrow> time_Now;
         let status = (if fst resp = 0 then 200 else fst resp);
         let series = (path, meth, Itoa status);
         _ \<leftarrow> meter (\<lambda>k. k\<lparr>HTTPRequestDuration := (HTTPRequestDuration k)(series := HTTPRequestDuration k series @ [now - start])\<rparr>);
         ret (Some resp) } }"

text \<open>
  The chain of \<open>NewRouter\<close> under \<open>/v1\<close>: the router library's \<open>Recoverer\<close>, a parameter, is outermost; then come the logger, the limiter and the
  token check. It documents that it passes on what was answered and answers a panic itself, here with \<open>recovered\<close>.
\<close>

definition v1_chain :: "(('s \<times> metrics, response option) state \<Rightarrow> ('s \<times> metrics, response) state) \<Rightarrow> ('s \<times> metrics, time) state \<Rightarrow> string \<Rightarrow> string \<Rightarrow>
    ('s \<times> metrics, response option) state \<Rightarrow> ('s \<times> metrics, response) state" where
  "v1_chain recoverer time_Now path meth inner = recoverer (requestLogger time_Now path meth inner)"

definition recovers_with :: "response \<Rightarrow> (('s, response option) state \<Rightarrow> ('s, response) state) \<Rightarrow> bool" where
  "recovers_with recovered recoverer \<longleftrightarrow> (\<forall>m s. run_state (recoverer m) s =
     (case fst (run_state m s) of None \<Rightarrow> recovered | Some resp \<Rightarrow> resp, snd (run_state m s)))"

text \<open>The paths of the routes.\<close>

fun url_path :: "route \<Rightarrow> string" where
  "url_path (POST_jobs _) = ''/v1/jobs''"
| "url_path (GET_jobs _ _ _) = ''/v1/jobs''"
| "url_path (GET_job i) = ''/v1/jobs/'' @ i"
| "url_path (POST_job_pause i) = ''/v1/jobs/'' @ i @ ''/pause''"
| "url_path (POST_job_resume i) = ''/v1/jobs/'' @ i @ ''/resume''"
| "url_path (GET_job_runs i _) = ''/v1/jobs/'' @ i @ ''/runs''"
| "url_path (GET_run i) = ''/v1/runs/'' @ i"
| "url_path GET_workers = ''/v1/workers''"

fun http_method :: "route \<Rightarrow> string" where
  "http_method (POST_jobs _) = ''POST''"
| "http_method (POST_job_pause _) = ''POST''"
| "http_method (POST_job_resume _) = ''POST''"
| "http_method _ = ''GET''"

text \<open>
  The handlers with their metric calls: only \<open>createJob\<close> has one. What a cached store counts is part of that store. The limiter
  and the token check work on the limiter's state and pass on the rest, the store's state and the metrics; \<open>regroup\<close> only moves the brackets.
\<close>

definition metered_dispatch :: "'s store_api \<Rightarrow> cron_lib \<Rightarrow> route \<Rightarrow> ('s \<times> metrics, response) state" where
  "metered_dispatch st cron rt = (case rt of
     POST_jobs decoded \<Rightarrow> metered_createJob st cron decoded
   | _ \<Rightarrow> unmetered (dispatch st cron rt))"

definition regroup :: "('l \<times> ('s \<times> 'k), 'a) state \<Rightarrow> (('l \<times> 's) \<times> 'k, 'a) state" where
  "regroup m = State (\<lambda>((rl, s), k). case run_state m (rl, (s, k)) of (x, (rl', (s', k'))) \<Rightarrow> (x, ((rl', s'), k')))"

definition handler_runs :: "('l \<times> ('s \<times> metrics), response) state \<Rightarrow> (('l \<times> 's) \<times> metrics, response option) state" where
  "handler_runs m = do { resp \<leftarrow> regroup m; ret (Some resp) }"

text \<open>A request under \<open>/v1\<close> from the network to the store and back.\<close>

definition serve_metered :: "(((rateLimiter \<times> 's) \<times> metrics, response option) state \<Rightarrow> ((rateLimiter \<times> 's) \<times> metrics, response) state) \<Rightarrow>
    ((rateLimiter \<times> 's), time) state \<Rightarrow> 's store_api \<Rightarrow> cron_lib \<Rightarrow> jwt_lib \<Rightarrow> string \<Rightarrow> time \<Rightarrow> time \<Rightarrow>
    request \<Rightarrow> ((rateLimiter \<times> 's) \<times> metrics, response) state" where
  "serve_metered recoverer time_Now st cron jwt secret now now2 r =
     v1_chain recoverer (unmetered time_Now) (url_path (Route r)) (http_method (Route r))
       (handler_runs (rate_middleware (RemoteAddr r) now (jwtAuth jwt secret now2 (Authorization r) (metered_dispatch st cron (Route r)))))"

lemma run_regroup:
  "run_state (regroup m) ((rl, s), k) = (x, ((rl', s'), k')) \<longleftrightarrow> run_state m (rl, (s, k)) = (x, (rl', (s', k')))"
  by (simp add: regroup_def split: prod.splits)

text \<open>What the chain answers and leaves is what stands behind it did, but for the observed duration.\<close>

lemma v1_chain_run:
  assumes "recovers_with recovered recoverer" and "\<And>c. snd (run_state time_Now c) = c"
    and "run_state (v1_chain recoverer (unmetered time_Now) path meth (handler_runs m)) ((rl, s), k) = (resp, ((rl', s'), k'))"
  shows "\<exists>k1 d l. run_state m (rl, (s, k)) = (resp, (rl', (s', k1))) \<and> l = (path, meth, Itoa (if fst resp = 0 then 200 else fst resp)) \<and>
    k' = k1\<lparr>HTTPRequestDuration := (HTTPRequestDuration k1)(l := HTTPRequestDuration k1 l @ [d])\<rparr>"
proof -
  obtain x rl1 s1 k1 where m: "run_state m (rl, (s, k)) = (x, (rl1, (s1, k1)))" by (metis surj_pair)
  then have "run_state (regroup m) ((rl, s), k) = (x, ((rl1, s1), k1))" by (simp add: run_regroup)
  then show ?thesis using assms m
    by (auto simp: recovers_with_def v1_chain_def requestLogger_def handler_runs_def Let_def)
qed

lemma metered_dispatch_runs:
  assumes "run_state (metered_dispatch st cron rt) (s, k) = (resp, (s', k'))"
  shows "run_state (dispatch st cron rt) s = (resp, s') \<and>
    k' = k\<lparr>JobsSubmitted := JobsSubmitted k + (if (\<exists>d. rt = POST_jobs d) \<and> fst resp = 201 then 1 else 0)\<rparr>"
proof (cases "\<exists>d. rt = POST_jobs d")
  case True
  then obtain d where rt: "rt = POST_jobs d" ..
  have "validate_job cron d = Inl x \<Longrightarrow> fst x = 400" for x
    by (auto simp: validate_job_def Let_def split: sum.splits if_splits)
  then have "k' = k\<lparr>JobsSubmitted := JobsSubmitted k + (if fst resp = 201 then 1 else 0)\<rparr>"
    using assms by (auto simp: rt metered_dispatch_def metered_createJob_def metered_create_def serverError_def
        split: sum.splits option.splits if_splits prod.splits)
  then show ?thesis using meters_createJob [of st cron d] assms by (simp add: rt metered_dispatch_def meters_def prod_eq_iff)
next
  case False
  then show ?thesis using assms by (cases rt) (auto simp: metered_dispatch_def)
qed

lemma guarded_dispatch_runs:
  assumes "run_state (rate_middleware addr now (jwtAuth jwt secret now2 header (metered_dispatch st cron rt))) (rl, (s, k)) = (resp, (rl', (s', k')))"
  shows "run_state (rate_middleware addr now (jwtAuth jwt secret now2 header (dispatch st cron rt))) (rl, s) = (resp, (rl', s')) \<and>
    k' = k\<lparr>JobsSubmitted := JobsSubmitted k + (if (\<exists>d. rt = POST_jobs d) \<and> fst resp = 201 then 1 else 0)\<rparr>"
  using assms metered_dispatch_runs [of st cron rt s k]
  by (auto simp: rate_middleware_def jwtAuth_def writeError_def writeJSON_def Let_def split: prod.splits if_splits sum.splits)

subsection \<open>Properties\<close>

text \<open>
  Metering is transparent: the lease loop's turn, the janitor's turn, a tick of the scheduler, the create handler and the cached reads give, with
  their metric calls, the same results and the same store states as without, on every branch and for every store.
\<close>

theorem metrics_transparent:
  "meters (metered_lease_turn p time_Now ctx) (lease_turn p time_Now ctx) \<and>
   meters (metered_janitor_turn p) (janitor_turn p) \<and>
   meters (metered_promoter_tick try_acquire st cron time_Now) (promoter_tick try_acquire st cron time_Now) \<and>
   meters (metered_createJob st cron decoded) (createJob st cron decoded) \<and>
   meters (metered_cache_aside entity lookup fetch save) (cache_aside lookup fetch save)"
  by (intro conjI meters_lease_turn meters_janitor_turn meters_promoter_tick meters_createJob meters_cache_aside)

text \<open>
  C40. The worker's books balance: over any number of turns of the lease loop, on any store and under any faults, the three outcomes of
  \<open>taskflow_runs_completed_total\<close> together grow by exactly the number of runs the loop was given; \<open>taskflow_runs_leased_total\<close> grows for
  this worker alone, by the number of observed durations, which is at most that; and no other metric changes.
\<close>

theorem worker_metrics_account:
  assumes "run_state (for_each (\<lambda>_. metered_lease_turn p time_Now ctx) turns) (s, k) = (executed, (s', k'))"
  shows "\<exists>m. executed_metrics (WorkerID p) (length (filter (\<lambda>b. b) executed)) m k k'"
  using assms
proof (induction turns arbitrary: s k executed)
  case Nil
  then show ?case using executed_metrics_refl by fastforce
next
  case (Cons t turns)
  obtain b s1 k1 where first: "run_state (metered_lease_turn p time_Now ctx) (s, k) = (b, (s1, k1))" by (metis prod.collapse)
  obtain bs where rest: "run_state (for_each (\<lambda>_. metered_lease_turn p time_Now ctx) turns) (s1, k1) = (bs, (s', k'))" and ex: "executed = b # bs"
    using Cons.prems first by (auto split: prod.splits)
  obtain m m' where "executed_metrics (WorkerID p) (if b then 1 else 0) m k k1"
    "executed_metrics (WorkerID p) (length (filter (\<lambda>b. b) bs)) m' k1 k'"
    using lease_turn_metrics [OF first] Cons.IH [OF rest] by blast
  from executed_metrics_trans [OF this] show ?case by (cases b) (auto simp: ex)
qed


definition no_metrics :: metrics where
  "no_metrics = \<lparr>JobsSubmitted = 0, RunsLeased = (\<lambda>_. 0), RunsCompleted = (\<lambda>_. 0), RunDuration = [], QueueDepth = 0, LeasesReclaimed = 0,
     HTTPRequestDuration = (\<lambda>_. []), IsLeader = 0, CacheHits = (\<lambda>_. 0), CacheMisses = (\<lambda>_. 0)\<rparr>"

definition demo_turns :: "bool list \<times> (world \<times> metrics)" where
  "demo_turns = run_state (for_each (\<lambda>_. metered_lease_turn demo_pool (host_clock 0) demo_ctx) [1 :: nat, 2]) (demo_world demo_db 2, no_metrics)"

theorem worker_metrics_account_witness:
  "completed_total (snd (snd demo_turns)) = length (filter (\<lambda>b. b) (fst demo_turns)) \<and> JobsSubmitted (snd (snd demo_turns)) = 0"
proof -
  have run: "run_state (for_each (\<lambda>_. metered_lease_turn demo_pool (host_clock 0) demo_ctx) [1 :: nat, 2]) (demo_world demo_db 2, no_metrics) =
      (fst demo_turns, (fst (snd demo_turns), snd (snd demo_turns)))" by (simp only: demo_turns_def prod.collapse)
  obtain m where m: "executed_metrics (WorkerID demo_pool) (length (filter (\<lambda>b. b) (fst demo_turns))) m no_metrics (snd (snd demo_turns))"
    using worker_metrics_account [OF run] by blast
  have "completed_total no_metrics = 0" "JobsSubmitted no_metrics = 0" by (simp_all add: completed_total_def no_metrics_def)
  then show ?thesis using m by (auto simp: executed_metrics_def)
qed

text \<open>
  Requests are observed once: the answer to the client and the states of the limiter and the store are those of the chain without metrics; one
  duration is added to the series of the path, the method and the status answered, and \<open>taskflow_jobs_submitted_total\<close> grows by one exactly
  when a job was created.
\<close>

theorem request_observed_once:
  assumes "recovers_with recovered recoverer" and "\<And>c. snd (run_state time_Now c) = c"
    and "run_state (serve_metered recoverer time_Now st cron jwt secret now now2 r) ((rl, s), k) = (resp, ((rl', s'), k'))"
  shows "run_state (serve_v1 st cron jwt secret now now2 r) (rl, s) = (resp, (rl', s')) \<and>
    (\<exists>d series. series = (url_path (Route r), http_method (Route r), Itoa (if fst resp = 0 then 200 else fst resp)) \<and>
      k' = k\<lparr>JobsSubmitted := JobsSubmitted k + (if (\<exists>d. Route r = POST_jobs d) \<and> fst resp = 201 then 1 else 0),
        HTTPRequestDuration := (HTTPRequestDuration k)(series := HTTPRequestDuration k series @ [d])\<rparr>)"
proof -
  obtain k1 d l where m: "run_state (rate_middleware (RemoteAddr r) now (jwtAuth jwt secret now2 (Authorization r) (metered_dispatch st cron (Route r))))
      (rl, (s, k)) = (resp, (rl', (s', k1)))" and l: "l = (url_path (Route r), http_method (Route r), Itoa (if fst resp = 0 then 200 else fst resp))"
    and k': "k' = k1\<lparr>HTTPRequestDuration := (HTTPRequestDuration k1)(l := HTTPRequestDuration k1 l @ [d])\<rparr>"
    using v1_chain_run [OF assms(1,2) assms(3) [unfolded serve_metered_def]] by blast
  from guarded_dispatch_runs [OF m] l k' show ?thesis
    by (intro conjI exI [of _ d] exI [of _ l]) (simp_all add: serve_v1_def)
qed

text \<open>
  A panic is not: the client gets what \<open>Recoverer\<close> writes, but the logger inside it neither sees that status nor records the
  request.
\<close>

theorem panic_not_observed:
  assumes "recovers_with recovered recoverer"
    and "run_state time_Now (s, k) = (start, c)" and "run_state inner c = (None, (s', k'))"
  shows "run_state (v1_chain recoverer time_Now path meth inner) (s, k) = (recovered, (s', k'))"
  using assms by (simp add: recovers_with_def v1_chain_def requestLogger_def)

definition demo_recoverer :: "('s, response option) state \<Rightarrow> ('s, response) state" where
  "demo_recoverer m = do { r \<leftarrow> m; ret (case r of None \<Rightarrow> (500, BNull) | Some resp \<Rightarrow> resp) }"

lemma demo_recovers: "recovers_with (500, BNull) demo_recoverer"
  by (simp add: recovers_with_def demo_recoverer_def split: prod.splits)

theorem panic_not_observed_witness:
  "run_state (v1_chain demo_recoverer (unmetered (host_clock 0)) ''/v1/jobs'' ''GET'' (ret None)) (demo_world empty_db 0, no_metrics) =
     ((500, BNull), (demo_world empty_db 0, no_metrics))"
  using panic_not_observed [OF demo_recovers, of "unmetered (host_clock 0)" "demo_world empty_db 0" no_metrics 0 "(demo_world empty_db 0, no_metrics)" "ret None"]
  by (simp add: host_clock_def)

text \<open>
  The label called route is the path of the request: a client that asks for \<open>n\<close> different identifiers, of jobs that need not exist, with a
  token that need not be valid, leaves \<open>n\<close> time series behind.
\<close>

definition series :: "metrics \<Rightarrow> (string \<times> string \<times> string) set" where
  "series k = {l. HTTPRequestDuration k l \<noteq> []}"

lemma series_observe: "series (k\<lparr>HTTPRequestDuration := (HTTPRequestDuration k)(l := HTTPRequestDuration k l @ [d])\<rparr>) = insert l (series k)"
  by (auto simp: series_def)

theorem series_per_identifier:
  fixes ask :: "string \<Rightarrow> request"
  assumes "recovers_with recovered recoverer" and "\<And>c. snd (run_state time_Now c) = c" and "\<And>i. Route (ask i) = GET_job i"
    and "run_state (for_each (\<lambda>i. serve_metered recoverer time_Now st cron jwt secret now now2 (ask i)) ids) (c, k) = (resps, (c', k'))"
  shows "\<exists>f. inj_on f (set ids) \<and> f ` set ids \<subseteq> series k'"
proof -
  have "series k \<subseteq> series k' \<and> (\<forall>i\<in>set ids. \<exists>code. (''/v1/jobs/'' @ i, ''GET'', code) \<in> series k')"
    using assms(4)
  proof (induction ids arbitrary: c k resps)
    case (Cons i ids)
    obtain resp c1 k1 where first: "run_state (serve_metered recoverer time_Now st cron jwt secret now now2 (ask i)) (c, k) = (resp, (c1, k1))"
      by (metis prod.collapse)
    obtain rl s rl1 s1 where c: "c = (rl, s)" "c1 = (rl1, s1)" by (cases c, cases c1)
    obtain code where "series k1 = insert (''/v1/jobs/'' @ i, ''GET'', code) (series k)"
      using request_observed_once [OF assms(1,2) first [unfolded c]] assms(3) [of i] series_observe by auto
    then have seen: "series k \<subseteq> series k1" "\<exists>code. (''/v1/jobs/'' @ i, ''GET'', code) \<in> series k1" by auto
    have "series k1 \<subseteq> series k' \<and> (\<forall>i\<in>set ids. \<exists>code. (''/v1/jobs/'' @ i, ''GET'', code) \<in> series k')"
      by (rule Cons.IH [of c1 k1 "tl resps"]) (use Cons.prems first in \<open>auto split: prod.splits\<close>)
    then show ?case using seen by auto
  qed simp
  then obtain code where "\<forall>i\<in>set ids. (''/v1/jobs/'' @ i, ''GET'', code i) \<in> series k'" by metis
  then show ?thesis by (intro exI [of _ "\<lambda>i. (''/v1/jobs/'' @ i, ''GET'', code i)"]) (auto simp: inj_on_def)
qed

text \<open>
  The gauges are exact when nothing is lost: a pass leaves \<open>taskflow_queue_depth\<close> at the number of pending runs in the table, the janitor adds
  to \<open>taskflow_leases_reclaimed_total\<close> the number of leases that had expired, and a tick sets \<open>taskflow_scheduler_is_leader\<close> to what
  the election answered.
\<close>

lemma queue_depth_exact:
  assumes "good w"
  shows "QueueDepth (snd (snd (run_state (metered_PromoteOnce pg_store cron (host_clock skew)) (w, k)))) =
      pending_runs (primary (snd (run_state (PromoteOnce pg_store cron (host_clock skew)) w)))"
proof -
  let ?rows = "take 10000 (select_jobs (Some JobStatusActive) (primary w))"
  let ?w = "promote_rows cron (clock w + skew) ?rows w"
  have "job_exists (job_ID row) (primary w)" if "row \<in> set ?rows" for row
    using in_set_takeD [OF that] by (auto simp: select_jobs_def job_exists_def)
  then obtain bs where bs: "run_state (for_each (promote_job pg_store cron (clock w + skew)) (map (job_view (primary w)) ?rows)) w = (bs, ?w)"
    and "good ?w" using promote_all_good [OF assms, of ?rows cron "clock w + skew" "primary w"] by blast
  then have "snd (snd (run_state (metered_PromoteOnce pg_store cron (host_clock skew)) (w, k))) = k\<lparr>QueueDepth := pending_runs (primary ?w)\<rparr>"
    using ListJobs_good [OF assms, of 10000 0 "Some JobStatusActive"] CountPendingRuns_good [of ?w]
    by (simp add: metered_PromoteOnce_def run_check_err listActiveJobsLimit_def host_clock_def)
  then show ?thesis using PromoteOnce_good(1) [OF assms, of cron skew] by simp
qed

theorem gauges_exact:
  assumes "good w"
  shows "QueueDepth (snd (snd (run_state (metered_PromoteOnce pg_store cron (host_clock skew)) (w, k)))) =
      pending_runs (primary (snd (run_state (PromoteOnce pg_store cron (host_clock skew)) w))) \<and>
    (Store p = pg_store \<longrightarrow> LeasesReclaimed (snd (snd (run_state (metered_janitor_turn p) (w, k)))) =
      LeasesReclaimed k + length (filter (lease_expired (clock w)) (job_runs (primary w)))) \<and>
    IsLeader (snd (snd (run_state (metered_promoter_tick try_acquire st cron time_Now) (s, k)))) =
      (if fst (run_state try_acquire s) = Inr True then 1 else 0)"
proof (intro conjI impI)
  show "QueueDepth (snd (snd (run_state (metered_PromoteOnce pg_store cron (host_clock skew)) (w, k)))) =
      pending_runs (primary (snd (run_state (PromoteOnce pg_store cron (host_clock skew)) w)))" by (rule queue_depth_exact [OF assms])
  show "LeasesReclaimed (snd (snd (run_state (metered_janitor_turn p) (w, k)))) =
      LeasesReclaimed k + length (filter (lease_expired (clock w)) (job_runs (primary w)))" if "Store p = pg_store"
    using ReclaimExpiredLeases_good [OF assms] that by (simp add: metered_janitor_turn_def rows_affected_def)
  have "IsLeader (snd (snd (run_state (metered_PromoteOnce st cron time_Now) (t, k)))) = IsLeader k" for t k
    by (auto simp: metered_PromoteOnce_def run_check_err split: prod.splits sum.splits)
  note kept = this
  obtain r t where r: "run_state try_acquire s = (r, t)" by (cases "run_state try_acquire s")
  consider (err) e where "r = Inl e" | (yes) "r = Inr True" | (no) "r = Inr False" by (cases r) auto
  then show "IsLeader (snd (snd (run_state (metered_promoter_tick try_acquire st cron time_Now) (s, k)))) =
      (if fst (run_state try_acquire s) = Inr True then 1 else 0)"
    by cases (simp_all add: metered_promoter_tick_def r kept split_beta)
qed

text \<open>
  An outcome is counted although it was not stored: when the request of \<open>CompleteRun\<close> is lost, or not sent because the pool was told to stop, the run counts as succeeded and the table
  still has it as it was, to be reclaimed, executed and counted again.
\<close>

theorem lost_completion_counted:
  assumes "Store p = pg_store" and "json_Marshal result = Inr raw"
    and "(\<exists>d scr. script w = (Lost_request, d) # scr) \<or> ctx_Err ctx (clock w + skew) \<noteq> None"
  shows "RunsCompleted (snd (snd (run_state (metered_finish_run p (host_clock skew) ctx run job (Inr result)) (w, k)))) ''succeeded'' = Suc (RunsCompleted k ''succeeded'') \<and>
    primary (fst (snd (run_state (metered_finish_run p (host_clock skew) ctx run job (Inr result)) (w, k)))) = primary w"
proof (cases "ctx_Err ctx (clock w + skew)")
  case None
  then show ?thesis using assms
    by (auto simp: metered_finish_run_def ctx_call_alive CompleteRun_def run_check_err lift_result_def wrap_err_def affected_or_not_found_def
        driver_call_def deliver_def)
qed (simp add: metered_finish_run_def ctx_call_over)

end
