(* ===== verification/Routes.thy ===== *)
theory Routes
  imports Metrics
begin

text \<open>
  \<open>NewRouter\<close> of \<open>src/internal/api/router.go\<close> as a whole: its registrations, the subrouter mounted at \<open>/v1\<close> with its middlewares, and
  what a request by method and path is answered with. The router library is a parameter; what is assumed of it is that a
  request goes to a registered pattern it matches. The other theories speak of a \<open>route\<close>, a handler with what was
  extracted for it; here it is shown that these are exactly what requests get to.
\<close>

subsection \<open>The router library\<close>

datatype chi_match = Chi_Found nat string | Chi_NotFound | Chi_MethodNotAllowed

text \<open>
  \<open>chi_route lib regs meth path\<close> is the search among the registrations \<open>regs\<close>, pairs of a method (\<open>*\<close> for \<open>Handle\<close> and a mounted
  subrouter) and a pattern: the index of the one found and the value of its placeholder. The other two are the
  library's own answers.
\<close>

record chi_lib =
  chi_route :: "(string \<times> string) list \<Rightarrow> string \<Rightarrow> string \<Rightarrow> chi_match"
  chi_NotFound :: response
  chi_MethodNotAllowed :: response

text \<open>
  A pattern and a path: \<open>{name}\<close> stands for a segment, \<open>*\<close> for the rest of the path. The result is the value of the placeholder.
\<close>

function chi_pattern :: "string \<Rightarrow> string \<Rightarrow> string option" where
  "chi_pattern [] path = (if path = [] then Some [] else None)"
| "chi_pattern (c # pat) path =
     (if c = CHR ''*'' then Some path
      else if c = CHR ''{'' then
        (let seg = takeWhile (\<lambda>x. x \<noteq> CHR ''/'') path
         in case chi_pattern (tl (dropWhile (\<lambda>x. x \<noteq> CHR ''}'') pat)) (drop (length seg) path) of
              None \<Rightarrow> None | Some _ \<Rightarrow> Some seg)
      else (case path of [] \<Rightarrow> None | d # path' \<Rightarrow> if d = c then chi_pattern pat path' else None))"

  by pat_completeness auto
termination
  by (relation "measure (\<lambda>(pat, path). length pat)") (auto simp: less_Suc_eq_le intro: order_trans [OF diff_le_self length_dropWhile_le])

definition method_matches :: "string \<Rightarrow> string \<Rightarrow> bool" where
  "method_matches registered meth \<longleftrightarrow> registered = ''*'' \<or> registered = meth"

subsection \<open>The registrations\<close>

record http_request =
  r_Method :: string
  r_URL_Path :: string
  r_RemoteAddr :: string
  r_Authorization :: string
  r_Query :: "string \<Rightarrow> string"
  r_Body :: "err + new_job_input"

text \<open>Method, pattern and handler, which takes the value of \<open>chi.URLParam(r, "id")\<close>.\<close>

definition v1_routes :: "(string \<times> string \<times> (http_request \<Rightarrow> string \<Rightarrow> route)) list" where
  "v1_routes =
    [(''POST'', ''/jobs'', \<lambda>r _. POST_jobs (r_Body r)),
     (''GET'', ''/jobs'', \<lambda>r _. GET_jobs (r_Query r ''status'') (r_Query r ''limit'') (r_Query r ''offset'')),
     (''GET'', ''/jobs/{id}'', \<lambda>r. GET_job),
     (''POST'', ''/jobs/{id}/pause'', \<lambda>r. POST_job_pause),
     (''POST'', ''/jobs/{id}/resume'', \<lambda>r. POST_job_resume),
     (''GET'', ''/jobs/{id}/runs'', \<lambda>r i. GET_job_runs i (r_Query r ''limit'')),
     (''GET'', ''/runs/{id}'', \<lambda>r. GET_run),
     (''GET'', ''/workers'', \<lambda>r _. GET_workers)]"

definition v1_regs :: "(string \<times> string) list" where
  "v1_regs = map (\<lambda>(m, pat, _). (m, pat)) v1_routes"

text \<open>\<open>Route\<close> mounts the subrouter at \<open>/v1\<close> itself, at \<open>/v1/\<close> and at everything below.\<close>

definition root_regs :: "(string \<times> string) list" where
  "root_regs = [(''GET'', ''/healthz''), (''*'', ''/metrics''), (''*'', ''/v1''), (''*'', ''/v1/''), (''*'', ''/v1/*'')]"

text \<open>
  What is assumed of the library, for the registrations of \<open>router.go\<close>: what it finds is registered for the method and matches the path; and for
  the methods the routes use it finds something where a registration matches, at least if no placeholder is empty.
\<close>

definition router_regs :: "(string \<times> string) list set" where
  "router_regs = {root_regs, v1_regs}"

definition chi_finds :: "chi_lib \<Rightarrow> bool" where
  "chi_finds chi \<longleftrightarrow> (\<forall>regs \<in> router_regs.
     (\<forall>meth path n v. chi_route chi regs meth path = Chi_Found n v \<longrightarrow>
        n < length regs \<and> method_matches (fst (regs ! n)) meth \<and> chi_pattern (snd (regs ! n)) path = Some v) \<and>
     (\<forall>meth path n v. meth = ''GET'' \<or> meth = ''POST'' \<longrightarrow> n < length regs \<longrightarrow> method_matches (fst (regs ! n)) meth \<longrightarrow>
        chi_pattern (snd (regs ! n)) path = Some v \<longrightarrow> (CHR ''{'' \<in> set (snd (regs ! n)) \<longrightarrow> v \<noteq> []) \<longrightarrow>
        (\<exists>n' v'. chi_route chi regs meth path = Chi_Found n' v')))"

lemma chi_findsD:
  assumes "chi_finds chi" and "regs \<in> router_regs" and "chi_route chi regs meth path = Chi_Found n v"
  shows "n < length regs" and "chi_pattern (snd (regs ! n)) path = Some v" and "method_matches (fst (regs ! n)) meth"
  using assms unfolding chi_finds_def by blast+

lemma chi_unique:
  assumes "chi_finds chi" and "regs \<in> router_regs" and "meth = ''GET'' \<or> meth = ''POST''" and "n < length regs"
    and "method_matches (fst (regs ! n)) meth" and "chi_pattern (snd (regs ! n)) path = Some v"
    and "CHR ''{'' \<in> set (snd (regs ! n)) \<longrightarrow> v \<noteq> []"
    and "\<forall>i<length regs. i \<noteq> n \<longrightarrow> \<not> (method_matches (fst (regs ! i)) meth \<and> chi_pattern (snd (regs ! i)) path \<noteq> None)"
  shows "chi_route chi regs meth path = Chi_Found n v"
proof -
  obtain n' v' where found: "chi_route chi regs meth path = Chi_Found n' v'"
    using assms(1-7) unfolding chi_finds_def by blast
  note its = chi_findsD [OF assms(1,2) found]
  then have "n' = n" using assms(8) by force
  then show ?thesis using found its(2) assms(6) by simp
qed

definition v1_router :: "chi_lib \<Rightarrow> 's store_api \<Rightarrow> cron_lib \<Rightarrow> http_request \<Rightarrow> string \<Rightarrow> ('s \<times> metrics, response) state" where
  "v1_router chi st cron r path = (case chi_route chi v1_regs (r_Method r) path of
     Chi_Found n i \<Rightarrow> metered_dispatch st cron (snd (snd (v1_routes ! n)) r i)
   | Chi_NotFound \<Rightarrow> ret (chi_NotFound chi)
   | Chi_MethodNotAllowed \<Rightarrow> ret (chi_MethodNotAllowed chi))"

text \<open>
  The handler that \<open>NewRouter\<close> returns. The limiter in its state starts as \<open>newRateLimiter rateRPS rateBurst\<close>; \<open>exposition\<close> is
  \<open>metrics.Handler()\<close>.
\<close>

definition NewRouter :: "chi_lib \<Rightarrow> (metrics \<Rightarrow> response) \<Rightarrow>
    (((rateLimiter \<times> 's) \<times> metrics, response option) state \<Rightarrow> ((rateLimiter \<times> 's) \<times> metrics, response) state) \<Rightarrow>
    ((rateLimiter \<times> 's), time) state \<Rightarrow> 's store_api \<Rightarrow> cron_lib \<Rightarrow> jwt_lib \<Rightarrow> string \<Rightarrow> time \<Rightarrow> time \<Rightarrow>
    http_request \<Rightarrow> ((rateLimiter \<times> 's) \<times> metrics, response) state" where
  "NewRouter chi exposition recoverer time_Now st cron jwt secret now now2 r =
     (case chi_route chi root_regs (r_Method r) (r_URL_Path r) of
        Chi_NotFound \<Rightarrow> ret (chi_NotFound chi)
      | Chi_MethodNotAllowed \<Rightarrow> ret (chi_MethodNotAllowed chi)
      | Chi_Found n rest \<Rightarrow>
          if n = 0 then ret healthzHandler
          else if n = 1 then State (\<lambda>(c, k). (exposition k, (c, k)))
          else v1_chain recoverer (unmetered time_Now) (r_URL_Path r) (r_Method r) (handler_runs
            (rate_middleware (r_RemoteAddr r) now (jwtAuth jwt secret now2 (r_Authorization r)
              (v1_router chi st cron r (CHR ''/'' # rest))))))"

subsection \<open>Requests for a route\<close>

fun route_id :: "route \<Rightarrow> string option" where
  "route_id (GET_job i) = Some i"
| "route_id (POST_job_pause i) = Some i"
| "route_id (POST_job_resume i) = Some i"
| "route_id (GET_job_runs i _) = Some i"
| "route_id (GET_run i) = Some i"
| "route_id _ = None"

text \<open>An identifier that is a segment of a path.\<close>

definition plain_id :: "route \<Rightarrow> bool" where
  "plain_id rt \<longleftrightarrow> (\<forall>i. route_id rt = Some i \<longrightarrow> i \<noteq> [] \<and> CHR ''/'' \<notin> set i)"

fun carries :: "http_request \<Rightarrow> route \<Rightarrow> bool" where
  "carries r (POST_jobs d) = (r_Body r = d)"
| "carries r (GET_jobs s l off) = (r_Query r ''status'' = s \<and> r_Query r ''limit'' = l \<and> r_Query r ''offset'' = off)"
| "carries r (GET_job_runs _ l) = (r_Query r ''limit'' = l)"
| "carries r _ = True"

definition requests :: "http_request \<Rightarrow> route \<Rightarrow> bool" where
  "requests r rt \<longleftrightarrow> r_Method r = http_method rt \<and> r_URL_Path r = url_path rt \<and> carries r rt \<and> plain_id rt"

lemma segment: "CHR ''/'' \<notin> set i \<Longrightarrow> takeWhile (\<lambda>x. x \<noteq> CHR ''/'') (i @ CHR ''/'' # p) = i"
  "CHR ''/'' \<notin> set i \<Longrightarrow> takeWhile (\<lambda>x. x \<noteq> CHR ''/'') i = i"
  by (induction i) auto


text \<open>The routes that a registration other than its own does not match, and the one that does.\<close>

fun route_index :: "route \<Rightarrow> nat" where
  "route_index (POST_jobs _) = 0"
| "route_index (GET_jobs _ _ _) = 1"
| "route_index (GET_job _) = 2"
| "route_index (POST_job_pause _) = 3"
| "route_index (POST_job_resume _) = 4"
| "route_index (GET_job_runs _ _) = 5"
| "route_index (GET_run _) = 6"
| "route_index GET_workers = 7"

definition sub_path :: "route \<Rightarrow> string" where
  "sub_path rt = drop 3 (url_path rt)"

lemmas regs_eval = v1_regs_def v1_routes_def sub_path_def method_matches_def plain_id_def segment eval_nat_numeral

lemma own_pattern:
  assumes "plain_id rt"
  shows "chi_pattern (snd (v1_regs ! route_index rt)) (sub_path rt) = Some (case route_id rt of None \<Rightarrow> [] | Some i \<Rightarrow> i)"
  using assms by (cases rt) (simp_all add: regs_eval)

lemma own_method: "route_index rt < length v1_regs \<and> method_matches (fst (v1_regs ! route_index rt)) (http_method rt)"
  by (cases rt) (simp_all add: regs_eval)

lemma other_patterns:
  assumes "plain_id rt"
  shows "\<forall>i<length v1_regs. i \<noteq> route_index rt \<longrightarrow>
    \<not> (method_matches (fst (v1_regs ! i)) (http_method rt) \<and> chi_pattern (snd (v1_regs ! i)) (sub_path rt) \<noteq> None)"
  using assms by (cases rt) (simp_all add: regs_eval All_less_Suc)


lemma root_found:
  assumes "chi_finds chi" and "meth = ''GET'' \<or> meth = ''POST''" and "path = ''/v1/'' @ c # rest"
  shows "chi_route chi root_regs meth path = Chi_Found 4 (c # rest)"
  by (rule chi_unique [OF assms(1) _ assms(2)])
    (simp_all add: assms(3) router_regs_def root_regs_def method_matches_def All_less_Suc eval_nat_numeral)

lemma route_methods: "http_method rt = ''GET'' \<or> http_method rt = ''POST''"
  by (cases rt) simp_all

lemma v1_found:
  assumes "chi_finds chi" and "plain_id rt"
  shows "chi_route chi v1_regs (http_method rt) (sub_path rt) = Chi_Found (route_index rt) (case route_id rt of None \<Rightarrow> [] | Some i \<Rightarrow> i)"
proof (rule chi_unique [OF assms(1) _ _ _ _ own_pattern [OF assms(2)] _ other_patterns [OF assms(2)]])
  show "v1_regs \<in> router_regs" by (simp add: router_regs_def)
  show "http_method rt = ''GET'' \<or> http_method rt = ''POST''" by (rule route_methods)
  show "CHR ''{'' \<in> set (snd (v1_regs ! route_index rt)) \<longrightarrow> (case route_id rt of None \<Rightarrow> [] | Some i \<Rightarrow> i) \<noteq> []"
    using assms(2) by (cases rt) (simp_all add: regs_eval)
qed (simp_all add: own_method)

lemma own_handler: "carries r rt \<Longrightarrow> snd (snd (v1_routes ! route_index rt)) r (case route_id rt of None \<Rightarrow> [] | Some i \<Rightarrow> i) = rt"
  by (cases rt) (simp_all add: v1_routes_def eval_nat_numeral)

lemma url_sub_path: "url_path rt = ''/v1/'' @ hd (tl (sub_path rt)) # tl (tl (sub_path rt))"
  "CHR ''/'' # hd (tl (sub_path rt)) # tl (tl (sub_path rt)) = sub_path rt"
  by (cases rt; simp add: sub_path_def eval_nat_numeral)+

lemma exact_path: "CHR ''*'' \<notin> set pat \<Longrightarrow> CHR ''{'' \<notin> set pat \<Longrightarrow> chi_pattern pat path = Some v \<longleftrightarrow> path = pat \<and> v = []"
proof (induction pat arbitrary: path)
  case (Cons c pat)
  then show ?case by (cases path) auto
qed auto

subsection \<open>Properties\<close>

text \<open>
  C31. The router serves its routes: for every route and every identifier that is a segment of a path, a request with the route's method and path
  is answered by the route's handler with that identifier and the request's parameters, behind the recoverer, the logger, the
  limiter and the token check, whichever way the router library chooses among matching patterns; no two
  registrations compete.
\<close>

theorem router_serves_routes:
  assumes "chi_finds chi" and "requests r rt"
  shows "NewRouter chi exposition recoverer time_Now st cron jwt secret now now2 r =
    serve_metered recoverer time_Now st cron jwt secret now now2
      \<lparr>RemoteAddr = r_RemoteAddr r, Authorization = r_Authorization r, Route = rt\<rparr>"
proof -
  have r: "r_Method r = http_method rt" "r_URL_Path r = url_path rt" "carries r rt" "plain_id rt" using assms(2) by (simp_all add: requests_def)
  have "v1_router chi st cron r (sub_path rt) = metered_dispatch st cron rt"
    unfolding v1_router_def r(1) v1_found [OF assms(1) r(4)] by (simp add: own_handler [OF r(3)])
  then show ?thesis
    unfolding NewRouter_def r(1,2) root_found [OF assms(1) route_methods url_sub_path(1)] by (simp add: url_sub_path(2) serve_metered_def)
qed

text \<open>
  C30. Only \<open>/healthz\<close> and \<open>/metrics\<close> are open. Assume of the router library that it finds registered patterns, of the recoverer that it passes answers on, and
  of the JWT library that a token is valid only if its signing method is allowed, its signature verifies under the key that the key function
  returns for that method, and its expiry, where it has one, has not come. Then any request, with any method and path, whose path is neither of
  the two and which changes the store's state or gets another answer than the library's own 404 and 405, 401 or 429 has the path \<open>/v1\<close> or
  one below it, was admitted by the limiter for its client address, and carries a token signed with the service's secret by HS256, which has
  not expired if it has an expiry at all.
\<close>

theorem router_requires_token:
  assumes "chi_finds chi" and "recovers_with recovered recoverer" and "\<And>c. snd (run_state time_Now c) = c"
    and "jwt_checks jwt signature_ok expiry"
    and "run_state (NewRouter chi exposition recoverer time_Now st cron jwt secret now now2 r) ((rl, s), k) = (resp, ((rl', s'), k'))"
  shows "s' = s \<and> (r_URL_Path r = ''/healthz'' \<and> resp = healthzHandler \<or> r_URL_Path r = ''/metrics'' \<and> resp = exposition k \<or>
       resp \<in> {chi_NotFound chi, chi_MethodNotAllowed chi} \<or> fst resp \<in> {401, 429}) \<or>
    (r_URL_Path r = ''/v1'' \<or> take 4 (r_URL_Path r) = ''/v1/'') \<and> fst (allow (clientIP (r_RemoteAddr r)) now rl) \<and>
    take 7 (r_Authorization r) = ''Bearer '' \<and> signature_ok ''HS256'' secret (TrimSpace (drop 7 (r_Authorization r))) \<and>
    (\<forall>e. expiry (TrimSpace (drop 7 (r_Authorization r))) = Some e \<longrightarrow> now2 < e)"
proof (cases "chi_route chi root_regs (r_Method r) (r_URL_Path r)")
  case (Chi_Found n rest)
  have root: "root_regs \<in> router_regs" by (simp add: router_regs_def)
  note found = chi_findsD [OF assms(1) root Chi_Found]
  then consider "n = 0" | "n = 1" | "n = 2 \<or> n = 3 \<or> n = 4" by (fastforce simp: root_regs_def)
  then show ?thesis
  proof cases
    case 3
    have path: "r_URL_Path r = ''/v1'' \<or> take 4 (r_URL_Path r) = ''/v1/''"
      using found(2) 3 by (auto simp: root_regs_def split: list.splits if_splits)
    have "run_state (v1_chain recoverer (unmetered time_Now) (r_URL_Path r) (r_Method r) (handler_runs
        (rate_middleware (r_RemoteAddr r) now (jwtAuth jwt secret now2 (r_Authorization r) (v1_router chi st cron r (CHR ''/'' # rest))))))
        ((rl, s), k) = (resp, ((rl', s'), k'))" using assms(5) 3 Chi_Found by (auto simp: NewRouter_def)
    from v1_chain_run [OF assms(2,3) this] obtain k1 where
      "run_state (rate_middleware (r_RemoteAddr r) now (jwtAuth jwt secret now2 (r_Authorization r) (v1_router chi st cron r (CHR ''/'' # rest))))
        (rl, (s, k)) = (resp, (rl', (s', k1)))" by blast
    from token_guard [OF assms(4) this] path show ?thesis by auto
  qed (use found(2) assms(5) Chi_Found in \<open>auto simp: root_regs_def NewRouter_def exact_path simp del: chi_pattern.simps\<close>)
qed (use assms(5) in \<open>auto simp: NewRouter_def\<close>)


subsection \<open>A library that satisfies the assumptions\<close>

text \<open>It takes the first registration that matches.\<close>

definition first_match :: "(string \<times> string) list \<Rightarrow> string \<Rightarrow> string \<Rightarrow> chi_match" where
  "first_match regs meth path =
     (case find (\<lambda>n. method_matches (fst (regs ! n)) meth \<and> chi_pattern (snd (regs ! n)) path \<noteq> None) [0..<length regs] of
        None \<Rightarrow> Chi_NotFound
      | Some n \<Rightarrow> Chi_Found n (the (chi_pattern (snd (regs ! n)) path)))"

definition demo_chi :: chi_lib where
  "demo_chi = \<lparr>chi_route = first_match, chi_NotFound = (404, BNull), chi_MethodNotAllowed = (405, BNull)\<rparr>"

lemma first_match_found:
  "first_match regs meth path = Chi_Found n v \<Longrightarrow>
     n < length regs \<and> method_matches (fst (regs ! n)) meth \<and> chi_pattern (snd (regs ! n)) path = Some v"
  by (auto simp: first_match_def dest!: find_SomeD split: option.splits)

lemma first_match_finds:
  assumes "n < length regs" "method_matches (fst (regs ! n)) meth" "chi_pattern (snd (regs ! n)) path = Some v"
  shows "\<exists>n' v'. first_match regs meth path = Chi_Found n' v'"
  using assms find_NoneD [of "\<lambda>n. method_matches (fst (regs ! n)) meth \<and> chi_pattern (snd (regs ! n)) path \<noteq> None" "[0..<length regs]" n]
  by (auto simp: first_match_def simp del: not_None_eq split: option.splits)

lemma demo_chi_finds: "chi_finds demo_chi"
  unfolding chi_finds_def demo_chi_def chi_lib.simps using first_match_found first_match_finds by blast

definition demo_request :: http_request where
  "demo_request = \<lparr>r_Method = ''POST'', r_URL_Path = ''/v1/jobs/'' @ demo_uuid 0 @ ''/pause'', r_RemoteAddr = ''10.0.0.1:4711'',
     r_Authorization = ''Bearer ee.guess.'', r_Query = (\<lambda>_. []), r_Body = Inl ErrJSON\<rparr>"

theorem router_serves_routes_witness:
  "NewRouter demo_chi (\<lambda>_. (200, BNull)) demo_recoverer (ret 0) pg_store (\<lambda>_. Inl ErrJSON) demo_jwt ''secret'' 0 0 demo_request =
   serve_metered demo_recoverer (ret 0) pg_store (\<lambda>_. Inl ErrJSON) demo_jwt ''secret'' 0 0
     \<lparr>RemoteAddr = ''10.0.0.1:4711'', Authorization = ''Bearer ee.guess.'', Route = POST_job_pause (demo_uuid 0)\<rparr>"
proof -
  have "requests demo_request (POST_job_pause (demo_uuid 0))"
    by (simp add: requests_def demo_request_def plain_id_def demo_uuid_def)
  from router_serves_routes [OF demo_chi_finds this] show ?thesis by (simp add: demo_request_def)
qed

theorem router_requires_token_witness:
  "snd (fst (snd (run_state (NewRouter demo_chi (\<lambda>_. (200, BNull)) demo_recoverer (ret 0) pg_store (\<lambda>_. Inl ErrJSON) demo_jwt ''secret'' 0 0 demo_request)
     ((newRateLimiter 20 40, demo_world demo_db 2), no_metrics)))) = demo_world demo_db 2"
proof -
  have tok: "''ee.guess.'' = demo_sign 1 ''guess''" by (simp add: demo_sign_def numeral_2_eq_2)
  obtain resp rl' s' k' where run: "run_state (NewRouter demo_chi (\<lambda>_. (200, BNull)) demo_recoverer (ret 0) pg_store (\<lambda>_. Inl ErrJSON) demo_jwt
      ''secret'' 0 0 demo_request) ((newRateLimiter 20 40, demo_world demo_db 2), no_metrics) = (resp, ((rl', s'), k'))" by (metis surj_pair)
  have "snd (run_state (ret 0) c) = c" for c :: "rateLimiter \<times> world" by simp
  from router_requires_token [OF demo_chi_finds demo_recovers this demo_jwt_checks run]
  have "s' = demo_world demo_db 2" by (auto simp: demo_request_def tok demo_sign_trim demo_sign_inj)
  then show ?thesis by (simp only: run fst_conv snd_conv)
qed

end
