(* ===== verification/Spec2Isabelle.thy ===== *)
theory Spec2Isabelle
  imports Lifecycle Api_Types Query_Tracing Singleflight Pool_Concurrent Routes
begin

text \<open>
  taskflow is a distributed job scheduler in Go. Clients create jobs over an HTTP API; a scheduler
  replica, elected leader, promotes due jobs into runs; workers lease runs, execute them and report
  the outcome; everything is kept in one Postgres database. This library models that core and
  proves what makes it correct, and where the code falls short of what its documents say.

  \<^bold>\<open>Theories and what they model\<close>

  \<^item> \<open>Prelude\<close>: Go functions returning \<open>(v, err)\<close> as state monads over sums, \<open>check_err\<close>
    (\<open>if err != nil { return err }\<close>), loops over slices, the locale \<open>io_preorder\<close> that carries a relation
    between states through a function body, and the list facts for SQL statements.
  \<^item> \<open>Model\<close>: \<open>src/internal/model/model.go\<close>, JSON values, the errors of all packages, and the lease queue's
    order as an instance of \<open>linorder\<close>.
  \<^item> \<open>Database\<close>: \<open>src/migrations/0001_init.sql\<close> as a record of tables, and what the driver does: a
    statement is delivered, lost, or executed with its reply lost, as the \<open>script\<close> of the world says;
    \<open>Begin\<close>, \<open>Commit\<close> and the deferred \<open>Rollback\<close>; UUID parsing and generation, row locks and the replica
    as parameters of the world.
  \<^item> \<open>Store\<close>: every method of \<open>PostgresStore\<close> (\<open>src/internal/store/postgres.go\<close>), one definition each
    under its Go name, with its helpers.
  \<^item> \<open>Store_Laws\<close>, \<open>Store_History\<close>: the locales \<open>run_table_invariant\<close> and \<open>table_invariant\<close> (a predicate kept by each kind
    of statement is kept by every operation, also when it fails half way), interpreted on the schema's
    integrity, the issued identifiers and the growth of the history; \<open>store_step\<close>, one operation of
    any service under any faults or a step of the environment.
  \<^item> \<open>Store_Spec\<close>: what each operation returns and does without faults (\<open>good\<close> states). \<open>Store_Atomic\<close>: the
    transactions under every fault. \<open>Demo\<close>: concrete states for the examples. \<open>Store_Props\<close>: the store's
    properties.
  \<^item> \<open>Store_Api\<close>: the interface \<open>store.Store\<close> (\<open>src/internal/store/store.go\<close>) as a record of operations and
    \<open>pg_store\<close>, its implementation; its clients are written over any such record.
  \<^item> \<open>Scheduler\<close>: \<open>NextRunDue\<close> and \<open>DependenciesSatisfied\<close> (\<open>schedule.go\<close>), \<open>PromoteOnce\<close> and a tick of \<open>Run\<close>
    (\<open>promoter.go\<close>); the locale \<open>promotion_store\<close>, the contract a store must meet for promotion to be
    safe, interpreted on \<open>pg_store\<close>; the pure specification \<open>promote_rows\<close> and its refinement.
  \<^item> \<open>Float64\<close>: IEEE rounding for the one place where the worker computes with \<open>float64\<close>.
    \<open>Worker\<close>: \<open>executeOne\<close>, the retry delay on 64-bit words, contexts, the handlers and one turn of each loop
    (\<open>pool.go\<close>, \<open>handlers.go\<close>, \<open>janitor.go\<close>).
  \<^item> \<open>Lock\<close>: leader election (\<open>src/internal/lock\<close>) as a transition system of replicas, sessions and the
    advisory lock.
  \<^item> \<open>System\<close>: interleavings of workers, janitors and promoters on one store. \<open>Services\<close>: steps of all services under a condition on who
    may name a run, and what a step can do to a row. \<open>Cluster\<close>: a promotion pass interleaved call by call with everything else: \<open>shared\<close> puts
    any store among other services, the locale \<open>shared_promotion_store\<close> extends \<open>promotion_store\<close> by what they may do, a sublocale shows
    that the contract survives, and it is interpreted on \<open>pg_store\<close> with the steps that leave a leader's session alive;
    \<open>cluster_step\<close> is the whole system with its election.
  \<^item> \<open>Run_Lifecycle\<close>: the state diagram of \<open>src/docs/ARCHITECTURE.md\<close> as an abstract machine over the status and attempt of every run; the locale
    \<open>run_discipline\<close>, which says on what runs calls may be made and proves that the store then refines the machine, interpreted on the
    calls the diagram shows and on those that workers make. \<open>Pool_Concurrent\<close>: \<open>executeOne\<close> on a shared store; the locale
    \<open>rely_guarantee\<close> has the rules for programs among other services, interpreted with all faults and without.
  \<^item> \<open>Api\<close>: the handlers of \<open>src/internal/api/handlers.go\<close> over any store, one definition each: validation,
    \<open>parseLimit\<close> and \<open>parseOffset\<close> with \<open>strconv.Atoi\<close>, status codes and the encoded bodies. \<open>Api_Props\<close>: their properties
    over \<open>pg_store\<close>. \<open>Api_Types\<close>: the responses against \<open>src/docs/openapi.yaml\<close>.
  \<^item> \<open>RateLimit\<close>: the token bucket of \<open>ratelimit.go\<close> in \<open>float64\<close> arithmetic, \<open>clientIP\<close> with \<open>net.SplitHostPort\<close>.
    \<open>Router\<close>: \<open>jwtAuth\<close> and \<open>MintToken\<close> (\<open>auth.go\<close>) with the JWT library as a record of its two functions, the routes
    and the middlewares in front of them (\<open>router.go\<close>). \<open>Routes\<close>: \<open>NewRouter\<close> as a whole, from a method and a path to the answer, with the
    router library as a record.
  \<^item> \<open>Cache\<close>: the cache-aside store of \<open>src/internal/cache/cache.go\<close> over any store, with Redis' keys, expiry and lost
    commands; \<open>cache_step\<close>, what can happen between two reads. \<open>Cache_Props\<close>: the API over the cached store compared with the API
    over the store (\<open>follows\<close>), and what a lagging replica does to it. \<open>Singleflight\<close>: reads that share a fetch, in the three parts
    between which other calls run.
  \<^item> \<open>Migrate\<close>: \<open>RunMigrations\<close> (\<open>src/internal/store/migrate.go\<close>) as the tree of its calls, run alone (\<open>run_prog\<close>) and by
    any number of processes on one server (\<open>fleet_step\<close>).
  \<^item> \<open>Config\<close>: \<open>Load\<close> (\<open>src/internal/config/config.go\<close>) with \<open>time.ParseDuration\<close> and \<open>strconv.ParseFloat\<close>. \<open>Service\<close>: the start of
    the three services up to what they serve (\<open>src/cmd\<close>), and their loops as functions of the events they receive.
    \<open>Lifecycle\<close>: \<open>tracing.Init\<close>, the processes from start to exit with what they open and close, and the release of leadership on shutdown.
  \<^item> \<open>Metrics\<close>: the collectors of \<open>src/internal/metrics/metrics.go\<close> and the code that feeds them, \<open>requestLogger\<close> (\<open>middleware.go\<close>) and the
    chain around the routes. \<open>Query_Tracing\<close>: the driver's tracer (\<open>src/internal/store/tracing.go\<close>) as the calls it makes.

  \<^bold>\<open>What the theorems show\<close>

  \<^item> C1, C2, C5 hold after every sequence of operations under every pattern of faults: the schema's
    constraints, a history that only grows, an acyclic dependency graph.
  \<^item> C3, C8, C9 and \<open>idempotency_key_used_once\<close> give the transactions and the janitor's statement exactly, under faults; C4, C6, C7, C10 the
    behaviour clients rely on: what was created is read back, a lease goes to the head of the queue, no
    run is handed out twice, a crashed worker's run is recovered.
  \<^item> C11 to C14: promotion never doubles a run under faults, equals its specification, is sound and
    complete. \<open>impossible_schedule_always_due\<close>: a cron expression that never matches is due all the time.
  \<^item> C15, C16: the backoff is exact up to attempt 33 and wraps from 34 on. C17, C18, \<open>execute_success\<close> and \<open>execute_no_handler\<close>: every branch
    of \<open>executeOne\<close>. \<open>http_result_bounded\<close> and \<open>sleep_honours_timeout\<close>: the handlers.
  \<^item> C19, \<open>leadership_handed_over\<close>: one live leader at a time, and hand-over; \<open>stale_leader_possible\<close>: the window in which a deposed leader
    does not know it; \<open>shutdown_keeps_lock\<close>: a leader that shuts down does not give up the lock at once.
  \<^item> C20, \<open>late_start_orphans_run\<close>, \<open>slow_run_leased_twice\<close>, \<open>succeeded_run_can_restart\<close> and \<open>interleaved_promoters_double_run\<close>: what missing
    guards on the holder of a run allow: a run that is stuck for good, a run executed twice, a succeeded run that starts again, two
    active runs of one job.
  \<^item> C21 to C24 and \<open>lease_to_completion\<close>: what holds when callers are orderly. C21: all calls together refine the documented lifecycle of runs. C22: a
    worker within its lease is orderly in this sense, under any faults, with every other service between its calls. C23: without faults the
    store ends up with what the worker decided, on every branch. C24: with any number of replicas, every store call interleaved, no job
    has two active runs and one replica leads.
  \<^item> C25 to C28: the API validates as documented, creates once per idempotency key, pages through all jobs, and a paused job is
    not promoted; \<open>createJob_empty_key_conflict\<close> and \<open>lookup_status_codes\<close> give the answers for an empty key and
    for each kind of identifier. C38: every response has a documented status and body, up to the exceptions
    that \<open>undocumented_responses_occur\<close> exhibits.
  \<^item> C29 and \<open>burst_is_exact\<close>: the limiter stays within its bounds in spite of rounding, admits a client again, and admits exactly its burst
    at an instant. C30, C31 and \<open>minted_token_accepted\<close>: of all paths only \<open>/healthz\<close> and
    \<open>/metrics\<close> are open, every route is served by its handler, and a minted token is accepted until it expires.
  \<^item> C32: reads through the cache are stale for at most the key's lifetime, under faults and interleaving. C33: in front of a
    store nobody else writes to, the cache does not change any answer. \<open>cached_replica_stale_pause\<close>, \<open>cached_alias_stale\<close> and
    \<open>paused_job_read_active\<close> show where it does; \<open>misses_share_one_fetch\<close>: concurrent misses read the store once.
  \<^item> C34 to C36: however many processes migrate at once, each migration is applied once and whole; what one call does and
    returns; that it ends.
  \<^item> C37 and \<open>ParseDuration_exact\<close>: every configuration with whole rates and positive durations can be asked for, and durations are parsed
    exactly or refused. \<open>api_serves_when_ready\<close>: the API never serves with an empty secret or before its migrations; \<open>poll_interval_panics\<close>:
    settings that \<open>Load\<close> accepts and the loops do not. \<open>process_releases\<close>: what a process opens it closes.
  \<^item> C39, C40, \<open>gauges_exact\<close> and \<open>queries_traced\<close>: metering and tracing change nothing, and what they count is right;
    \<open>panic_not_observed\<close>, \<open>series_per_identifier\<close> and \<open>lost_completion_counted\<close> say where it is not.

  \<^bold>\<open>Bounds and idealisations\<close>

  Loops of the code are over slices and are primitive recursion; no fuel is used, and every operation is a total
  function. Attempts and priorities are 16-bit words, timeouts 32-bit, durations 64-bit. Times are integers in
  nanoseconds; Postgres rounds timestamps to microseconds, which the model does not. Rows
  with equal sort keys come in insertion order, which SQL leaves open, and text is ordered by character
  code. A transaction runs without interleaved statements of others, its row locks
  appearing to others as \<open>row_locked\<close>. Hypotheses about code outside the repository are explicit: \<open>wf_world\<close> and \<open>good\<close>
  ask that \<open>gen_random_uuid()\<close> does not repeat and that a generated UUID's text is read back as
  itself; the cron library, the HTTP client, the JWT library, the router library and the SQL text of the migrations are arguments. A \<open>float64\<close> is a
  rational with every operation rounded, without fused operations; configured rates are finite. Times in JSON bodies are
  exact. In \<open>Cache\<close> every call runs alone; \<open>lone_call_is_GetJob\<close> connects it to the shared fetches of \<open>Singleflight\<close>. In \<open>Cluster\<close> a store
  call is one step, and a replica's pass ends while its election session is alive. In \<open>Pool_Concurrent\<close> handlers do not use the store, as
  those of the repository, and a worker is done before its lease expires; \<open>slow_run_leased_twice\<close> says what happens otherwise. Paths have no
  escaped characters.

  \<^bold>\<open>Not modelled\<close>

  The logger only writes lines. Sockets, signal delivery, the exposition of the metrics and the search of the router library are outside the
  code. The spans that \<open>executeOne\<close> and \<open>PromoteOnce\<close> open around themselves are left out. What is left of the Go files besides are imports, comments and log lines. The goroutines of one pool are separate workers here:
  each is a worker of \<open>Pool_Concurrent\<close>, with the others among the other services.
\<close>

end
